(* ===== verification/Corm_Prelude.thy ===== *)
theory Corm_Prelude
  imports Main "HOL-Library.Word" "HOL-Library.Sublist"
begin

text \<open>
  Shared vocabulary of the development: the enumerations of
  \<^verbatim>\<open>include/corm/types.h\<close>, C strings and the few functions of the C library
  that the sources use (\<^verbatim>\<open>snprintf\<close> into a fixed buffer, \<^verbatim>\<open>%d\<close>
  printing, \<^verbatim>\<open>strchr\<close>), the allocator, and generic list lemmas.

  A C string is modelled by its characters without the terminator; \<open>cstring s\<close> says that
  no terminator occurs inside it. The allocator is an explicit script of outcomes: each call
  of \<^verbatim>\<open>malloc\<close>, \<^verbatim>\<open>calloc\<close>, \<^verbatim>\<open>realloc\<close> or
  \<^verbatim>\<open>strdup\<close> consumes one boolean, and an exhausted script means that memory
  is available from then on. Every failure path of the sources is reached by some script.
\<close>

section \<open>Enumerations of types.h\<close>

datatype corm_err_t =
    CORM_OK
  | CORM_ERR_GENERIC
  | CORM_ERR_NOMEM
  | CORM_ERR_NOTFOUND
  | CORM_ERR_DUP
  | CORM_ERR_BACKEND
  | CORM_ERR_TYPE
  | CORM_ERR_NULL
  | CORM_ERR_BOUNDS
  | CORM_ERR_MISMATCH

datatype corm_backend_type_t = CORM_BACKEND_SQLITE | CORM_BACKEND_MYSQL | CORM_BACKEND_POSTGRES

datatype corm_field_type_t =
    CORM_INT | CORM_INT64 | CORM_FLOAT | CORM_DOUBLE | CORM_STRING | CORM_TEXT | CORM_BLOB
  | CORM_BOOL

datatype corm_isolation_level_t =
    CORM_ISOLATION_READ_UNCOMMITTED
  | CORM_ISOLATION_READ_COMMITTED
  | CORM_ISOLATION_REPEATABLE_READ
  | CORM_ISOLATION_SERIALIZABLE

section \<open>The allocator\<close>

type_synonym mem = "bool list"

fun alloc :: "mem \<Rightarrow> bool \<times> mem" where
  "alloc [] = (True, [])"
| "alloc (b # m) = (b, m)"

section \<open>C strings\<close>

abbreviation NUL :: char where
  "NUL \<equiv> CHR 0x00"

definition cstring :: "string \<Rightarrow> bool" where
  "cstring s \<longleftrightarrow> NUL \<notin> set s"

lemma cstring_Nil [simp]: "cstring []"
  by (simp add: cstring_def)

lemma cstring_Cons [simp]: "cstring (c # s) \<longleftrightarrow> c \<noteq> NUL \<and> cstring s"
  by (auto simp: cstring_def)

lemma cstring_append [simp]: "cstring (s @ t) \<longleftrightarrow> cstring s \<and> cstring t"
  by (auto simp: cstring_def)

lemma cstring_take [simp]: "cstring s \<Longrightarrow> cstring (take n s)"
  by (auto simp: cstring_def dest: in_set_takeD)

lemma cstring_drop [simp]: "cstring s \<Longrightarrow> cstring (drop n s)"
  by (auto simp: cstring_def dest: in_set_dropD)

lemma cstring_concat: "cstring (concat ss) \<longleftrightarrow> (\<forall>s\<in>set ss. cstring s)"
  by (auto simp: cstring_def)

lemma cstring_takeWhile_id: "cstring s \<Longrightarrow> takeWhile (\<lambda>c. c \<noteq> NUL) s = s"
  by (simp add: cstring_def takeWhile_eq_all_conv) metis

text \<open>\<^verbatim>\<open>snprintf(buf, n, "%s", s)\<close> into a buffer of \<open>n > 0\<close> bytes.\<close>

definition snprintf_buf :: "nat \<Rightarrow> string \<Rightarrow> string" where
  "snprintf_buf n s = take (n - 1) s"

lemma length_snprintf_buf: "0 < n \<Longrightarrow> length (snprintf_buf n s) < n"
  by (simp add: snprintf_buf_def)

lemma snprintf_buf_id: "length s < n \<Longrightarrow> snprintf_buf n s = s"
  by (simp add: snprintf_buf_def)

text \<open>\<^verbatim>\<open>strchr\<close>: the part before the first occurrence and the part after it.\<close>

definition strchr_split :: "char \<Rightarrow> string \<Rightarrow> (string \<times> string) option" where
  "strchr_split c s =
     (if c \<in> set s then Some (takeWhile (\<lambda>x. x \<noteq> c) s, tl (dropWhile (\<lambda>x. x \<noteq> c) s)) else None)"

lemma strchr_split_None: "strchr_split c s = None \<longleftrightarrow> c \<notin> set s"
  by (simp add: strchr_split_def)

lemma strchr_split_Some:
  assumes "strchr_split c s = Some (a, b)"
  shows "s = a @ c # b" and "c \<notin> set a"
proof -
  from assms have c: "c \<in> set s" and a: "a = takeWhile (\<lambda>x. x \<noteq> c) s"
    and b: "b = tl (dropWhile (\<lambda>x. x \<noteq> c) s)"
    by (auto simp: strchr_split_def split: if_splits)
  from c obtain y ys where d: "dropWhile (\<lambda>x. x \<noteq> c) s = y # ys"
    by (cases "dropWhile (\<lambda>x. x \<noteq> c) s") (auto simp: dropWhile_eq_Nil_conv)
  then have "y = c"
    by (metis (mono_tags, lifting) dropWhile_eq_Cons_conv)
  with a b d takeWhile_dropWhile_id [of "\<lambda>x. x \<noteq> c" s] show "s = a @ c # b" by simp
  from a show "c \<notin> set a" by (auto dest: set_takeWhileD)
qed

lemma strchr_split_append:
  assumes "c \<notin> set a"
  shows "strchr_split c (a @ c # b) = Some (a, b)"
proof -
  from assms have "\<And>x. x \<in> set a \<Longrightarrow> x \<noteq> c" by auto
  then have "takeWhile (\<lambda>x. x \<noteq> c) (a @ c # b) = a" "dropWhile (\<lambda>x. x \<noteq> c) (a @ c # b) = c # b"
    by (simp_all add: takeWhile_append2 dropWhile_append2)
  then show ?thesis by (simp add: strchr_split_def)
qed

section \<open>Decimal printing\<close>

definition digit_char :: "nat \<Rightarrow> char" where
  "digit_char n = ''0123456789'' ! n"

fun dec_nat :: "nat \<Rightarrow> string" where
  "dec_nat n = (if n < 10 then [digit_char n] else dec_nat (n div 10) @ [digit_char (n mod 10)])"

declare dec_nat.simps [simp del]

definition dec_int :: "int \<Rightarrow> string" where
  "dec_int i = (if i < 0 then CHR ''-'' # dec_nat (nat (- i)) else dec_nat (nat i))"

definition digit_val :: "char \<Rightarrow> nat" where
  "digit_val c = of_char c - 48"

definition undec :: "string \<Rightarrow> nat" where
  "undec s = foldl (\<lambda>a c. 10 * a + digit_val c) 0 s"

lemma less_10_cases:
  "(n::nat) < 10 \<Longrightarrow> n \<in> {0, 1, 2, 3, 4, 5, 6, 7, 8, 9}"
  by auto

lemma digit_val_char: "n < 10 \<Longrightarrow> digit_val (digit_char n) = n"
  by (drule less_10_cases) (auto simp: digit_char_def digit_val_def)

lemma undec_dec_nat: "undec (dec_nat n) = n"
proof (induction n rule: dec_nat.induct)
  case (1 n)
  show ?case
  proof (cases "n < 10")
    case True
    then show ?thesis by (subst dec_nat.simps) (simp add: undec_def digit_val_char)
  next
    case False
    with 1 have "undec (dec_nat (n div 10)) = n div 10" by simp
    with False show ?thesis
      by (subst dec_nat.simps) (simp add: undec_def digit_val_char)
  qed
qed

lemma dec_nat_inj: "dec_nat a = dec_nat b \<longleftrightarrow> a = b"
  by (metis undec_dec_nat)

lemma dec_nat_not_Nil [simp]: "dec_nat n \<noteq> []"
  by (subst dec_nat.simps) simp

lemma digit_char_digit: "n < 10 \<Longrightarrow> digit_char n \<in> set ''0123456789''"
  by (simp add: digit_char_def nth_mem del: set_simps)

lemma set_dec_nat: "set (dec_nat n) \<subseteq> set ''0123456789''"
proof (induction n rule: dec_nat.induct)
  case (1 n)
  show ?case
  proof (cases "n < 10")
    case True
    with digit_char_digit [of n] show ?thesis by (subst dec_nat.simps) simp
  next
    case False
    with 1 have "set (dec_nat (n div 10)) \<subseteq> set ''0123456789''" by simp
    with False digit_char_digit [of "n mod 10"] show ?thesis
      by (subst dec_nat.simps) simp
  qed
qed

lemma dec_nat_no_char: "c \<notin> set ''0123456789'' \<Longrightarrow> c \<notin> set (dec_nat n)"
  using set_dec_nat by blast

lemma cstring_dec_nat [simp]: "cstring (dec_nat n)"
  using dec_nat_no_char [of NUL] by (simp add: cstring_def)

lemma cstring_dec_int [simp]: "cstring (dec_int i)"
  by (simp add: dec_int_def)

section \<open>Lists\<close>

text \<open>The characters of \<open>s\<close> equal to \<open>c\<close>, counted.\<close>

abbreviation count_char :: "char \<Rightarrow> string \<Rightarrow> nat" where
  "count_char c s \<equiv> count_list s c"

fun join_with :: "'a list \<Rightarrow> 'a list list \<Rightarrow> 'a list" where
  "join_with sep [] = []"
| "join_with sep [x] = x"
| "join_with sep (x # y # ys) = x @ sep @ join_with sep (y # ys)"

lemma join_with_Cons: "ys \<noteq> [] \<Longrightarrow> join_with sep (x # ys) = x @ sep @ join_with sep ys"
  by (cases ys) auto

lemma join_with_append:
  "xs \<noteq> [] \<Longrightarrow> ys \<noteq> [] \<Longrightarrow> join_with sep (xs @ ys) = join_with sep xs @ sep @ join_with sep ys"
  by (induction sep xs rule: join_with.induct) (auto simp: join_with_Cons)

lemma set_join_with: "set (join_with sep xs) \<subseteq> set sep \<union> \<Union> (set ` set xs)"
  by (induction sep xs rule: join_with.induct) auto

lemma count_join_with:
  "c \<notin> set sep \<Longrightarrow> count_list (join_with sep xs) c = sum_list (map (\<lambda>x. count_list x c) xs)"
  by (induction sep xs rule: join_with.induct) (simp_all add: count_notin)

lemma cstring_join_with:
  "cstring sep \<Longrightarrow> \<forall>x\<in>set xs. cstring x \<Longrightarrow> cstring (join_with sep xs)"
  by (induction sep xs rule: join_with.induct) simp_all

text \<open>The pieces a loop emits that writes a separator before every element but the first.\<close>

definition sep_pieces :: "'a list \<Rightarrow> 'a list list \<Rightarrow> 'a list list" where
  "sep_pieces sep xs = (case xs of [] \<Rightarrow> [] | x # ys \<Rightarrow> x # concat (map (\<lambda>y. [sep, y]) ys))"

lemma concat_sep_pieces: "concat (sep_pieces sep xs) = join_with sep xs"
proof (cases xs)
  case (Cons x ys)
  then show ?thesis
  proof (induction ys arbitrary: x xs)
    case (Cons y ys)
    from Cons.IH [of "y # ys" y] Cons.prems show ?case by (simp add: sep_pieces_def)
  qed (simp add: sep_pieces_def)
qed (simp add: sep_pieces_def)

lemma distinct_map_sub:
  assumes "distinct (map f as)" and "\<And>b. b \<in> set bs \<Longrightarrow> g b = f b" and "set bs \<subseteq> set as" and "distinct bs"
  shows "distinct (map g bs)"
  using assms by (auto simp: distinct_map inj_on_def) (metis subsetD)

lemma find_index_least:
  assumes "List.find P xs = Some x"
  shows "\<exists>ys zs. xs = ys @ x # zs \<and> P x \<and> (\<forall>y\<in>set ys. \<not> P y)"
proof -
  from assms obtain i where "i < length xs" "P (xs ! i)" "x = xs ! i" "\<forall>j<i. \<not> P (xs ! j)"
    by (auto simp: find_Some_iff)
  moreover from this have "xs = take i xs @ x # drop (Suc i) xs"
    by (simp add: id_take_nth_drop)
  moreover from calculation have "\<forall>y\<in>set (take i xs). \<not> P y"
    by (auto simp: in_set_conv_nth)
  ultimately show ?thesis by blast
qed

end
