(* ===== verification/Strbuf.thy ===== *)
theory Strbuf
  imports Corm_Prelude
begin

text \<open>
  The dynamic string buffer of \<^verbatim>\<open>src/internal/strbuf.h\<close>: the block, its
  length and its capacity, the growth loop (also on 64-bit words, where it may fail to
  terminate), and the interface \<open>text_buffer\<close> the query and SQL builders rely on.
\<close>

section \<open>State\<close>

text \<open>\<open>sb_buf\<close> is \<^verbatim>\<open>None\<close> for a NULL \<^verbatim>\<open>buf\<close>; otherwise
  it lists the bytes of the allocated block, those beyond the string included.\<close>

record corm_strbuf_t =
  sb_buf :: "char list option"
  sb_len :: nat
  sb_cap :: nat

definition corm_strbuf_init :: corm_strbuf_t where
  "corm_strbuf_init = \<lparr>sb_buf = None, sb_len = 0, sb_cap = 0\<rparr>"

section \<open>Growth\<close>

text \<open>The doubling loop on unbounded sizes. Its argument is never 0 in the code.\<close>

function grow_cap :: "nat \<Rightarrow> nat \<Rightarrow> nat" where
  "grow_cap new_cap needed =
     (if 0 < new_cap \<and> new_cap < needed then grow_cap (new_cap * 2) needed else new_cap)"
  by pat_completeness auto
termination
  by (relation "measure (\<lambda>(c, n). n - c)") auto

declare grow_cap.simps [simp del]

text \<open>The same loop as the machine runs it, on \<^verbatim>\<open>size_t\<close>: \<open>None\<close> when it does
  not return.\<close>

partial_function (option) grow_cap_w :: "64 word \<Rightarrow> 64 word \<Rightarrow> 64 word option" where
  "grow_cap_w new_cap needed =
     (if new_cap < needed then grow_cap_w (new_cap * 2) needed else Some new_cap)"

text \<open>\<^verbatim>\<open>realloc\<close> keeps the old bytes; the bytes it adds are indeterminate and
  stand as an arbitrary non-NUL byte that no lemma mentions.\<close>

definition realloc_block :: "char list option \<Rightarrow> nat \<Rightarrow> char list" where
  "realloc_block b n = take n ((case b of None \<Rightarrow> [] | Some xs \<Rightarrow> xs) @ replicate n CHR 0xCD)"

text \<open>Sizes are natural numbers in the buffer itself; \<open>grow_sizes_word\<close> shows that the size
  computation on \<^verbatim>\<open>size_t\<close> gives the same capacity while the needed size is at most
  \<open>2 ^ 63\<close> and the old capacity below it.\<close>

definition new_cap_w :: "64 word \<Rightarrow> 64 word \<Rightarrow> 64 word \<Rightarrow> 64 word option" where
  "new_cap_w len cap extra =
     (if len + extra + 1 \<le> cap then Some cap
      else grow_cap_w (if cap \<noteq> 0 then cap * 2 else 64) (len + extra + 1))"

definition corm_strbuf_grow ::
  "corm_strbuf_t \<Rightarrow> nat \<Rightarrow> mem \<Rightarrow> corm_err_t \<times> corm_strbuf_t \<times> mem" where
  "corm_strbuf_grow sb extra m =
     (if sb_len sb + extra + 1 \<le> sb_cap sb then (CORM_OK, sb, m)
      else
        let new_cap = grow_cap (if sb_cap sb \<noteq> 0 then sb_cap sb * 2 else 64) (sb_len sb + extra + 1);
            (ok, m') = alloc m
        in if ok then
             (CORM_OK, sb\<lparr>sb_buf := Some (realloc_block (sb_buf sb) new_cap), sb_cap := new_cap\<rparr>, m')
           else (CORM_ERR_NOMEM, sb, m'))"

section \<open>Operations\<close>

definition write_at :: "char list \<Rightarrow> nat \<Rightarrow> char list \<Rightarrow> char list" where
  "write_at b i xs = take i b @ xs @ drop (i + length xs) b"

text \<open>\<^verbatim>\<open>corm_strbuf_appendn\<close> copies \<open>n\<close> bytes of \<open>s\<close>, which has at least that many; \<open>corm_strbuf_append\<close>
  copies the whole string.\<close>

definition corm_strbuf_appendn ::
  "corm_strbuf_t \<Rightarrow> string \<Rightarrow> nat \<Rightarrow> mem \<Rightarrow> corm_err_t \<times> corm_strbuf_t \<times> mem" where
  "corm_strbuf_appendn sb s n m =
     (case corm_strbuf_grow sb n m of
        (err, sb1, m1) \<Rightarrow>
          if err \<noteq> CORM_OK then (err, sb1, m1)
          else (CORM_OK,
                sb1\<lparr>sb_buf := map_option
                       (\<lambda>b. write_at (write_at b (sb_len sb1) (take n s)) (sb_len sb1 + n) [NUL]) (sb_buf sb1),
                    sb_len := sb_len sb1 + n\<rparr>, m1))"

definition corm_strbuf_append ::
  "corm_strbuf_t \<Rightarrow> string \<Rightarrow> mem \<Rightarrow> corm_err_t \<times> corm_strbuf_t \<times> mem" where
  "corm_strbuf_append sb s m =
     (let slen = length s in
      case corm_strbuf_grow sb slen m of
        (err, sb1, m1) \<Rightarrow>
          if err \<noteq> CORM_OK then (err, sb1, m1)
          else (CORM_OK,
                sb1\<lparr>sb_buf := map_option
                       (\<lambda>b. write_at (write_at b (sb_len sb1) s) (sb_len sb1 + slen) [NUL]) (sb_buf sb1),
                    sb_len := sb_len sb1 + slen\<rparr>, m1))"

text \<open>\<^verbatim>\<open>corm_strbuf_appendf\<close>: \<open>out\<close> is what the format produces; \<open>None\<close> stands
  for a negative \<^verbatim>\<open>vsnprintf\<close> result.\<close>

definition corm_strbuf_appendf ::
  "corm_strbuf_t \<Rightarrow> string option \<Rightarrow> mem \<Rightarrow> corm_err_t \<times> corm_strbuf_t \<times> mem" where
  "corm_strbuf_appendf sb out m =
     (case out of
        None \<Rightarrow> (CORM_ERR_GENERIC, sb, m)
      | Some s \<Rightarrow>
         (let needed = length s in
          case corm_strbuf_grow sb needed m of
            (err, sb1, m1) \<Rightarrow>
              if err \<noteq> CORM_OK then (err, sb1, m1)
              else (CORM_OK,
                    sb1\<lparr>sb_buf := map_option (\<lambda>b. write_at b (sb_len sb1) (s @ [NUL])) (sb_buf sb1),
                        sb_len := sb_len sb1 + needed\<rparr>, m1)))"

definition corm_strbuf_clear :: "corm_strbuf_t \<Rightarrow> corm_strbuf_t" where
  "corm_strbuf_clear sb = sb\<lparr>sb_len := 0, sb_buf := map_option (\<lambda>b. b[0 := NUL]) (sb_buf sb)\<rparr>"

definition corm_strbuf_free :: "corm_strbuf_t \<Rightarrow> corm_strbuf_t" where
  "corm_strbuf_free sb = sb\<lparr>sb_buf := None, sb_len := 0, sb_cap := 0\<rparr>"

definition corm_strbuf_cstr :: "corm_strbuf_t \<Rightarrow> string" where
  "corm_strbuf_cstr sb = (case sb_buf sb of None \<Rightarrow> [] | Some b \<Rightarrow> takeWhile (\<lambda>c. c \<noteq> NUL) b)"

text \<open>The callers in \<^verbatim>\<open>builder.c\<close>, \<^verbatim>\<open>query.c\<close> and
  \<^verbatim>\<open>migration.c\<close> ignore the returned code: what is left is the effect.\<close>

definition sb_app :: "corm_strbuf_t \<Rightarrow> string \<Rightarrow> mem \<Rightarrow> corm_strbuf_t \<times> mem" where
  "sb_app sb s m = snd (corm_strbuf_append sb s m)"

definition sb_app_all :: "string list \<Rightarrow> corm_strbuf_t \<times> mem \<Rightarrow> corm_strbuf_t \<times> mem" where
  "sb_app_all ss st = fold (\<lambda>s (sb, m). sb_app sb s m) ss st"

section \<open>Invariant and abstraction\<close>

definition sb_text :: "corm_strbuf_t \<Rightarrow> string" where
  "sb_text sb = (case sb_buf sb of None \<Rightarrow> [] | Some b \<Rightarrow> take (sb_len sb) b)"

definition sb_wf :: "corm_strbuf_t \<Rightarrow> bool" where
  "sb_wf sb \<longleftrightarrow>
     (case sb_buf sb of
        None \<Rightarrow> sb_len sb = 0 \<and> sb_cap sb = 0
      | Some b \<Rightarrow> length b = sb_cap sb \<and> sb_len sb < sb_cap sb \<and> b ! sb_len sb = NUL \<and>
                 cstring (take (sb_len sb) b))"

lemma sb_init_wf [simp]: "sb_wf corm_strbuf_init" "sb_text corm_strbuf_init = []"
  "sb_len corm_strbuf_init = 0"
  by (simp_all add: sb_wf_def sb_text_def corm_strbuf_init_def)

lemma sb_len_text: "sb_wf sb \<Longrightarrow> length (sb_text sb) = sb_len sb"
  by (auto simp: sb_wf_def sb_text_def split: option.splits)

lemma sb_len_zero: "sb_wf sb \<Longrightarrow> (0 < sb_len sb) = (sb_text sb \<noteq> [])"
  by (metis length_greater_0_conv sb_len_text)

lemma sb_text_cstring: "sb_wf sb \<Longrightarrow> cstring (sb_text sb)"
  by (auto simp: sb_wf_def sb_text_def split: option.splits)

lemma grow_cap_ge: "0 < c \<Longrightarrow> n \<le> grow_cap c n"
proof (induction c n rule: grow_cap.induct)
  case (1 c n)
  then show ?case by (cases "c < n") (auto simp: grow_cap.simps [of c n])
qed

lemma grow_cap_lower: "c \<le> grow_cap c n"
proof (induction c n rule: grow_cap.induct)
  case (1 c n)
  then show ?case by (cases "0 < c \<and> c < n") (auto simp: grow_cap.simps [of c n])
qed

lemma length_realloc_block [simp]: "length (realloc_block b n) = n"
  by (auto simp: realloc_block_def split: option.splits)

lemma realloc_block_prefix:
  "k \<le> length b \<Longrightarrow> k \<le> n \<Longrightarrow> take k (realloc_block (Some b) n) = take k b"
  by (simp add: realloc_block_def min_def)

lemma length_write_at [simp]: "i + length xs \<le> length b \<Longrightarrow> length (write_at b i xs) = length b"
  by (simp add: write_at_def)

lemma write_at_behind: "length t = l \<Longrightarrow> write_at (t @ r) l s = t @ s @ drop (length s) r"
  by (simp add: write_at_def)

text \<open>What a successful growth provides: room for \<open>extra\<close> bytes and the terminator, and the
  text unchanged.\<close>

lemma grow_ok:
  assumes "sb_wf sb" and "corm_strbuf_grow sb extra m = (CORM_OK, sb1, m1)"
  shows "\<exists>b. sb_buf sb1 = Some b \<and> length b = sb_cap sb1 \<and> sb_len sb1 = sb_len sb \<and>
           sb_len sb + extra + 1 \<le> sb_cap sb1 \<and> take (sb_len sb) b = sb_text sb"
proof (cases "sb_len sb + extra + 1 \<le> sb_cap sb")
  case True
  with assms show ?thesis
    by (auto simp: corm_strbuf_grow_def sb_wf_def sb_text_def split: option.splits)
next
  case False
  let ?n = "grow_cap (if sb_cap sb \<noteq> 0 then sb_cap sb * 2 else 64) (sb_len sb + extra + 1)"
  from False assms(2) have eq: "sb1 = sb\<lparr>sb_buf := Some (realloc_block (sb_buf sb) ?n), sb_cap := ?n\<rparr>"
    by (auto simp: corm_strbuf_grow_def Let_def split: prod.splits if_splits)
  have room: "sb_len sb + extra + 1 \<le> ?n" by (rule grow_cap_ge) simp
  have "take (sb_len sb) (realloc_block (sb_buf sb) ?n) = sb_text sb"
    using assms(1) room
    by (auto simp: sb_wf_def sb_text_def realloc_block_prefix split: option.splits)
  with eq room show ?thesis by simp
qed

lemma grow_error:
  "corm_strbuf_grow sb extra m = (err, sb1, m1) \<Longrightarrow> err \<noteq> CORM_OK \<Longrightarrow> err = CORM_ERR_NOMEM \<and> sb1 = sb"
  by (auto simp: corm_strbuf_grow_def Let_def split: if_splits prod.splits)

text \<open>Writing a string and its terminator behind the text.\<close>

lemma append_text_wf:
  assumes "sb_buf sb1 = Some b" and "length b = sb_cap sb1" and "sb_len sb1 = l"
    and "l + length s + 1 \<le> sb_cap sb1" and "take l b = t" and "cstring t" and "cstring s"
  shows "sb_wf (sb1\<lparr>sb_buf := Some (write_at (write_at b l s) (l + length s) [NUL]), sb_len := l + length s\<rparr>)"
    and "sb_text (sb1\<lparr>sb_buf := Some (write_at (write_at b l s) (l + length s) [NUL]), sb_len := l + length s\<rparr>)
         = t @ s"
proof -
  let ?b = "write_at (write_at b l s) (l + length s) [NUL]"
  define r where "r = drop l b"
  from assms have b: "b = t @ r" and t: "length t = l" and r: "Suc (length s) \<le> length r"
    by (auto simp: r_def)
  have eq: "?b = (t @ s) @ NUL # drop (Suc (length s)) r"
    using write_at_behind [OF t, of r s] write_at_behind [of "t @ s" "l + length s" "drop (length s) r" "[NUL]"] b t
    by simp
  have len: "length ?b = sb_cap sb1"
    using assms(2) b r unfolding eq by simp
  have nul: "?b ! (l + length s) = NUL"
    unfolding eq using t by (metis length_append nth_append_length)
  have tk: "take (l + length s) ?b = t @ s"
    unfolding eq using t by simp
  show "sb_wf (sb1\<lparr>sb_buf := Some ?b, sb_len := l + length s\<rparr>)"
    using assms len tk nul by (simp add: sb_wf_def)
  show "sb_text (sb1\<lparr>sb_buf := Some ?b, sb_len := l + length s\<rparr>) = t @ s"
    using tk by (simp add: sb_text_def)
qed

lemma append_cases:
  assumes "sb_wf sb" and "cstring s" and "corm_strbuf_append sb s m = (err, sb', m')"
  shows "err = CORM_OK \<and> sb_wf sb' \<and> sb_text sb' = sb_text sb @ s \<or>
         err = CORM_ERR_NOMEM \<and> sb' = sb"
proof -
  obtain e sb1 m1 where g: "corm_strbuf_grow sb (length s) m = (e, sb1, m1)"
    by (cases "corm_strbuf_grow sb (length s) m") auto
  show ?thesis
  proof (cases "e = CORM_OK")
    case True
    with grow_ok [OF assms(1)] g obtain b where b: "sb_buf sb1 = Some b" "length b = sb_cap sb1"
      "sb_len sb1 = sb_len sb" "sb_len sb + length s + 1 \<le> sb_cap sb1" "take (sb_len sb) b = sb_text sb"
      by metis
    note w = append_text_wf [OF b sb_text_cstring [OF assms(1)] assms(2)]
    from assms(3) g True b have "err = CORM_OK"
      "sb' = sb1\<lparr>sb_buf := Some (write_at (write_at b (sb_len sb) s) (sb_len sb + length s) [NUL]),
                 sb_len := sb_len sb + length s\<rparr>"
      by (simp_all add: corm_strbuf_append_def Let_def)
    with w show ?thesis by simp
  next
    case False
    with assms(3) g grow_error [OF g] show ?thesis by (auto simp: corm_strbuf_append_def Let_def)
  qed
qed

lemma sb_cstr_text: "sb_wf sb \<Longrightarrow> corm_strbuf_cstr sb = sb_text sb"
proof (cases "sb_buf sb")
  case (Some b)
  assume "sb_wf sb"
  with Some have b: "b = sb_text sb @ NUL # drop (Suc (sb_len sb)) b" "cstring (sb_text sb)"
    using id_take_nth_drop [of "sb_len sb" b] by (auto simp: sb_wf_def sb_text_def)
  have "takeWhile (\<lambda>c. c \<noteq> NUL) (sb_text sb @ NUL # drop (Suc (sb_len sb)) b) = sb_text sb"
    using b(2) by (simp add: takeWhile_tail cstring_takeWhile_id)
  with b(1) Some show ?thesis by (simp add: corm_strbuf_cstr_def)
qed (simp add: corm_strbuf_cstr_def sb_text_def)

lemma write_at_twice:
  assumes "l + length s + 1 \<le> length b"
  shows "write_at b l (s @ [NUL]) = write_at (write_at b l s) (l + length s) [NUL]"
proof -
  have t: "length (take l b) = l" using assms by simp
  have "write_at (write_at (take l b @ drop l b) l s) (l + length s) [NUL] =
      (take l b @ s) @ NUL # drop (Suc (length s)) (drop l b)"
    using write_at_behind [OF t, of "drop l b" s]
      write_at_behind [of "take l b @ s" "l + length s" "drop (length s) (drop l b)" "[NUL]"] t
    by simp
  moreover have "write_at b l (s @ [NUL]) = (take l b @ s) @ NUL # drop (Suc (length s)) (drop l b)"
    by (simp add: write_at_def add.commute)
  ultimately show ?thesis by simp
qed

lemma appendf_append:
  assumes "sb_wf sb"
  shows "corm_strbuf_appendf sb (Some s) m = corm_strbuf_append sb s m"
proof -
  obtain e sb1 m1 where g: "corm_strbuf_grow sb (length s) m = (e, sb1, m1)"
    by (cases "corm_strbuf_grow sb (length s) m") auto
  show ?thesis
  proof (cases "e = CORM_OK")
    case True
    with grow_ok [OF assms] g obtain b where "sb_buf sb1 = Some b" "length b = sb_cap sb1"
      "sb_len sb1 = sb_len sb" "sb_len sb + length s + 1 \<le> sb_cap sb1"
      by metis
    with g True show ?thesis
      by (simp add: corm_strbuf_appendf_def corm_strbuf_append_def Let_def write_at_twice)
  next
    case False
    with g show ?thesis by (simp add: corm_strbuf_appendf_def corm_strbuf_append_def Let_def)
  qed
qed

lemma append_no_failure:
  "sb_wf sb \<Longrightarrow> fst (corm_strbuf_append sb s []) = CORM_OK \<and> snd (snd (corm_strbuf_append sb s [])) = []"
  by (auto simp: corm_strbuf_append_def corm_strbuf_grow_def Let_def)

section \<open>The interface of a text buffer\<close>

text \<open>
  What the builders rely on: an append either adds its string or, when memory is short, leaves
  the text as it was; with memory available it always adds it.
\<close>

locale text_buffer =
  fixes app :: "'b \<Rightarrow> string \<Rightarrow> mem \<Rightarrow> 'b \<times> mem"
    and tx :: "'b \<Rightarrow> string"
    and wf :: "'b \<Rightarrow> bool"
  assumes app_wf: "wf b \<Longrightarrow> cstring s \<Longrightarrow> wf (fst (app b s m))"
    and app_tx: "wf b \<Longrightarrow> cstring s \<Longrightarrow>
                   tx (fst (app b s m)) = tx b @ s \<or> tx (fst (app b s m)) = tx b"
    and app_full: "wf b \<Longrightarrow> cstring s \<Longrightarrow> tx (fst (app b s [])) = tx b @ s"
    and app_mem: "wf b \<Longrightarrow> cstring s \<Longrightarrow> snd (app b s []) = []"
begin

lemma run_wf:
  "wf b \<Longrightarrow> (\<forall>s\<in>set ss. cstring s) \<Longrightarrow> wf (fst (fold (\<lambda>s (b, m). app b s m) ss (b, m)))"
proof (induction ss arbitrary: b m)
  case (Cons s ss)
  then show ?case using app_wf [of b s m] by (cases "app b s m") auto
qed simp

lemma run_full:
  "wf b \<Longrightarrow> (\<forall>s\<in>set ss. cstring s) \<Longrightarrow>
     tx (fst (fold (\<lambda>s (b, m). app b s m) ss (b, []))) = tx b @ concat ss \<and>
     snd (fold (\<lambda>s (b, m). app b s m) ss (b, [])) = []"
proof (induction ss arbitrary: b)
  case (Cons s ss)
  obtain b' m' where a: "app b s [] = (b', m')" by fastforce
  from Cons.prems have cs: "cstring s" by simp
  from a app_mem [OF Cons.prems(1) cs] have m': "m' = []" by simp
  from a app_full [OF Cons.prems(1) cs] have t: "tx b' = tx b @ s" by simp
  from a app_wf [OF Cons.prems(1) cs, of "[]"] have "wf b'" by simp
  with Cons.IH [of b'] Cons.prems(2) a m' t show ?case by simp
qed simp

lemma run_subseq:
  "wf b \<Longrightarrow> (\<forall>s\<in>set ss. cstring s) \<Longrightarrow>
     \<exists>ss'. subseq ss' ss \<and> tx (fst (fold (\<lambda>s (b, m). app b s m) ss (b, m))) = tx b @ concat ss'"
proof (induction ss arbitrary: b m)
  case Nil
  show ?case by (intro exI [of _ "[]"]) simp
next
  case (Cons s ss)
  obtain b' m' where a: "app b s m = (b', m')" by fastforce
  from Cons.prems have cs: "cstring s" by simp
  from a app_wf [OF Cons.prems(1) cs, of m] have "wf b'" by simp
  with Cons.IH [of b' m'] Cons.prems(2) obtain ss' where ss': "subseq ss' ss"
    "tx (fst (fold (\<lambda>s (b, m). app b s m) ss (b', m'))) = tx b' @ concat ss'" by auto
  consider "tx b' = tx b @ s" | "tx b' = tx b"
    using app_tx [OF Cons.prems(1) cs, of m] a by auto
  then show ?case
  proof cases
    case 1
    with ss' a show ?thesis by (intro exI [of _ "s # ss'"]) simp
  next
    case 2
    with ss' a show ?thesis by (intro exI [of _ ss']) auto
  qed
qed

end

lemma sb_app_cases:
  assumes "sb_wf sb" and "cstring s"
  shows "sb_wf (fst (sb_app sb s m))"
    and "sb_text (fst (sb_app sb s m)) = sb_text sb @ s \<or> fst (sb_app sb s m) = sb"
  using append_cases [OF assms, of m] assms(1)
  by (cases "corm_strbuf_append sb s m"; auto simp: sb_app_def)+

lemma sb_app_full:
  assumes "sb_wf sb" and "cstring s"
  shows "sb_text (fst (sb_app sb s [])) = sb_text sb @ s" and "snd (sb_app sb s []) = []"
  using append_cases [OF assms, of "[]"] append_no_failure [OF assms(1), of s]
  by (cases "corm_strbuf_append sb s []"; auto simp: sb_app_def)+

interpretation sbuf: text_buffer sb_app sb_text sb_wf
proof unfold_locales
  fix b :: corm_strbuf_t and s m
  assume "sb_wf b" and "cstring s"
  then show "sb_wf (fst (sb_app b s m))" by (rule sb_app_cases(1))
  show "sb_text (fst (sb_app b s m)) = sb_text b @ s \<or> sb_text (fst (sb_app b s m)) = sb_text b"
    using sb_app_cases(2) [OF \<open>sb_wf b\<close> \<open>cstring s\<close>, of m] by auto
  show "sb_text (fst (sb_app b s [])) = sb_text b @ s" "snd (sb_app b s []) = []"
    using \<open>sb_wf b\<close> \<open>cstring s\<close> by (rule sb_app_full)+
qed

lemma sb_app_all_wf [simp]:
  "sb_wf sb \<Longrightarrow> (\<forall>s\<in>set ss. cstring s) \<Longrightarrow> sb_wf (fst (sb_app_all ss (sb, m)))"
  unfolding sb_app_all_def by (rule sbuf.run_wf)

lemma sb_app_all_text [simp]:
  "sb_wf sb \<Longrightarrow> (\<forall>s\<in>set ss. cstring s) \<Longrightarrow>
     sb_text (fst (sb_app_all ss (sb, []))) = sb_text sb @ concat ss"
  unfolding sb_app_all_def using sbuf.run_full by blast

lemma sb_app_all_mem [simp]:
  "sb_wf sb \<Longrightarrow> (\<forall>s\<in>set ss. cstring s) \<Longrightarrow> snd (sb_app_all ss (sb, [])) = []"
  unfolding sb_app_all_def using sbuf.run_full by blast

text \<open>An append consumes outcomes of the allocator and adds none.\<close>

lemma sb_app_used: "set (snd (sb_app sb s m)) \<subseteq> set m"
  by (cases m) (auto simp: sb_app_def corm_strbuf_append_def corm_strbuf_grow_def Let_def split: prod.splits)

lemma sb_app_all_used: "set (snd (sb_app_all ss (sb, m))) \<subseteq> set m"
proof (induction ss arbitrary: sb m)
  case (Cons s ss)
  obtain sb' m' where "sb_app sb s m = (sb', m')" by fastforce
  with Cons.IH [of sb' m'] sb_app_used [of sb s m] show ?case by (auto simp: sb_app_all_def)
qed (simp add: sb_app_all_def)

text \<open>Appends with memory available, as a function of the buffer: the form in which the clients'
  proofs evaluate their clauses.\<close>

definition sbx :: "string list \<Rightarrow> corm_strbuf_t \<Rightarrow> corm_strbuf_t" where
  "sbx ss sb = fst (sb_app_all ss (sb, []))"

lemma sb_app_all_sbx [simp]:
  "sb_wf sb \<Longrightarrow> (\<forall>s\<in>set ss. cstring s) \<Longrightarrow> sb_app_all ss (sb, []) = (sbx ss sb, [])"
  by (simp add: sbx_def prod_eq_iff)

lemma sb_app_sbx [simp]: "sb_wf sb \<Longrightarrow> cstring s \<Longrightarrow> sb_app sb s [] = (sbx [s] sb, [])"
  using sb_app_all_sbx [of sb "[s]"] by (simp add: sb_app_all_def)

lemma sbx_wf [simp]: "sb_wf sb \<Longrightarrow> (\<forall>s\<in>set ss. cstring s) \<Longrightarrow> sb_wf (sbx ss sb)"
  unfolding sbx_def by (rule sb_app_all_wf)

lemma sbx_text [simp]:
  "sb_wf sb \<Longrightarrow> (\<forall>s\<in>set ss. cstring s) \<Longrightarrow> sb_text (sbx ss sb) = sb_text sb @ concat ss"
  unfolding sbx_def by (rule sb_app_all_text)

lemma sb_app_wf [simp]: "sb_wf sb \<Longrightarrow> cstring s \<Longrightarrow> sb_wf (fst (sb_app sb s m))"
  by (rule sb_app_cases(1))

lemma sb_clear_wf [simp]:
  assumes "sb_wf sb"
  shows "sb_wf (corm_strbuf_clear sb)" and "sb_text (corm_strbuf_clear sb) = []"
    and "sb_len (corm_strbuf_clear sb) = 0"
proof -
  from assms show "sb_wf (corm_strbuf_clear sb)"
    by (cases "sb_buf sb") (auto simp: sb_wf_def corm_strbuf_clear_def sb_text_def)
qed (simp_all add: corm_strbuf_clear_def sb_text_def split: option.split)

section \<open>The growth loop on 64-bit sizes\<close>

declare grow_cap_w.simps [code]

lemma unat_double: "unat (c :: 64 word) < 2 ^ 63 \<Longrightarrow> unat (c * 2) = 2 * unat c"
  by (simp add: unat_word_ariths)

lemma grow_cap_w_eq:
  assumes "0 < unat c" and "unat n \<le> 2 ^ 63"
  shows "grow_cap_w c n = Some (of_nat (grow_cap (unat c) (unat n)))"
  using assms(1)
proof (induction "unat n - unat c" arbitrary: c rule: less_induct)
  case less
  show ?case
  proof (cases "c < n")
    case True
    with assms(2) have c: "unat c < unat n" "unat c < 2 ^ 63"
      by (auto simp: word_less_nat_alt)
    then have d: "unat (c * 2) = 2 * unat c" by (simp add: unat_double)
    with less.prems c have "grow_cap_w (c * 2) n = Some (of_nat (grow_cap (unat (c * 2)) (unat n)))"
      by (intro less.hyps) auto
    with True c d less.prems show ?thesis
      by (simp add: grow_cap_w.simps [of c n] grow_cap.simps [of "unat c"] mult.commute)
  next
    case False
    then show ?thesis
      by (simp add: grow_cap_w.simps [of c n] grow_cap.simps [of "unat c"] word_less_nat_alt)
  qed
qed

lemma grow_cap_upper: "grow_cap c n = c \<or> grow_cap c n < 2 * n"
proof (induction c n rule: grow_cap.induct)
  case (1 c n)
  then show ?case by (cases "0 < c \<and> c < n") (auto simp: grow_cap.simps [of c n])
qed

lemma unat_of_nat64: "n < 2 ^ 64 \<Longrightarrow> unat (of_nat n :: 64 word) = n"
  by (simp add: unat_of_nat)

lemma grow_sizes_word:
  assumes "sb_len sb + extra + 1 \<le> 2 ^ 63" and "sb_cap sb < 2 ^ 63"
  shows "map_option unat (new_cap_w (of_nat (sb_len sb)) (of_nat (sb_cap sb)) (of_nat extra)) =
    Some (sb_cap (fst (snd (corm_strbuf_grow sb extra []))))"
proof -
  let ?need = "sb_len sb + extra + 1" and ?c = "if sb_cap sb \<noteq> 0 then sb_cap sb * 2 else 64"
  have n: "unat (of_nat (sb_len sb) + of_nat extra + 1 :: 64 word) = ?need"
    using assms(1) unat_of_nat64 [of ?need] by (simp add: add.commute [of 1])
  have k: "unat (of_nat (sb_cap sb) :: 64 word) = sb_cap sb"
    using assms(2) by (simp add: unat_of_nat64)
  have z: "((of_nat (sb_cap sb) :: 64 word) \<noteq> 0) = (sb_cap sb \<noteq> 0)" using k by (metis unat_0 unat_eq_zero)
  have c: "unat (if sb_cap sb \<noteq> 0 then of_nat (sb_cap sb) * 2 else 64 :: 64 word) = ?c"
    using unat_double [of "of_nat (sb_cap sb)"] k assms(2) by simp
  have g: "grow_cap ?c ?need < 2 ^ 64" using grow_cap_upper [of ?c ?need] assms by auto
  have "grow_cap_w (if sb_cap sb \<noteq> 0 then of_nat (sb_cap sb) * 2 else 64) (of_nat (sb_len sb) + of_nat extra + 1) =
      Some (of_nat (grow_cap ?c ?need))"
    using grow_cap_w_eq [of "if sb_cap sb \<noteq> 0 then of_nat (sb_cap sb) * 2 else 64"
        "of_nat (sb_len sb) + of_nat extra + 1"] assms(1) unfolding n c by simp
  moreover have "unat (of_nat (grow_cap ?c ?need) :: 64 word) = grow_cap ?c ?need"
    using g by (rule unat_of_nat64)
  ultimately show ?thesis using n k unfolding new_cap_w_def z
    by (simp add: corm_strbuf_grow_def Let_def word_le_nat_alt)
qed

lemma double_pow2_w:
  fixes c :: "64 word"
  assumes "unat c = 0 \<or> (\<exists>k<64. unat c = 2 ^ k)"
  shows "unat (c * 2) = 0 \<or> (\<exists>k<64. unat (c * 2) = 2 ^ k)"
  using assms
proof (elim disjE exE conjE)
  assume "unat c = 0"
  then show ?thesis by (simp add: unat_word_ariths)
next
  fix k :: nat
  assume k: "k < 64" "unat c = 2 ^ k"
  show ?thesis
  proof (cases "k = 63")
    case True
    with k show ?thesis by (simp add: unat_word_ariths)
  next
    case False
    with k have "k < 63" by simp
    then have "(2::nat) ^ k < 2 ^ 63" by (rule power_strict_increasing) simp
    with k have "unat (c * 2) = 2 ^ Suc k" by (simp add: unat_double)
    moreover from \<open>k < 63\<close> have "Suc k < 64" by simp
    ultimately show ?thesis by blast
  qed
qed

lemma pow2_w_le:
  assumes "unat (c :: 64 word) = 0 \<or> (\<exists>k<64. unat c = 2 ^ k)"
  shows "unat c \<le> 2 ^ 63"
  using assms
proof (elim disjE exE conjE)
  fix k :: nat
  assume "k < 64" and c: "unat c = 2 ^ k"
  then have "k \<le> 63" by simp
  then have "(2::nat) ^ k \<le> 2 ^ 63" by (rule power_increasing) simp
  with c show ?thesis by simp
qed simp

lemma grow_cap_w_diverges:
  assumes c: "unat c = 0 \<or> (\<exists>k<64. unat c = 2 ^ k)" and n: "2 ^ 63 < unat n"
  shows "grow_cap_w c n = None"
proof (rule ccontr)
  assume "grow_cap_w c n \<noteq> None"
  then obtain r where ret: "grow_cap_w c n = Some r" by auto
  have "\<not> ((unat c = 0 \<or> (\<exists>k<64. unat c = 2 ^ k)) \<and> 2 ^ 63 < unat n)"
  proof (rule grow_cap_w.raw_induct [where
      P = "\<lambda>c n r. \<not> ((unat c = 0 \<or> (\<exists>k<64. unat c = 2 ^ k)) \<and> 2 ^ 63 < unat n)", OF _ ret])
    fix f :: "64 word \<Rightarrow> 64 word \<Rightarrow> 64 word option" and c n r
    assume IH: "\<And>c n r. f c n = Some r \<Longrightarrow>
        \<not> ((unat c = 0 \<or> (\<exists>k<64. unat c = 2 ^ k)) \<and> 2 ^ 63 < unat n)"
      and eq: "(if c < n then f (c * 2) n else Some c) = Some r"
    show "\<not> ((unat c = 0 \<or> (\<exists>k<64. unat c = 2 ^ k)) \<and> 2 ^ 63 < unat n)"
    proof
      assume a: "(unat c = 0 \<or> (\<exists>k<64. unat c = 2 ^ k)) \<and> 2 ^ 63 < unat n"
      then have "unat c \<le> 2 ^ 63" by (intro pow2_w_le) blast
      with a have "c < n" by (simp add: word_less_nat_alt)
      with eq have "f (c * 2) n = Some r" by simp
      from IH [OF this] double_pow2_w [of c] a show False by blast
    qed
  qed
  with c n show False by blast
qed

lemma grow_cap_pow2: "\<exists>k. c = 2 ^ k \<Longrightarrow> \<exists>k. grow_cap c n = 2 ^ k"
proof (induction c n rule: grow_cap.induct)
  case (1 c n)
  from "1.prems" have "\<exists>k. c * 2 = 2 ^ k" by (metis mult.commute power_Suc)
  with "1.IH" "1.prems" show ?case by (simp add: grow_cap.simps [of c n])
qed

lemma grow_cap_double: "n \<le> 2 * c \<Longrightarrow> 0 < c \<Longrightarrow> grow_cap c n \<le> 2 * c"
  by (subst grow_cap.simps, subst grow_cap.simps) auto

section \<open>Properties\<close>

text \<open>(C30) Appending a C string to a well-formed buffer either returns \<open>CORM_OK\<close> and the C string
  read back from the buffer is the old text followed by the new one, or returns
  \<open>CORM_ERR_NOMEM\<close> and leaves the buffer as it was. The invariant (block length, room for the
  terminator, terminator in place) is kept: no byte is written outside the block.\<close>

theorem strbuf_append_correct:
  assumes "sb_wf sb" and "cstring s" and "corm_strbuf_append sb s m = (err, sb', m')"
  shows "sb_wf sb' \<and>
    (err = CORM_OK \<and> corm_strbuf_cstr sb' = corm_strbuf_cstr sb @ s \<or>
     err = CORM_ERR_NOMEM \<and> sb' = sb)"
  using append_cases [OF assms] assms(1) sb_cstr_text by metis

theorem strbuf_append_correct_witness:
  "\<exists>sb' m'. corm_strbuf_append corm_strbuf_init ''id = ?'' [] = (CORM_OK, sb', m') \<and>
     sb_wf sb' \<and> corm_strbuf_cstr sb' = ''id = ?''"
proof -
  obtain err sb' m' where a: "corm_strbuf_append corm_strbuf_init ''id = ?'' [] = (err, sb', m')"
    by (metis prod_cases3)
  have "err = CORM_OK" using append_no_failure [of corm_strbuf_init "''id = ?''"] a by simp
  with strbuf_append_correct [OF _ _ a] a show ?thesis
    by (auto simp: corm_strbuf_cstr_def corm_strbuf_init_def sb_wf_def)
qed

text \<open>The three append routines agree: \<open>appendf\<close> on formatted text and \<open>appendn\<close> on a
  prefix do exactly what \<open>append\<close> does, from every well-formed buffer and under every
  allocator behaviour.\<close>

theorem strbuf_append_variants_agree:
  assumes "sb_wf sb"
    and "n \<le> length s"
  shows "corm_strbuf_appendf sb (Some s) m = corm_strbuf_append sb s m \<and>
    corm_strbuf_appendn sb s n m = corm_strbuf_append sb (take n s) m"
  using appendf_append [OF assms(1)] assms(2)
  by (simp add: corm_strbuf_appendn_def corm_strbuf_append_def Let_def)

theorem strbuf_append_variants_agree_witness:
  "corm_strbuf_appendf corm_strbuf_init (Some ''a = ?'') [] = corm_strbuf_append corm_strbuf_init ''a = ?'' [] \<and>
   corm_strbuf_appendn corm_strbuf_init ''a = ?'' 4 [] = corm_strbuf_append corm_strbuf_init ''a = '' []"
  using strbuf_append_variants_agree [OF sb_init_wf(1), of 4 "''a = ?''" "[]"] by simp

text \<open>(C31) The growth loop as it runs on \<^verbatim>\<open>size_t\<close>, from any power-of-two
  capacity (the only capacities the code produces): it returns the capacity of the unbounded
  loop exactly when at most \<open>2 ^ 63\<close> bytes are needed, and runs forever otherwise, since the
  doubled capacity wraps to 0.\<close>

theorem grow_cap_word_terminates_iff:
  assumes "unat c = 2 ^ k" and "k < 64"
  shows "grow_cap_w c n =
    (if unat n \<le> 2 ^ 63 then Some (of_nat (grow_cap (unat c) (unat n))) else None)"
  using grow_cap_w_eq [of c n] grow_cap_w_diverges [of c n] assms by auto

theorem grow_cap_word_terminates_iff_witness:
  "grow_cap_w 64 1000 = Some 1024 \<and> grow_cap_w 64 (2 ^ 63 + 1) = None"
proof -
  have g: "grow_cap 64 1000 = 1024" by (simp add: grow_cap.simps)
  have "unat (64 :: 64 word) = 2 ^ 6" by simp
  from grow_cap_word_terminates_iff [OF this, of 1000] grow_cap_word_terminates_iff [OF this, of "2 ^ 63 + 1"] g
  show ?thesis by simp
qed

text \<open>A run of appends whose return codes are ignored, as every caller in the library does:
  under any allocator behaviour the text gained is the concatenation of a subsequence of the
  strings (each failed append drops exactly its string), and with memory available it is all of
  them.\<close>

theorem strbuf_ignored_errors:
  assumes "sb_wf sb" and "\<forall>s\<in>set ss. cstring s"
  shows "(\<exists>ss'. subseq ss' ss \<and>
        corm_strbuf_cstr (fst (sb_app_all ss (sb, m))) = corm_strbuf_cstr sb @ concat ss') \<and>
    corm_strbuf_cstr (fst (sb_app_all ss (sb, []))) = corm_strbuf_cstr sb @ concat ss"
  using sbuf.run_subseq [OF assms, of m] assms
  by (simp_all add: sb_cstr_text flip: sb_app_all_def)

theorem strbuf_ignored_errors_witness:
  "(\<exists>ss'. subseq ss' [''a'', ''b''] \<and>
     corm_strbuf_cstr (fst (sb_app_all [''a'', ''b''] (corm_strbuf_init, [False]))) =
     corm_strbuf_cstr corm_strbuf_init @ concat ss') \<and>
   corm_strbuf_cstr (fst (sb_app_all [''a'', ''b''] (corm_strbuf_init, []))) =
     corm_strbuf_cstr corm_strbuf_init @ ''ab''"
  using strbuf_ignored_errors [OF sb_init_wf(1), of "[''a'', ''b'']" "[False]"] by simp

end
