(* ===== verification/Dialect.thy ===== *)
theory Dialect
  imports Corm_Prelude
begin

text \<open>
  The SQL dialects of \<^verbatim>\<open>src/dialect.c\<close>: placeholders, identifier quotes, column types.
  The C functions write into a caller's buffer of \<^verbatim>\<open>bufsz\<close> bytes; the model returns the C
  string left there.
\<close>

section \<open>Operations\<close>

definition corm_dialect_placeholder_str :: "corm_backend_type_t \<Rightarrow> int \<Rightarrow> nat \<Rightarrow> string" where
  "corm_dialect_placeholder_str backend index bufsz =
     (case backend of
        CORM_BACKEND_POSTGRES \<Rightarrow> snprintf_buf bufsz (CHR ''$'' # dec_int (index + 1))
      | CORM_BACKEND_MYSQL \<Rightarrow> take (bufsz - 1) ''?''
      | CORM_BACKEND_SQLITE \<Rightarrow> take (bufsz - 1) ''?'')"

definition corm_dialect_quote :: "corm_backend_type_t \<Rightarrow> string \<Rightarrow> string" where
  "corm_dialect_quote backend name =
     (case backend of
        CORM_BACKEND_POSTGRES \<Rightarrow> [CHR 0x22]
      | CORM_BACKEND_MYSQL \<Rightarrow> [CHR 0x60]
      | CORM_BACKEND_SQLITE \<Rightarrow> [CHR 0x22])"

definition corm_dialect_autoinc :: "corm_backend_type_t \<Rightarrow> string" where
  "corm_dialect_autoinc backend =
     (case backend of
        CORM_BACKEND_SQLITE \<Rightarrow> ''INTEGER PRIMARY KEY AUTOINCREMENT''
      | CORM_BACKEND_MYSQL \<Rightarrow> ''INTEGER AUTO_INCREMENT''
      | CORM_BACKEND_POSTGRES \<Rightarrow> ''SERIAL PRIMARY KEY'')"

definition varchar :: "nat \<Rightarrow> string" where
  "varchar sz = ''VARCHAR('' @ dec_nat (if sz > 0 \<and> sz < 65535 then sz else 255) @ '')''"

definition corm_dialect_type_name_str :: "corm_backend_type_t \<Rightarrow> corm_field_type_t \<Rightarrow> nat \<Rightarrow> nat \<Rightarrow> string" where
  "corm_dialect_type_name_str backend type sz bufsz =
     take (bufsz - 1)
       (case backend of
          CORM_BACKEND_SQLITE \<Rightarrow>
            (case type of
               CORM_INT \<Rightarrow> ''INTEGER'' | CORM_INT64 \<Rightarrow> ''INTEGER'' | CORM_FLOAT \<Rightarrow> ''REAL'' | CORM_DOUBLE \<Rightarrow> ''REAL''
             | CORM_STRING \<Rightarrow> ''TEXT'' | CORM_TEXT \<Rightarrow> ''TEXT'' | CORM_BLOB \<Rightarrow> ''BLOB'' | CORM_BOOL \<Rightarrow> ''INTEGER'')
        | CORM_BACKEND_MYSQL \<Rightarrow>
            (case type of
               CORM_INT \<Rightarrow> ''INT'' | CORM_INT64 \<Rightarrow> ''BIGINT'' | CORM_FLOAT \<Rightarrow> ''FLOAT'' | CORM_DOUBLE \<Rightarrow> ''DOUBLE''
             | CORM_STRING \<Rightarrow> snprintf_buf bufsz (varchar sz) | CORM_TEXT \<Rightarrow> ''TEXT'' | CORM_BLOB \<Rightarrow> ''BLOB''
             | CORM_BOOL \<Rightarrow> ''TINYINT(1)'')
        | CORM_BACKEND_POSTGRES \<Rightarrow>
            (case type of
               CORM_INT \<Rightarrow> ''INTEGER'' | CORM_INT64 \<Rightarrow> ''BIGINT'' | CORM_FLOAT \<Rightarrow> ''REAL''
             | CORM_DOUBLE \<Rightarrow> ''DOUBLE PRECISION'' | CORM_STRING \<Rightarrow> snprintf_buf bufsz (varchar sz)
             | CORM_TEXT \<Rightarrow> ''TEXT'' | CORM_BLOB \<Rightarrow> ''BYTEA'' | CORM_BOOL \<Rightarrow> ''BOOLEAN''))"

definition corm_dialect_if_not_exists :: "corm_backend_type_t \<Rightarrow> string" where
  "corm_dialect_if_not_exists backend = ''IF NOT EXISTS''"

text \<open>The placeholder for parameter \<open>n\<close> (from 0) in the 16-byte buffers the builders use.\<close>

definition placeholder :: "corm_backend_type_t \<Rightarrow> nat \<Rightarrow> string" where
  "placeholder bt n = corm_dialect_placeholder_str bt (int n) 16"

section \<open>Lemmas\<close>

lemma length_dec_nat: "n < 10 ^ k \<Longrightarrow> 0 < k \<Longrightarrow> length (dec_nat n) \<le> k"
proof (induction k arbitrary: n)
  case (Suc k)
  show ?case
  proof (cases "n < 10")
    case True
    then show ?thesis by (subst dec_nat.simps) simp
  next
    case False
    with Suc.prems have "n div 10 < 10 ^ k" "0 < k" by (auto simp: less_mult_imp_div_less intro!: gr0I)
    with Suc.IH have "length (dec_nat (n div 10)) \<le> k" by blast
    with False show ?thesis by (subst dec_nat.simps) simp
  qed
qed simp

text \<open>A 16-byte buffer holds every placeholder of an \<^verbatim>\<open>int\<close> index.\<close>

lemma placeholder_postgres:
  assumes "n < 2 ^ 31 - 1"
  shows "placeholder CORM_BACKEND_POSTGRES n = CHR ''$'' # dec_nat (n + 1)"
proof -
  from assms have "n + 1 < 10 ^ 10" by simp
  then have "length (dec_nat (n + 1)) \<le> 10" by (rule length_dec_nat) simp
  moreover have "nat (int n + 1) = n + 1" by simp
  ultimately show ?thesis
    by (simp add: placeholder_def corm_dialect_placeholder_str_def snprintf_buf_def dec_int_def)
qed

lemma placeholder_qmark: "bt \<noteq> CORM_BACKEND_POSTGRES \<Longrightarrow> placeholder bt n = ''?''"
  by (cases bt) (simp_all add: placeholder_def corm_dialect_placeholder_str_def)

lemma cstring_placeholder [simp]: "cstring (placeholder bt n)"
  by (cases bt) (simp_all add: placeholder_def corm_dialect_placeholder_str_def snprintf_buf_def)

lemma cstring_quote [simp]: "cstring (corm_dialect_quote bt n)"
  by (cases bt) (simp_all add: corm_dialect_quote_def)

definition quote_char :: "corm_backend_type_t \<Rightarrow> char" where
  "quote_char bt = (if bt = CORM_BACKEND_MYSQL then CHR 0x60 else CHR 0x22)"

lemma quote_char [simp]: "corm_dialect_quote bt n = [quote_char bt]"
  by (cases bt) (simp_all add: corm_dialect_quote_def quote_char_def)

lemma quote_char_NUL [simp]: "quote_char bt \<noteq> NUL"
  by (simp add: quote_char_def)

lemma cstring_type_name [simp]: "cstring (corm_dialect_type_name_str bt t s n)"
  unfolding corm_dialect_type_name_str_def
  by (rule cstring_take) (cases bt; cases t; simp add: varchar_def snprintf_buf_def)

text \<open>No type name is cut off in a buffer of 32 bytes or more.\<close>

lemma type_name_fits:
  assumes "32 \<le> n"
  shows "corm_dialect_type_name_str bt t s n = corm_dialect_type_name_str bt t s 32"
proof -
  have "length (dec_nat (if s > 0 \<and> s < 65535 then s else 255)) \<le> 5"
    by (rule length_dec_nat) auto
  then have "length (varchar s) < 31" by (simp add: varchar_def)
  with assms show ?thesis
    by (cases bt; cases t) (simp_all add: corm_dialect_type_name_str_def snprintf_buf_def)
qed

section \<open>Properties\<close>

text \<open>Placeholders: on PostgreSQL two parameters never share a placeholder and the \<open>n\<close>-th is
  \<^verbatim>\<open>$n\<close>, never cut off by the 16-byte buffers of the callers; on the other dialects
  every placeholder is one question mark.\<close>

theorem placeholder_correct:
  assumes "i < 2 ^ 31 - 1" and "j < 2 ^ 31 - 1"
  shows "placeholder CORM_BACKEND_POSTGRES i = CHR ''$'' # dec_nat (i + 1) \<and>
    (placeholder CORM_BACKEND_POSTGRES i = placeholder CORM_BACKEND_POSTGRES j \<longleftrightarrow> i = j) \<and>
    (bt \<noteq> CORM_BACKEND_POSTGRES \<longrightarrow> placeholder bt i = ''?'')"
  using assms by (simp add: placeholder_postgres placeholder_qmark dec_nat_inj)

theorem placeholder_correct_witness:
  "placeholder CORM_BACKEND_POSTGRES 9 \<noteq> placeholder CORM_BACKEND_POSTGRES 0 \<and>
   placeholder CORM_BACKEND_MYSQL 9 = ''?''"
proof -
  have "(9::nat) < 2 ^ 31 - 1" "(0::nat) < 2 ^ 31 - 1" by simp_all
  from placeholder_correct [OF this, of CORM_BACKEND_MYSQL] show ?thesis by force
qed

end
