(* ===== verification/Hash_Table.thy ===== *)
theory Hash_Table
  imports Corm_Prelude
begin

text \<open>
  The string-keyed hash table of \<^verbatim>\<open>src/internal/hash.h\<close>: djb2 on 64-bit words,
  an array of chains, insertion at the head of a chain (a second insertion of a key shadows the
  first), and the interface \<open>shadow_table\<close> the model registry relies on.
\<close>

section \<open>State and operations\<close>

text \<open>A bucket is its chain of entries, head first; \<open>[]\<close> is a NULL bucket.\<close>

record 'v corm_hash_t =
  buckets :: "(string \<times> 'v) list list"
  hsize :: nat
  hcount :: nat

definition corm_hash_init :: "nat \<Rightarrow> mem \<Rightarrow> (corm_err_t + 'v corm_hash_t) \<times> mem" where
  "corm_hash_init initial_size m =
     (let n = (if initial_size = 0 then 32 else initial_size); (ok, m') = alloc m
      in if ok then (Inr \<lparr>buckets = replicate n [], hsize = n, hcount = 0\<rparr>, m')
         else (Inl CORM_ERR_NOMEM, m'))"

definition djb2 :: "string \<Rightarrow> 64 word" where
  "djb2 key = foldl (\<lambda>h c. (push_bit 5 h + h) + word_of_nat (of_char c)) 5381 key"

definition corm_hash_str :: "string \<Rightarrow> nat \<Rightarrow> nat" where
  "corm_hash_str key bucket_count = unat (djb2 key) mod bucket_count"

definition corm_hash_insert ::
  "'v corm_hash_t \<Rightarrow> string \<Rightarrow> 'v \<Rightarrow> mem \<Rightarrow> corm_err_t \<times> 'v corm_hash_t \<times> mem" where
  "corm_hash_insert ht key val m =
     (let idx = corm_hash_str key (hsize ht); (ok, m1) = alloc m in
      if \<not> ok then (CORM_ERR_NOMEM, ht, m1)
      else
        let (ok2, m2) = alloc m1 in
        if \<not> ok2 then (CORM_ERR_NOMEM, ht, m2)
        else (CORM_OK,
              ht\<lparr>buckets := (buckets ht)[idx := (key, val) # buckets ht ! idx], hcount := hcount ht + 1\<rparr>,
              m2))"

fun chain_find :: "(string \<times> 'v) list \<Rightarrow> string \<Rightarrow> 'v option" where
  "chain_find [] key = None"
| "chain_find ((k, v) # entry) key = (if k = key then Some v else chain_find entry key)"

definition corm_hash_find :: "'v corm_hash_t \<Rightarrow> string \<Rightarrow> 'v option" where
  "corm_hash_find ht key = chain_find (buckets ht ! corm_hash_str key (hsize ht)) key"

text \<open>The unlinking walk: the new chain, and whether an entry was removed.\<close>

fun chain_remove :: "(string \<times> 'v) list \<Rightarrow> string \<Rightarrow> (string \<times> 'v) list \<times> bool" where
  "chain_remove [] key = ([], False)"
| "chain_remove ((k, v) # entry) key =
     (if k = key then (entry, True)
      else case chain_remove entry key of (rest, found) \<Rightarrow> ((k, v) # rest, found))"

definition corm_hash_remove :: "'v corm_hash_t \<Rightarrow> string \<Rightarrow> 'v corm_hash_t" where
  "corm_hash_remove ht key =
     (let idx = corm_hash_str key (hsize ht);
          (chain, found) = chain_remove (buckets ht ! idx) key
      in if found then ht\<lparr>buckets := (buckets ht)[idx := chain], hcount := hcount ht - 1\<rparr> else ht)"

text \<open>Freeing walks every chain; the model also returns the keys whose storage is released.\<close>

definition corm_hash_free :: "'v corm_hash_t \<Rightarrow> 'v corm_hash_t \<times> string list" where
  "corm_hash_free ht =
     (\<lparr>buckets = [], hsize = 0, hcount = 0\<rparr>, concat (map (map fst) (take (hsize ht) (buckets ht))))"

section \<open>Invariant and abstraction\<close>

definition hash_wf :: "'v corm_hash_t \<Rightarrow> bool" where
  "hash_wf ht \<longleftrightarrow>
     0 < hsize ht \<and> length (buckets ht) = hsize ht \<and>
     (\<forall>i<hsize ht. \<forall>(k, v)\<in>set (buckets ht ! i). corm_hash_str k (hsize ht) = i) \<and>
     hcount ht = sum_list (map length (buckets ht))"

text \<open>The values bound to a key, the most recent first.\<close>

definition hash_vals :: "'v corm_hash_t \<Rightarrow> string \<Rightarrow> 'v list" where
  "hash_vals ht key = map snd (filter (\<lambda>e. fst e = key) (concat (buckets ht)))"

lemma corm_hash_str_less: "0 < n \<Longrightarrow> corm_hash_str k n < n"
  by (simp add: corm_hash_str_def)

lemma sum_lengths_update:
  assumes "i < length xss"
  shows "sum_list (map length (xss[i := ys])) + length (xss ! i) = sum_list (map length xss) + length ys"
proof -
  have "xss = take i xss @ xss ! i # drop (Suc i) xss" using assms by (simp add: id_take_nth_drop)
  moreover have "xss[i := ys] = take i xss @ ys # drop (Suc i) xss" using assms by (rule upd_conv_take_nth_drop)
  ultimately show ?thesis
    by (smt (verit, best) add.assoc add.commute list.simps(9) map_append sum_list.Cons sum_list.append)
qed

lemma filter_concat_other:
  "\<forall>xs\<in>set xss. \<forall>x\<in>set xs. \<not> P x \<Longrightarrow> filter P (concat xss) = []"
  by (auto simp: filter_empty_conv)

text \<open>Under the invariant only the key's own bucket holds entries for it.\<close>

lemma hash_vals_bucket:
  assumes "hash_wf ht"
  shows "hash_vals ht key = map snd (filter (\<lambda>e. fst e = key) (buckets ht ! corm_hash_str key (hsize ht)))"
proof -
  let ?i = "corm_hash_str key (hsize ht)" and ?P = "\<lambda>e. fst e = key"
  from assms have i: "?i < length (buckets ht)" by (auto simp: hash_wf_def corm_hash_str_less)
  have other: "\<not> ?P e" if "j < length (buckets ht)" "j \<noteq> ?i" "e \<in> set (buckets ht ! j)" for j e
    using assms that by (fastforce simp: hash_wf_def)
  have "\<forall>xs\<in>set (take ?i (buckets ht)). \<forall>e\<in>set xs. \<not> ?P e"
  proof (intro ballI)
    fix xs e
    assume "xs \<in> set (take ?i (buckets ht))" and e: "e \<in> set xs"
    then obtain j where "j < ?i" "j < length (buckets ht)" "xs = buckets ht ! j"
      by (auto simp: in_set_conv_nth)
    with e other [of j e] show "\<not> ?P e" by simp
  qed
  then have "filter ?P (concat (take ?i (buckets ht))) = []" by (rule filter_concat_other)
  moreover have "\<forall>xs\<in>set (drop (Suc ?i) (buckets ht)). \<forall>e\<in>set xs. \<not> ?P e"
  proof (intro ballI)
    fix xs e
    assume "xs \<in> set (drop (Suc ?i) (buckets ht))" and e: "e \<in> set xs"
    then obtain k where "k < length (buckets ht) - Suc ?i" "xs = drop (Suc ?i) (buckets ht) ! k"
      by (auto simp: in_set_conv_nth)
    then have "Suc ?i + k < length (buckets ht)" "xs = buckets ht ! (Suc ?i + k)" by auto
    with e other [of "Suc ?i + k" e] show "\<not> ?P e" by simp
  qed
  then have "filter ?P (concat (drop (Suc ?i) (buckets ht))) = []" by (rule filter_concat_other)
  moreover have "concat (buckets ht) = concat (take ?i (buckets ht)) @ buckets ht ! ?i @ concat (drop (Suc ?i) (buckets ht))"
    using i by (metis concat.simps(2) concat_append id_take_nth_drop)
  ultimately show ?thesis by (simp add: hash_vals_def)
qed

lemma chain_find_filter:
  "chain_find es key = (case map snd (filter (\<lambda>e. fst e = key) es) of [] \<Rightarrow> None | v # _ \<Rightarrow> Some v)"
  by (induction es key rule: chain_find.induct) auto

lemma hash_find_vals:
  "hash_wf ht \<Longrightarrow> corm_hash_find ht key = (case hash_vals ht key of [] \<Rightarrow> None | v # _ \<Rightarrow> Some v)"
  by (simp add: corm_hash_find_def hash_vals_bucket chain_find_filter)

lemma chain_remove_absent: "key \<notin> fst ` set es \<Longrightarrow> chain_remove es key = (es, False)"
  by (induction es key rule: chain_remove.induct) auto

lemma chain_remove_present:
  "key \<notin> fst ` set xs \<Longrightarrow> chain_remove (xs @ (key, v) # ys) key = (xs @ ys, True)"
  by (induction xs) auto

lemma chain_split:
  assumes "key \<in> fst ` set es"
  obtains xs v ys where "es = xs @ (key, v) # ys" and "key \<notin> fst ` set xs"
proof -
  from assms have "key \<in> set (map fst es)" by auto
  then obtain as bs where "map fst es = as @ key # bs" "key \<notin> set as"
    by (metis split_list_first)
  then obtain xs e ys where "es = xs @ e # ys" "map fst xs = as" "fst e = key"
    by (auto simp: map_eq_append_conv map_eq_Cons_conv)
  with that [of xs "snd e" ys] \<open>key \<notin> set as\<close> show ?thesis by (metis list.set_map prod.collapse)
qed

lemma filter_key_absent: "key \<notin> fst ` set xs \<Longrightarrow> filter (\<lambda>e. fst e = key) xs = []"
  by (auto simp: filter_empty_conv)

text \<open>What one removal does to a chain.\<close>

lemma chain_remove_cases:
  obtains "key \<notin> fst ` set es" "chain_remove es key = (es, False)"
  | es' where "key \<in> fst ` set es" "chain_remove es key = (es', True)" "set es' \<subseteq> set es"
      "length es = Suc (length es')"
      "\<And>k. filter (\<lambda>e. fst e = k) es' =
         (if k = key then tl (filter (\<lambda>e. fst e = k) es) else filter (\<lambda>e. fst e = k) es)"
proof (cases "key \<in> fst ` set es")
  case True
  then obtain xs v ys where es: "es = xs @ (key, v) # ys" and "key \<notin> fst ` set xs" by (rule chain_split)
  then have "chain_remove es key = (xs @ ys, True)" by (simp add: chain_remove_present)
  with es True \<open>key \<notin> fst ` set xs\<close> show ?thesis
    by (intro that(2) [of "xs @ ys"]) (auto simp: filter_key_absent)
next
  case False
  with that(1) show ?thesis by (simp add: chain_remove_absent)
qed

section \<open>The operations keep the invariant and act on the bindings\<close>

lemma hash_wf_update:
  assumes wf: "hash_wf ht" and idx: "idx = corm_hash_str key (hsize ht)"
    and es': "\<forall>(k, v)\<in>set es'. corm_hash_str k (hsize ht) = idx"
    and n: "n + length (buckets ht ! idx) = hcount ht + length es'"
  shows "hash_wf (ht\<lparr>buckets := (buckets ht)[idx := es'], hcount := n\<rparr>)"
proof -
  from wf idx have i: "idx < length (buckets ht)" by (simp add: hash_wf_def corm_hash_str_less)
  from sum_lengths_update [OF i, of es'] n wf have "n = sum_list (map length ((buckets ht)[idx := es']))"
    by (simp add: hash_wf_def)
  moreover have "\<forall>j<hsize ht. \<forall>(k, v)\<in>set ((buckets ht)[idx := es'] ! j). corm_hash_str k (hsize ht) = j"
    using wf es' i by (simp add: hash_wf_def nth_list_update)
  ultimately show ?thesis using wf by (simp add: hash_wf_def)
qed

lemma bucket_keys:
  "hash_wf ht \<Longrightarrow> idx = corm_hash_str key (hsize ht) \<Longrightarrow>
     \<forall>(k, v)\<in>set (buckets ht ! idx). corm_hash_str k (hsize ht) = idx"
  by (simp add: hash_wf_def corm_hash_str_less)

lemma hash_vals_update:
  assumes wf: "hash_wf ht" and wf': "hash_wf (ht\<lparr>buckets := (buckets ht)[idx := es'], hcount := n\<rparr>)"
    and idx: "idx = corm_hash_str key (hsize ht)"
  shows "hash_vals (ht\<lparr>buckets := (buckets ht)[idx := es'], hcount := n\<rparr>) k =
    (if corm_hash_str k (hsize ht) = idx then map snd (filter (\<lambda>e. fst e = k) es') else hash_vals ht k)"
proof -
  from wf idx have "idx < length (buckets ht)" by (simp add: hash_wf_def corm_hash_str_less)
  then show ?thesis
    using hash_vals_bucket [OF wf', of k] hash_vals_bucket [OF wf, of k] by (auto simp: nth_list_update)
qed

lemma hash_insert_cases:
  assumes wf: "hash_wf ht" and ins: "corm_hash_insert ht key v m = (err, ht', m')"
  shows "err = CORM_ERR_NOMEM \<and> ht' = ht \<or>
         err = CORM_OK \<and> hash_wf ht' \<and> hash_vals ht' = (hash_vals ht)(key := v # hash_vals ht key) \<and>
         hcount ht' = Suc (hcount ht)"
proof (cases "err = CORM_OK")
  case True
  let ?i = "corm_hash_str key (hsize ht)"
  let ?h = "ht\<lparr>buckets := (buckets ht)[?i := (key, v) # buckets ht ! ?i], hcount := hcount ht + 1\<rparr>"
  from ins True have h: "ht' = ?h"
    by (auto simp: corm_hash_insert_def Let_def split: prod.splits if_splits)
  have wf': "hash_wf ?h"
    by (rule hash_wf_update [OF wf refl]) (use bucket_keys [OF wf refl, of key] in auto)
  have "hash_vals ?h k = ((hash_vals ht)(key := v # hash_vals ht key)) k" for k
    using hash_vals_update [OF wf wf' refl, of k] hash_vals_bucket [OF wf, of k] by auto
  with wf' True h show ?thesis by auto
next
  case False
  with ins show ?thesis by (auto simp: corm_hash_insert_def Let_def split: prod.splits if_splits)
qed

lemma hash_insert_no_failure:
  "fst (corm_hash_insert ht key v []) = CORM_OK" "snd (snd (corm_hash_insert ht key v [])) = []"
  by (simp_all add: corm_hash_insert_def Let_def)

lemma hash_remove_spec:
  assumes wf: "hash_wf ht"
  shows "hash_wf (corm_hash_remove ht key) \<and>
    hash_vals (corm_hash_remove ht key) = (hash_vals ht)(key := tl (hash_vals ht key))"
proof -
  let ?i = "corm_hash_str key (hsize ht)"
  show ?thesis
  proof (cases rule: chain_remove_cases [of key "buckets ht ! ?i"])
    case 1
    then have "hash_vals ht key = []" by (simp add: hash_vals_bucket [OF wf] filter_key_absent)
    with 1 wf show ?thesis by (simp add: corm_hash_remove_def fun_upd_idem)
  next
    case (2 es')
    let ?h = "ht\<lparr>buckets := (buckets ht)[?i := es'], hcount := hcount ht - 1\<rparr>"
    from 2 have h: "corm_hash_remove ht key = ?h" by (simp add: corm_hash_remove_def)
    from wf have i: "?i < length (buckets ht)" by (simp add: hash_wf_def corm_hash_str_less)
    from sum_lengths_update [OF i, of "[]"] wf 2(4) have pos: "0 < hcount ht" by (simp add: hash_wf_def)
    have wf': "hash_wf ?h"
      by (rule hash_wf_update [OF wf refl]) (use bucket_keys [OF wf refl, of key] 2 pos in auto)
    have "hash_vals ?h k = ((hash_vals ht)(key := tl (hash_vals ht key))) k" for k
      using hash_vals_update [OF wf wf' refl, of k] hash_vals_bucket [OF wf, of k] 2(5) [of k]
      by (auto simp: map_tl)
    with wf' h show ?thesis by auto
  qed
qed

lemma hash_init_spec:
  "hash_wf (\<lparr>buckets = replicate n [], hsize = n, hcount = 0\<rparr> :: 'v corm_hash_t) = (0 < n)"
  "hash_vals (\<lparr>buckets = replicate n [], hsize = n, hcount = 0\<rparr> :: 'v corm_hash_t) k = []"
  by (auto simp: hash_wf_def hash_vals_def sum_list_replicate filter_empty_conv)

section \<open>The interface of a table with shadowing\<close>

locale shadow_table =
  fixes put :: "'t \<Rightarrow> 'k \<Rightarrow> 'v \<Rightarrow> 't"
    and get :: "'t \<Rightarrow> 'k \<Rightarrow> 'v option"
    and del :: "'t \<Rightarrow> 'k \<Rightarrow> 't"
    and vals :: "'t \<Rightarrow> 'k \<Rightarrow> 'v list"
    and wf :: "'t \<Rightarrow> bool"
  assumes put_wf: "wf t \<Longrightarrow> wf (put t k v)"
    and del_wf: "wf t \<Longrightarrow> wf (del t k)"
    and put_vals: "wf t \<Longrightarrow> vals (put t k v) = (vals t)(k := v # vals t k)"
    and del_vals: "wf t \<Longrightarrow> vals (del t k) = (vals t)(k := tl (vals t k))"
    and get_vals: "wf t \<Longrightarrow> get t k = (case vals t k of [] \<Rightarrow> None | v # _ \<Rightarrow> Some v)"
begin

lemma get_put: "wf t \<Longrightarrow> get (put t k v) k' = (if k' = k then Some v else get t k')"
  by (simp add: put_wf put_vals get_vals)

lemma get_del_put: "wf t \<Longrightarrow> get (del (put t k v) k) k' = get t k'"
  by (simp add: put_wf del_wf put_vals del_vals get_vals)

lemma get_del_other: "wf t \<Longrightarrow> k' \<noteq> k \<Longrightarrow> get (del t k) k' = get t k'"
  by (simp add: del_wf del_vals get_vals)

text \<open>A run of insertions: the latest binding of a key wins.\<close>

lemma get_puts:
  "wf t \<Longrightarrow> get (fold (\<lambda>(k, v) t. put t k v) kvs t) k =
     (case map_of (rev kvs) k of None \<Rightarrow> get t k | Some v \<Rightarrow> Some v)"
proof (induction kvs arbitrary: t)
  case (Cons kv kvs)
  then show ?case
    by (cases kv) (auto simp: put_wf get_put map_add_def split: option.splits)
qed simp

end

text \<open>The table with memory available provides that interface.\<close>

definition hash_put :: "'v corm_hash_t \<Rightarrow> string \<Rightarrow> 'v \<Rightarrow> 'v corm_hash_t" where
  "hash_put ht key v = fst (snd (corm_hash_insert ht key v []))"

lemma hash_put_spec:
  assumes "hash_wf ht"
  shows "hash_wf (hash_put ht key v)"
    and "hash_vals (hash_put ht key v) = (hash_vals ht)(key := v # hash_vals ht key)"
  using hash_insert_cases [OF assms, of key v "[]"] hash_insert_no_failure(1) [of ht key v]
  by (cases "corm_hash_insert ht key v []"; auto simp: hash_put_def)+

interpretation htab: shadow_table hash_put corm_hash_find corm_hash_remove hash_vals hash_wf
  by unfold_locales (simp_all add: hash_put_spec hash_remove_spec hash_find_vals)

section \<open>Properties\<close>

text \<open>Insertion and lookup, under any allocator behaviour: when an insertion returns
  \<open>CORM_OK\<close> the key is found with the new value and every other key as before, the entry count
  grows by one and the table stays well formed; when it fails it returns
  \<open>CORM_ERR_NOMEM\<close> and the table is unchanged.\<close>

theorem hash_insert_find:
  assumes "hash_wf ht" and "corm_hash_insert ht key v m = (err, ht', m')"
  shows "hash_wf ht' \<and>
    (err = CORM_OK \<and> hcount ht' = Suc (hcount ht) \<and>
       (\<forall>k. corm_hash_find ht' k = (if k = key then Some v else corm_hash_find ht k)) \<or>
     err = CORM_ERR_NOMEM \<and> ht' = ht)"
  using hash_insert_cases [OF assms] assms(1) by (auto simp: hash_find_vals)

theorem hash_insert_find_witness:
  "\<exists>ht' m'. corm_hash_insert \<lparr>buckets = replicate 32 [], hsize = 32, hcount = 0\<rparr> ''users'' (7::nat) [] = (CORM_OK, ht', m') \<and>
     corm_hash_find ht' ''users'' = Some 7 \<and> hcount ht' = 1"
proof -
  let ?h = "\<lparr>buckets = replicate 32 [], hsize = 32, hcount = 0\<rparr> :: nat corm_hash_t"
  obtain err ht' m' where a: "corm_hash_insert ?h ''users'' 7 [] = (err, ht', m')" by (metis prod_cases3)
  have wf: "hash_wf ?h" by (simp add: hash_init_spec(1))
  have "err = CORM_OK" using hash_insert_no_failure(1) [of ?h "''users''" 7] a by simp
  with hash_insert_find [OF wf a] a show ?thesis by auto
qed

text \<open>Removal undoes the latest insertion: after inserting and removing a key every lookup is
  as before, so a shadowed binding reappears; removing a key never disturbs another one.\<close>

theorem hash_remove_unshadows:
  assumes "hash_wf ht"
  shows "corm_hash_find (corm_hash_remove (hash_put ht key v) key) k = corm_hash_find ht k \<and>
    (k \<noteq> key \<longrightarrow> corm_hash_find (corm_hash_remove ht key) k = corm_hash_find ht k)"
  using htab.get_del_put [OF assms] htab.get_del_other [OF assms] by blast

theorem hash_remove_unshadows_witness:
  "corm_hash_find (corm_hash_remove (hash_put (\<lparr>buckets = replicate 32 [], hsize = 32, hcount = 0\<rparr> :: nat corm_hash_t) ''a'' 7) ''a'') ''a''
     = corm_hash_find (\<lparr>buckets = replicate 32 [], hsize = 32, hcount = 0\<rparr> :: nat corm_hash_t) ''a''"
  using hash_remove_unshadows [of "\<lparr>buckets = replicate 32 [], hsize = 32, hcount = 0\<rparr>" "''a''" 7 "''a''"]
  by (simp add: hash_init_spec(1))

text \<open>Freeing a well-formed table releases exactly one key per entry that was counted: the
  chains are walked completely and no entry is leaked.\<close>

theorem hash_free_releases_all:
  assumes "hash_wf ht"
  shows "length (snd (corm_hash_free ht)) = hcount ht \<and> set (snd (corm_hash_free ht)) = {k. hash_vals ht k \<noteq> []}"
proof -
  from assms have "take (hsize ht) (buckets ht) = buckets ht" by (simp add: hash_wf_def)
  moreover have "length (concat (map (map fst) (buckets ht))) = hcount ht"
    using assms by (simp add: hash_wf_def length_concat comp_def)
  moreover have "set (concat (map (map fst) (buckets ht))) = {k. hash_vals ht k \<noteq> []}"
    by (fastforce simp: hash_vals_def filter_empty_conv)
  ultimately show ?thesis by (simp add: corm_hash_free_def)
qed

theorem hash_free_releases_all_witness:
  "length (snd (corm_hash_free (hash_put (\<lparr>buckets = replicate 32 [], hsize = 32, hcount = 0\<rparr> :: nat corm_hash_t) ''a'' 1))) = 1"
proof -
  let ?h = "\<lparr>buckets = replicate 32 [], hsize = 32, hcount = 0\<rparr> :: nat corm_hash_t"
  have wf: "hash_wf ?h" by (simp add: hash_init_spec(1))
  have "hcount (hash_put ?h ''a'' 1) = 1"
    by (simp add: hash_put_def corm_hash_insert_def Let_def)
  with hash_free_releases_all [OF hash_put_spec(1) [OF wf, of "''a''" 1]] show ?thesis by simp
qed

end
