(* ===== verification/Struct_Access.thy ===== *)
theory Struct_Access
  imports Corm_Prelude
begin

text \<open>
  Runtime values (\<^verbatim>\<open>include/corm/types.h\<close>), field descriptors
  (\<^verbatim>\<open>include/corm/model.h\<close>) and the two functions of
  \<^verbatim>\<open>src/model.c\<close> that move values in and out of a C struct,
  \<^verbatim>\<open>corm_field_get_value\<close> and \<^verbatim>\<open>corm_field_set_value\<close>, at the level of the
  bytes of the struct (little-endian, 4-byte \<^verbatim>\<open>int\<close>, 8-byte pointers). A
  \<^verbatim>\<open>float\<close> is its IEEE 754 binary32 pattern and a \<^verbatim>\<open>double\<close> its binary64
  pattern, converted with rounding to nearest even. Reads outside the struct, through a dangling
  pointer, or of a union member the model does not follow give \<open>None\<close>.
\<close>

unbundle bit_operations_syntax

section \<open>Values\<close>

type_synonym byte = "8 word"

text \<open>The union of \<^verbatim>\<open>corm_value_t\<close>: the member last written, with the content
  behind a pointer; \<open>VZero\<close> is the zero-filled union \<^verbatim>\<open>calloc\<close> leaves.\<close>

datatype corm_union =
    VZero
  | VI "64 word"
  | VF "64 word"
  | VS "string option"
  | VBlob "byte list option" nat
  | VB bool

record corm_value_t =
  vtype :: corm_field_type_t
  is_null :: bool
  uval :: corm_union

text \<open>Reading a member. Integers and doubles share their eight bytes; a \<^verbatim>\<open>bool\<close>
  is the lowest of them and must be 0 or 1.\<close>

fun v_i :: "corm_union \<Rightarrow> 64 word option" where
  "v_i VZero = Some 0"
| "v_i (VI w) = Some w"
| "v_i (VF w) = Some w"
| "v_i _ = None"

fun v_f :: "corm_union \<Rightarrow> 64 word option" where
  "v_f VZero = Some 0"
| "v_f (VI w) = Some w"
| "v_f (VF w) = Some w"
| "v_f _ = None"

fun v_s :: "corm_union \<Rightarrow> string option option" where
  "v_s VZero = Some None"
| "v_s (VS s) = Some s"
| "v_s _ = None"

fun v_blob :: "corm_union \<Rightarrow> (byte list option \<times> nat) option" where
  "v_blob VZero = Some (None, 0)"
| "v_blob (VBlob d n) = Some (d, n)"
| "v_blob _ = None"

definition low_bool :: "64 word \<Rightarrow> bool option" where
  "low_bool w =
     (let b = take_bit 8 w in if b = 0 then Some False else if b = 1 then Some True else None)"

fun v_b :: "corm_union \<Rightarrow> bool option" where
  "v_b VZero = Some False"
| "v_b (VB b) = Some b"
| "v_b (VI w) = low_bool w"
| "v_b (VF w) = low_bool w"
| "v_b _ = None"

section \<open>Field descriptors\<close>

text \<open>\<^verbatim>\<open>flags\<close> is the bit mask of \<^verbatim>\<open>CORM_FLAG_*\<close>.\<close>

record corm_field_t =
  fname :: "string option"
  ftype :: corm_field_type_t
  foffset :: nat
  fsize :: nat
  fflags :: "32 word"
  default_value :: "string option"
  fk_ref :: "string option"

definition CORM_FLAG_PRIMARY :: "32 word" where "CORM_FLAG_PRIMARY = 1"
definition CORM_FLAG_AUTOINC :: "32 word" where "CORM_FLAG_AUTOINC = 2"
definition CORM_FLAG_NOT_NULL :: "32 word" where "CORM_FLAG_NOT_NULL = 4"
definition CORM_FLAG_UNIQUE :: "32 word" where "CORM_FLAG_UNIQUE = 8"
definition CORM_FLAG_SOFT_DELETE :: "32 word" where "CORM_FLAG_SOFT_DELETE = 16"
definition CORM_FLAG_INDEX :: "32 word" where "CORM_FLAG_INDEX = 32"

definition has_flag :: "corm_field_t \<Rightarrow> 32 word \<Rightarrow> bool" where
  "has_flag f fl \<longleftrightarrow> fflags f AND fl \<noteq> 0"

text \<open>The sources dereference field names without a check after validation; a NULL name is read
  as the empty string here and excluded by the validity of a model.\<close>

definition field_name :: "corm_field_t \<Rightarrow> string" where
  "field_name f = (case fname f of None \<Rightarrow> [] | Some n \<Rightarrow> n)"

section \<open>Bytes\<close>

fun le_bytes :: "nat \<Rightarrow> 64 word \<Rightarrow> byte list" where
  "le_bytes 0 w = []"
| "le_bytes (Suc n) w = ucast w # le_bytes n (drop_bit 8 w)"

fun le_word :: "byte list \<Rightarrow> 64 word" where
  "le_word [] = 0"
| "le_word (b # bs) = ucast b OR push_bit 8 (le_word bs)"

text \<open>Loads and stores of \<open>n\<close> bytes at an offset; \<open>None\<close> outside the object.\<close>

definition load_bytes :: "byte list \<Rightarrow> nat \<Rightarrow> nat \<Rightarrow> byte list option" where
  "load_bytes bs off n = (if off + n \<le> length bs then Some (take n (drop off bs)) else None)"

definition store_bytes :: "byte list \<Rightarrow> nat \<Rightarrow> byte list \<Rightarrow> byte list option" where
  "store_bytes bs off xs =
     (if off + length xs \<le> length bs then Some (take off bs @ xs @ drop (off + length xs) bs) else None)"

definition byte_of_char :: "char \<Rightarrow> byte" where
  "byte_of_char c = word_of_nat (of_char c)"

definition char_of_byte :: "byte \<Rightarrow> char" where
  "char_of_byte b = char_of (unat b)"

lemma unat_byte_of_char [simp]: "unat (byte_of_char c) = of_char c"
  by (simp add: byte_of_char_def unat_of_nat)

lemma char_of_byte_of_char [simp]: "char_of_byte (byte_of_char c) = c"
  by (simp add: char_of_byte_def)

lemma unat_lt_8: "unat (b :: byte) < 2 ^ 8"
  using unsigned_less [of b] by simp

lemma unat_lt_32: "unat (x :: 32 word) < 2 ^ 32"
  using unsigned_less [of x] by simp

lemma char_of_byte_NUL [simp]: "char_of_byte b = NUL \<longleftrightarrow> b = 0"
proof -
  have "char_of_byte b = NUL \<longleftrightarrow> of_char (char_of_byte b) = (0::nat)"
    by (simp flip: of_char_eq_iff [where 'a = nat])
  also have "\<dots> \<longleftrightarrow> unat b mod 256 = 0" by (simp add: char_of_byte_def)
  also have "\<dots> \<longleftrightarrow> b = 0" using unat_lt_8 [of b] by (simp add: unat_eq_zero)
  finally show ?thesis .
qed

lemma byte_of_char_0 [simp]: "byte_of_char c = 0 \<longleftrightarrow> c = NUL"
  by (metis char_of_byte_NUL char_of_byte_of_char)

lemma length_le_bytes [simp]: "length (le_bytes n w) = n"
  by (induction n w rule: le_bytes.induct) auto

lemma le_word_le_bytes: "n \<le> 8 \<Longrightarrow> le_word (le_bytes n w) = take_bit (8 * n) w"
proof (induction n w rule: le_bytes.induct)
  case (2 n w)
  then have "le_word (le_bytes n (drop_bit 8 w)) = take_bit (8 * n) (drop_bit 8 w)" by simp
  moreover have "ucast (ucast w :: byte) OR push_bit 8 (take_bit (8 * n) (drop_bit 8 w)) = take_bit (8 * Suc n) w"
    by (rule bit_word_eqI) (auto simp: bit_simps)
  ultimately show ?case by simp
qed simp

lemma le_word_le_bytes_8 [simp]: "le_word (le_bytes 8 w) = w"
  using le_word_le_bytes [of 8 w] by (simp add: take_bit_word_eq_self)

lemma load_store:
  "store_bytes bs off xs = Some bs' \<Longrightarrow> load_bytes bs' off (length xs) = Some xs"
  by (auto simp: store_bytes_def load_bytes_def split: if_splits)

lemma length_store: "store_bytes bs off xs = Some bs' \<Longrightarrow> length bs' = length bs"
  by (auto simp: store_bytes_def split: if_splits)

lemma store_in: "off + length xs \<le> length bs \<Longrightarrow> \<exists>bs'. store_bytes bs off xs = Some bs'"
  by (simp add: store_bytes_def)

lemma nth_store:
  "store_bytes bs off xs = Some bs' \<Longrightarrow> i < off \<or> off + length xs \<le> i \<Longrightarrow> i < length bs \<Longrightarrow> bs' ! i = bs ! i"
  by (auto simp: store_bytes_def nth_append split: if_splits)

lemma load_frame:
  assumes "store_bytes bs off xs = Some bs'" and "off' + n \<le> off \<or> off + length xs \<le> off'"
  shows "load_bytes bs' off' n = load_bytes bs off' n"
proof -
  have "take n (drop off' bs') = take n (drop off' bs)" if "off' + n \<le> length bs"
    by (rule nth_equalityI) (use that assms nth_store [OF assms(1)] length_store [OF assms(1)] in auto)
  then show ?thesis using length_store [OF assms(1)] by (auto simp: load_bytes_def)
qed

section \<open>Floating-point conversions\<close>

text \<open>\<^verbatim>\<open>(double)x\<close> for a \<^verbatim>\<open>float\<close>, on bit patterns: sign, biased exponent and fraction.
  The conversion is exact; a subnormal is normalised and a NaN made quiet.\<close>

fun log2_floor :: "nat \<Rightarrow> nat" where
  "log2_floor n = (if n < 2 then 0 else Suc (log2_floor (n div 2)))"

declare log2_floor.simps [simp del]

definition f2d_nat :: "nat \<Rightarrow> nat" where
  "f2d_nat w =
     (let s = w div 2 ^ 31; e = w div 2 ^ 23 mod 2 ^ 8; f = w mod 2 ^ 23;
          r = (if e = 255 then 2047 * 2 ^ 52 + (if f = 0 then 0 else 2 ^ 51 + f mod 2 ^ 22 * 2 ^ 29)
               else if e = 0 then
                 (if f = 0 then 0
                  else let k = log2_floor f in (k + 874) * 2 ^ 52 + (f - 2 ^ k) * 2 ^ (52 - k))
               else (e + 896) * 2 ^ 52 + f * 2 ^ 29)
      in s * 2 ^ 63 + r)"

text \<open>\<^verbatim>\<open>(float)x\<close> for a \<^verbatim>\<open>double\<close>: the significand is shifted to 24 bits (fewer below the
  normal range) and rounded to nearest, ties to even; the carry of the rounding runs into the
  exponent, and what exceeds the range is an infinity.\<close>

definition round_shift :: "nat \<Rightarrow> nat \<Rightarrow> nat" where
  "round_shift x n =
     (let q = x div 2 ^ n; r = x mod 2 ^ n in
      if r * 2 > 2 ^ n \<or> r * 2 = 2 ^ n \<and> odd q then q + 1 else q)"

definition d2f_nat :: "nat \<Rightarrow> nat" where
  "d2f_nat w =
     (let s = w div 2 ^ 63; e = w div 2 ^ 52 mod 2 ^ 11; f = w mod 2 ^ 52;
          r = (if e = 2047 then 255 * 2 ^ 23 + (if f = 0 then 0 else 2 ^ 22 + f div 2 ^ 29 mod 2 ^ 22)
               else if e < 872 then 0
               else if e < 897 then round_shift (2 ^ 52 + f) (29 + (897 - e))
               else min (255 * 2 ^ 23) ((e - 897) * 2 ^ 23 + round_shift (2 ^ 52 + f) 29))
      in s * 2 ^ 31 + r)"

definition f2d :: "32 word \<Rightarrow> 64 word" where
  "f2d x = word_of_nat (f2d_nat (unat x))"

definition d2f :: "64 word \<Rightarrow> 32 word" where
  "d2f x = word_of_nat (d2f_nat (unat x))"

definition float_nan :: "32 word \<Rightarrow> bool" where
  "float_nan x \<longleftrightarrow> unat x div 2 ^ 23 mod 2 ^ 8 = 255 \<and> unat x mod 2 ^ 23 \<noteq> 0"

text \<open>Reading the three parts of an assembled pattern.\<close>

lemma parts:
  fixes s e f :: nat
  assumes "f < b" and "e < a"
  shows "(s * (a * b) + e * b + f) div (a * b) = s" and "(s * (a * b) + e * b + f) div b mod a = e"
    and "(s * (a * b) + e * b + f) mod b = f"
proof -
  from assms have b: "0 < b" by simp
  have "s * (a * b) + e * b + f = (s * a + e) * b + f" by (simp add: algebra_simps)
  moreover from assms(1) have "((s * a + e) * b + f) div b = s * a + e" "((s * a + e) * b + f) mod b = f"
    using b by simp_all
  ultimately have d: "(s * (a * b) + e * b + f) div b = s * a + e" and m: "(s * (a * b) + e * b + f) mod b = f"
    by simp_all
  from m show "(s * (a * b) + e * b + f) mod b = f" .
  from d assms(2) show "(s * (a * b) + e * b + f) div b mod a = e" by simp
  have "(s * (a * b) + e * b + f) div (a * b) = (s * a + e) div a"
    using d by (metis div_mult2_eq mult.commute)
  with assms(2) show "(s * (a * b) + e * b + f) div (a * b) = s" by simp
qed

lemmas float_parts = parts [where b = "2 ^ 23" and a = "2 ^ 8", simplified]
lemmas double_parts = parts [where b = "2 ^ 52" and a = "2 ^ 11", simplified]

lemma log2_floor_bounds: "0 < n \<Longrightarrow> 2 ^ log2_floor n \<le> n \<and> n < 2 * 2 ^ log2_floor n"
proof (induction n rule: log2_floor.induct)
  case (1 n)
  then show ?case by (cases "n < 2") (auto simp: log2_floor.simps [of n])
qed

lemma round_shift_exact: "round_shift (q * 2 ^ n) n = q"
  by (simp add: round_shift_def)

lemma f2d_normal:
  assumes "0 < e" and "e < 255" and "f < 2 ^ 23"
  shows "d2f_nat (f2d_nat (s * 2 ^ 31 + e * 2 ^ 23 + f)) = s * 2 ^ 31 + e * 2 ^ 23 + f"
proof -
  have F: "f * 2 ^ 29 < 2 ^ 52" and E: "e + 896 < 2 ^ 11" using assms by simp_all
  have "f2d_nat (s * 2 ^ 31 + e * 2 ^ 23 + f) = s * 2 ^ 63 + (e + 896) * 2 ^ 52 + f * 2 ^ 29"
    using assms float_parts [of f e s] by (simp add: f2d_nat_def Let_def)
  moreover have "round_shift (2 ^ 52 + f * 2 ^ 29) 29 = 2 ^ 23 + f"
    using round_shift_exact [of "2 ^ 23 + f" 29] by (simp add: algebra_simps)
  ultimately show ?thesis
    using assms double_parts [of "f * 2 ^ 29" "e + 896" s] F E
    by (simp add: d2f_nat_def Let_def)
qed

lemma f2d_subnormal_form:
  assumes "0 < f" and "f < 2 ^ 23"
  obtains k F where "k < 23" "F < 2 ^ 52" "2 ^ 52 + F = f * 2 ^ (52 - k)"
    "f2d_nat (s * 2 ^ 31 + f) = s * 2 ^ 63 + (k + 874) * 2 ^ 52 + F"
proof
  define k where "k = log2_floor f"
  define F where "F = (f - 2 ^ k) * 2 ^ (52 - k)"
  have k: "2 ^ k \<le> f" "f < 2 * 2 ^ k" using log2_floor_bounds [OF assms(1)] by (simp_all add: k_def)
  have "(2::nat) ^ k < 2 ^ 23" using k(1) assms(2) by simp
  then show k23: "k < 23" using power_less_imp_less_exp [of "2::nat" k 23] by simp
  have "(f - 2 ^ k) * 2 ^ (52 - k) < 2 ^ k * 2 ^ (52 - k)" using k by (intro mult_strict_right_mono) auto
  also have "\<dots> = 2 ^ 52" using k23 by (simp flip: power_add)
  finally show "F < 2 ^ 52" by (simp add: F_def)
  have "2 ^ 52 = 2 ^ k * (2::nat) ^ (52 - k)" using k23 by (simp flip: power_add)
  then have "2 ^ 52 + F = (2 ^ k + (f - 2 ^ k)) * 2 ^ (52 - k)" by (simp only: F_def add_mult_distrib)
  with k(1) show "2 ^ 52 + F = f * 2 ^ (52 - k)" by simp
  show "f2d_nat (s * 2 ^ 31 + f) = s * 2 ^ 63 + (k + 874) * 2 ^ 52 + F"
    using assms float_parts [of f 0 s] by (simp add: f2d_nat_def Let_def k_def F_def)
qed

lemma f2d_subnormal:
  assumes "0 < f" and "f < 2 ^ 23"
  shows "d2f_nat (f2d_nat (s * 2 ^ 31 + f)) = s * 2 ^ 31 + f"
proof -
  obtain k F where k: "k < 23" "F < 2 ^ 52" "2 ^ 52 + F = f * 2 ^ (52 - k)"
    "f2d_nat (s * 2 ^ 31 + f) = s * 2 ^ 63 + (k + 874) * 2 ^ 52 + F"
    by (rule f2d_subnormal_form [OF assms])
  moreover have "29 + (897 - (k + 874)) = 52 - k" using k(1) by simp
  ultimately show ?thesis
    using double_parts [OF k(2) [simplified], of "k + 874" s] round_shift_exact [of f "52 - k"]
    by (simp add: d2f_nat_def Let_def)
qed

lemma float_cases:
  assumes "w < (2::nat) ^ 32"
  obtains s e f where "w = s * 2 ^ 31 + e * 2 ^ 23 + f" "s < 2" "e < 2 ^ 8" "f < 2 ^ 23"
    "s = w div 2 ^ 31" "e = w div 2 ^ 23 mod 2 ^ 8" "f = w mod 2 ^ 23"
proof
  have "w = w div 2 ^ 23 * 2 ^ 23 + w mod 2 ^ 23" by (simp only: div_mult_mod_eq)
  also have "w div 2 ^ 23 = w div 2 ^ 23 div 2 ^ 8 * 2 ^ 8 + w div 2 ^ 23 mod 2 ^ 8"
    by (simp only: div_mult_mod_eq)
  also have "w div 2 ^ 23 div 2 ^ 8 = w div 2 ^ 31" by (simp flip: div_mult2_eq)
  finally show "w = w div 2 ^ 31 * 2 ^ 31 + (w div 2 ^ 23 mod 2 ^ 8) * 2 ^ 23 + w mod 2 ^ 23"
    by (simp add: add_mult_distrib)
qed (use assms in auto)

lemma f2d_nat_bound:
  assumes "w < 2 ^ 32"
  shows "f2d_nat w < 2 ^ 64"
proof -
  obtain s e f where w: "w = s * 2 ^ 31 + e * 2 ^ 23 + f" "s < 2" "e < 2 ^ 8" "f < 2 ^ 23"
    by (rule float_cases [OF assms])
  show ?thesis
  proof (cases "e = 0 \<and> 0 < f")
    case True
    with w have f: "0 < f" "f < 2 ^ 23" and ws: "w = s * 2 ^ 31 + f" by auto
    obtain k F where "k < 23" "F < 2 ^ 52" "f2d_nat w = s * 2 ^ 63 + (k + 874) * 2 ^ 52 + F"
      using f2d_subnormal_form [OF f, of s] unfolding ws by metis
    with w(2) show ?thesis by simp
  next
    case False
    moreover have "f mod 2 ^ 22 < 2 ^ 22" by simp
    ultimately show ?thesis
      using w float_parts [of f e s] by (auto simp: f2d_nat_def Let_def)
  qed
qed

lemma d2f_f2d_nat:
  assumes "w < 2 ^ 32" and "\<not> (w div 2 ^ 23 mod 2 ^ 8 = 255 \<and> w mod 2 ^ 23 \<noteq> 0)"
  shows "d2f_nat (f2d_nat w) = w"
proof -
  obtain s e f where w: "w = s * 2 ^ 31 + e * 2 ^ 23 + f" and e: "e < 2 ^ 8" and f: "f < 2 ^ 23"
    and nn: "\<not> (e = 255 \<and> f \<noteq> 0)"
    using float_cases [OF assms(1)] assms(2) by metis
  consider "e = 0" "f = 0" | "e = 0" "0 < f" | "0 < e" "e < 255" | "e = 255" "f = 0"
    using e nn by fastforce
  then show ?thesis
  proof cases
    case 1
    then show ?thesis using w float_parts [of 0 0 s] double_parts [of 0 0 s]
      by (simp add: f2d_nat_def d2f_nat_def Let_def)
  next
    case 2
    then show ?thesis using w f2d_subnormal [of f s] f by simp
  next
    case 3
    then show ?thesis using w f2d_normal [of e f s] f by simp
  next
    case 4
    then show ?thesis using w float_parts [of 0 255 s] double_parts [of 0 2047 s]
      by (simp add: f2d_nat_def d2f_nat_def Let_def)
  qed
qed

lemma d2f_f2d: "\<not> float_nan x \<Longrightarrow> d2f (f2d x) = x"
  using unat_lt_32 [of x] f2d_nat_bound [of "unat x"] d2f_f2d_nat [of "unat x"]
  by (simp add: d2f_def f2d_def float_nan_def unat_of_nat take_bit_eq_mod)

section \<open>Access to a struct\<close>

text \<open>A C struct: its bytes, and the heap its \<^verbatim>\<open>char *\<close> members point into.\<close>

record c_struct =
  sbytes :: "byte list"
  sheap :: "64 word \<rightharpoonup> string"

definition c_str_at :: "byte list \<Rightarrow> nat \<Rightarrow> string option" where
  "c_str_at bs off =
     (if 0 \<in> set (drop off bs) then Some (map char_of_byte (takeWhile (\<lambda>b. b \<noteq> 0) (drop off bs))) else None)"

definition mk_value :: "corm_field_type_t \<Rightarrow> corm_union \<Rightarrow> corm_value_t" where
  "mk_value t u = \<lparr>vtype = t, is_null = False, uval = u\<rparr>"

definition corm_field_get_value :: "c_struct \<Rightarrow> corm_field_t \<Rightarrow> corm_value_t option" where
  "corm_field_get_value rec f =
     map_option (mk_value (ftype f))
       (case ftype f of
          CORM_INT \<Rightarrow> map_option (\<lambda>bs. VI (signed_take_bit 31 (le_word bs))) (load_bytes (sbytes rec) (foffset f) 4)
        | CORM_INT64 \<Rightarrow> map_option (\<lambda>bs. VI (le_word bs)) (load_bytes (sbytes rec) (foffset f) 8)
        | CORM_FLOAT \<Rightarrow> map_option (\<lambda>bs. VF (f2d (ucast (le_word bs)))) (load_bytes (sbytes rec) (foffset f) 4)
        | CORM_DOUBLE \<Rightarrow> map_option (\<lambda>bs. VF (le_word bs)) (load_bytes (sbytes rec) (foffset f) 8)
        | CORM_STRING \<Rightarrow> map_option (\<lambda>s. VS (Some s)) (c_str_at (sbytes rec) (foffset f))
        | CORM_TEXT \<Rightarrow>
            (case load_bytes (sbytes rec) (foffset f) 8 of
               None \<Rightarrow> None
             | Some bs \<Rightarrow>
                 if le_word bs = 0 then Some (VS None)
                 else map_option (\<lambda>s. VS (Some s)) (sheap rec (le_word bs)))
        | CORM_BOOL \<Rightarrow>
            (case load_bytes (sbytes rec) (foffset f) 1 of
               None \<Rightarrow> None
             | Some bs \<Rightarrow> map_option VB (low_bool (le_word bs)))
        | CORM_BLOB \<Rightarrow> map_option (\<lambda>bs. VBlob (Some bs) (fsize f)) (load_bytes (sbytes rec) (foffset f) (fsize f)))"

definition put_bytes :: "c_struct \<Rightarrow> corm_field_t \<Rightarrow> byte list \<Rightarrow> c_struct option" where
  "put_bytes rec f bs = map_option (\<lambda>b. rec\<lparr>sbytes := b\<rparr>) (store_bytes (sbytes rec) (foffset f) bs)"

text \<open>\<^verbatim>\<open>strncpy(ptr, s, n - 1); ptr[n - 1] = 0\<close> writes all \<open>n\<close> bytes.\<close>

definition string_image :: "string \<Rightarrow> nat \<Rightarrow> byte list" where
  "string_image s n =
     map byte_of_char (take (n - 1) s) @ replicate (n - 1 - length s) 0 @ [0]"

text \<open>\<open>p\<close> is the address \<^verbatim>\<open>strdup\<close> returns, 0 when memory is short.\<close>

definition corm_field_set_value :: "c_struct \<Rightarrow> corm_field_t \<Rightarrow> corm_value_t \<Rightarrow> 64 word \<Rightarrow> c_struct option" where
  "corm_field_set_value rec f val p =
     (case ftype f of
        CORM_INT \<Rightarrow> Option.bind (v_i (uval val)) (\<lambda>w. put_bytes rec f (le_bytes 4 w))
      | CORM_INT64 \<Rightarrow> Option.bind (v_i (uval val)) (\<lambda>w. put_bytes rec f (le_bytes 8 w))
      | CORM_FLOAT \<Rightarrow> Option.bind (v_f (uval val)) (\<lambda>w. put_bytes rec f (le_bytes 4 (ucast (d2f w))))
      | CORM_DOUBLE \<Rightarrow> Option.bind (v_f (uval val)) (\<lambda>w. put_bytes rec f (le_bytes 8 w))
      | CORM_STRING \<Rightarrow>
          Option.bind (v_s (uval val)) (\<lambda>s.
            case s of
              None \<Rightarrow> Some rec
            | Some str \<Rightarrow> if fsize f > 0 then put_bytes rec f (string_image str (fsize f)) else Some rec)
      | CORM_TEXT \<Rightarrow>
          Option.bind (v_s (uval val)) (\<lambda>s.
          Option.bind (load_bytes (sbytes rec) (foffset f) 8) (\<lambda>bs.
            let old = le_word bs;
                new = (if s = None then 0 else p);
                h1 = (if new = 0 then sheap rec else (sheap rec)(new := s))
            in if old \<noteq> 0 \<and> h1 old = None then None
               else put_bytes (rec\<lparr>sheap := (if old = 0 then h1 else h1(old := None))\<rparr>) f (le_bytes 8 new)))
      | CORM_BOOL \<Rightarrow> Option.bind (v_b (uval val)) (\<lambda>b. put_bytes rec f [if b then 1 else 0])
      | CORM_BLOB \<Rightarrow>
          Option.bind (v_blob (uval val)) (\<lambda>(d, len).
            case d of
              None \<Rightarrow> Some rec
            | Some bs \<Rightarrow>
                if len \<le> fsize f then
                  (if len \<le> length bs then put_bytes rec f (take len bs) else None)
                else Some rec))"

section \<open>Correctness of the accessors\<close>

definition width :: "corm_field_t \<Rightarrow> nat" where
  "width f = (case ftype f of CORM_INT \<Rightarrow> 4 | CORM_INT64 \<Rightarrow> 8 | CORM_FLOAT \<Rightarrow> 4 | CORM_DOUBLE \<Rightarrow> 8
     | CORM_STRING \<Rightarrow> fsize f | CORM_TEXT \<Rightarrow> 8 | CORM_BLOB \<Rightarrow> fsize f | CORM_BOOL \<Rightarrow> 1)"

definition fits :: "c_struct \<Rightarrow> corm_field_t \<Rightarrow> bool" where
  "fits rec f \<longleftrightarrow> foffset f + width f \<le> length (sbytes rec) \<and> 0 < width f"

text \<open>The pointer a \<^verbatim>\<open>CORM_TEXT\<close> member holds.\<close>

definition text_ptr :: "c_struct \<Rightarrow> corm_field_t \<Rightarrow> 64 word" where
  "text_ptr rec f = le_word (take 8 (drop (foffset f) (sbytes rec)))"

definition text_live :: "c_struct \<Rightarrow> corm_field_t \<Rightarrow> bool" where
  "text_live rec f \<longleftrightarrow> ftype f = CORM_TEXT \<longrightarrow> text_ptr rec f = 0 \<or> sheap rec (text_ptr rec f) \<noteq> None"

text \<open>The union holds a value of the field's type, or one that reads as such: the zero bytes of a NULL
  cell as a number, a false \<^verbatim>\<open>bool\<close> or a null pointer, and the integer 0 or 1 as a
  \<^verbatim>\<open>bool\<close>, which is how SQLite and MySQL deliver it.\<close>

fun value_for :: "corm_field_t \<Rightarrow> corm_union \<Rightarrow> bool" where
  "value_for f (VI w) = (ftype f = CORM_INT \<or> ftype f = CORM_INT64 \<or> ftype f = CORM_BOOL \<and> low_bool w \<noteq> None)"
| "value_for f (VF w) = (ftype f = CORM_FLOAT \<or> ftype f = CORM_DOUBLE)"
| "value_for f (VS None) = (ftype f = CORM_TEXT)"
| "value_for f (VS (Some s)) = (cstring s \<and> (ftype f = CORM_STRING \<or> ftype f = CORM_TEXT))"
| "value_for f (VBlob (Some bs) n) = (ftype f = CORM_BLOB \<and> length bs = n \<and> n = fsize f)"
| "value_for f (VB b) = (ftype f = CORM_BOOL)"
| "value_for f VZero = (ftype f \<noteq> CORM_STRING \<and> ftype f \<noteq> CORM_BLOB)"
| "value_for f _ = False"

text \<open>What a field of that type keeps of it: the low 32 bits, single precision, the characters
  that fit before the terminator.\<close>

fun kept :: "corm_field_t \<Rightarrow> corm_union \<Rightarrow> corm_union" where
  "kept f (VI w) =
     (if ftype f = CORM_BOOL then VB (low_bool w = Some True) else VI (if ftype f = CORM_INT then signed_take_bit 31 w else w))"
| "kept f (VF w) = VF (if ftype f = CORM_FLOAT then f2d (d2f w) else w)"
| "kept f (VS (Some s)) = VS (Some (if ftype f = CORM_STRING then take (fsize f - 1) s else s))"
| "kept f VZero = (case ftype f of CORM_INT \<Rightarrow> VI 0 | CORM_INT64 \<Rightarrow> VI 0 | CORM_FLOAT \<Rightarrow> VF 0 | CORM_DOUBLE \<Rightarrow> VF 0
     | CORM_BOOL \<Rightarrow> VB False | _ \<Rightarrow> VS None)"
| "kept f u = u"

lemma put_bytes_load:
  assumes "fits rec f" and "length bs = width f"
  obtains rec' where "put_bytes rec f bs = Some rec'" and "load_bytes (sbytes rec') (foffset f) (width f) = Some bs"
    and "length (sbytes rec') = length (sbytes rec)" and "sheap rec' = sheap rec"
proof -
  from assms obtain b where b: "store_bytes (sbytes rec) (foffset f) bs = Some b"
    using store_in [of "foffset f" bs "sbytes rec"] by (auto simp: fits_def)
  show ?thesis
    using that [of "rec\<lparr>sbytes := b\<rparr>"] b load_store [OF b] length_store [OF b] assms(2)
    by (simp add: put_bytes_def)
qed

lemma low_bool_le_word [simp]: "low_bool (le_word [if b then 1 else 0]) = Some b"
  by (cases b) (simp_all add: low_bool_def)

lemma takeWhile_stop: "(\<forall>x\<in>set xs. P x) \<Longrightarrow> \<not> P y \<Longrightarrow> takeWhile P (xs @ y # ys) = xs"
  by (induction xs) auto

lemma c_str_at_load:
  assumes "load_bytes bs off (length xs + 1 + n) = Some (xs @ 0 # ys)" and "0 \<notin> set xs"
  shows "c_str_at bs off = Some (map char_of_byte xs)"
proof -
  from assms(1) have l: "take (length xs + 1 + n) (drop off bs) = xs @ 0 # ys"
    by (auto simp: load_bytes_def split: if_splits)
  then have "drop off bs = xs @ 0 # ys @ drop (length xs + 1 + n) (drop off bs)"
    by (metis append.assoc append_Cons append_take_drop_id)
  moreover have "takeWhile (\<lambda>b. b \<noteq> 0) (xs @ 0 # zs) = xs" for zs :: "byte list"
    using assms(2) by (intro takeWhile_stop) auto
  ultimately show ?thesis by (metis c_str_at_def in_set_conv_decomp)
qed

lemma c_str_at_image:
  assumes "load_bytes bs off n = Some (string_image s n)" and "cstring s" and "0 < n"
  shows "c_str_at bs off = Some (take (n - 1) s)"
proof -
  let ?xs = "map byte_of_char (take (n - 1) s)"
  obtain ys where ys: "string_image s n = ?xs @ 0 # ys" and len: "length ?xs + 1 + length ys = n"
  proof (cases "n - 1 - length s")
    case 0
    with assms(3) have "min (length s) (n - 1) = n - 1" by simp
    with 0 assms(3) that [of "[]"] show ?thesis by (simp add: string_image_def)
  next
    case (Suc k)
    with assms(3) that [of "replicate k 0 @ [0]"] show ?thesis by (simp add: string_image_def min_def)
  qed
  have "0 \<notin> set ?xs" using assms(2) by (auto simp: cstring_def dest: in_set_takeD)
  with assms(1) ys len c_str_at_load [of bs off ?xs "length ys" ys] show ?thesis
    by (simp add: comp_def)
qed

lemma length_string_image: "0 < n \<Longrightarrow> length (string_image s n) = n"
  by (simp add: string_image_def)

lemma sext_int [simp]: "signed_take_bit 31 (le_word (le_bytes 4 w)) = signed_take_bit 31 w"
  using le_word_le_bytes [of 4 w] by (simp add: signed_take_bit_take_bit)

lemma float_bytes [simp]: "ucast (le_word (le_bytes 4 (ucast (x :: 32 word)))) = x"
  using le_word_le_bytes [of 4 "ucast x"] by (auto simp: bit_simps intro: bit_word_eqI)

text \<open>Writing the bytes of a member of fixed width and reading it back.\<close>

lemma set_get_by_bytes:
  assumes "fits rec f" and "length bs = width f"
    and "\<And>rec'. load_bytes (sbytes rec') (foffset f) (width f) = Some bs \<Longrightarrow> sheap rec' = sheap rec \<Longrightarrow>
           corm_field_get_value rec' f = Some val'"
  shows "\<exists>rec'. put_bytes rec f bs = Some rec' \<and> corm_field_get_value rec' f = Some val' \<and>
    length (sbytes rec') = length (sbytes rec)"
  using put_bytes_load [OF assms(1,2)] assms(3) by metis

lemma float_zero [simp]: "f2d (d2f 0) = 0"
  by (simp add: f2d_def d2f_def f2d_nat_def d2f_nat_def)

lemma mk_value_sel [simp]: "uval (mk_value t u) = u" "vtype (mk_value t u) = t" "is_null (mk_value t u) = False"
  by (simp_all add: mk_value_def)

lemma set_get_integer:
  assumes fits: "fits rec f" and val: "value_for f (uval val)" and VI: "uval val = VI w"
  shows "\<exists>rec'. corm_field_set_value rec f val p = Some rec' \<and>
    corm_field_get_value rec' f = Some (mk_value (ftype f) (kept f (uval val))) \<and>
    length (sbytes rec') = length (sbytes rec)"
proof -
  from val VI consider "ftype f = CORM_INT" | "ftype f = CORM_INT64" | "ftype f = CORM_BOOL" "low_bool w \<noteq> None" by auto
  then show ?thesis
  proof cases
    case 3
    then obtain b where b: "low_bool w = Some b" by blast
    have "length [if b then 1 else 0 :: byte] = width f" by (simp add: width_def 3)
    from set_get_by_bytes [OF fits this, of "mk_value CORM_BOOL (VB b)"] 3 b VI show ?thesis
      by (simp add: corm_field_set_value_def corm_field_get_value_def width_def del: le_word.simps)
  next
    case 1
    have "length (le_bytes 4 w) = width f" by (simp only: width_def 1 length_le_bytes corm_field_type_t.case)
    from set_get_by_bytes [OF fits this, of "mk_value CORM_INT (VI (signed_take_bit 31 w))"] 1 VI show ?thesis
      by (simp add: corm_field_set_value_def corm_field_get_value_def width_def)
  next
    case 2
    have "length (le_bytes 8 w) = width f" by (simp only: width_def 2 length_le_bytes corm_field_type_t.case)
    from set_get_by_bytes [OF fits this, of "mk_value CORM_INT64 (VI w)"] 2 VI show ?thesis
      by (simp add: corm_field_set_value_def corm_field_get_value_def width_def)
  qed
qed

lemma set_get_floating:
  assumes fits: "fits rec f" and val: "value_for f (uval val)" and VF: "uval val = VF w"
  shows "\<exists>rec'. corm_field_set_value rec f val p = Some rec' \<and>
    corm_field_get_value rec' f = Some (mk_value (ftype f) (kept f (uval val))) \<and>
    length (sbytes rec') = length (sbytes rec)"
proof -
  from val VF consider "ftype f = CORM_FLOAT" | "ftype f = CORM_DOUBLE" by auto
  then show ?thesis
  proof cases
    case 1
    have "length (le_bytes 4 (ucast (d2f w))) = width f" by (simp only: width_def 1 length_le_bytes corm_field_type_t.case)
    from set_get_by_bytes [OF fits this, of "mk_value CORM_FLOAT (VF (f2d (d2f w)))"] 1 VF show ?thesis
      by (simp add: corm_field_set_value_def corm_field_get_value_def width_def)
  next
    case 2
    have "length (le_bytes 8 w) = width f" by (simp only: width_def 2 length_le_bytes corm_field_type_t.case)
    from set_get_by_bytes [OF fits this, of "mk_value CORM_DOUBLE (VF w)"] 2 VF show ?thesis
      by (simp add: corm_field_set_value_def corm_field_get_value_def width_def)
  qed
qed

lemma set_get_text:
  assumes fits: "fits rec f" and t: "ftype f = CORM_TEXT" and VS: "v_s (uval val) = Some s" "kept f (uval val) = VS s"
    and live: "text_live rec f"
    and p: "p \<noteq> 0" "sheap rec p = None"
  shows "\<exists>rec'. corm_field_set_value rec f val p = Some rec' \<and>
    corm_field_get_value rec' f = Some (mk_value (ftype f) (kept f (uval val))) \<and>
    length (sbytes rec') = length (sbytes rec)"
proof -
  define new where "new = (if s = None then 0 else p)"
  define h1 where "h1 = (if new = 0 then sheap rec else (sheap rec)(new := s))"
  define old where "old = text_ptr rec f"
  define h2 where "h2 = (if old = 0 then h1 else h1(old := None))"
  have ld: "load_bytes (sbytes rec) (foffset f) 8 = Some (take 8 (drop (foffset f) (sbytes rec)))"
    using fits t by (simp add: load_bytes_def fits_def width_def)
  have o1: "old = 0 \<or> h1 old \<noteq> None" using live t p by (auto simp: text_live_def old_def h1_def new_def)
  have set: "corm_field_set_value rec f val p = put_bytes (rec\<lparr>sheap := h2\<rparr>) f (le_bytes 8 new)"
    using t VS ld o1 by (auto simp: corm_field_set_value_def Let_def new_def h1_def h2_def old_def text_ptr_def)
  have fits': "fits (rec\<lparr>sheap := h2\<rparr>) f" using fits by (simp add: fits_def)
  have len: "length (le_bytes 8 new) = width f" by (simp only: width_def t length_le_bytes corm_field_type_t.case)
  have "s \<noteq> None \<Longrightarrow> h2 p = s" using o1 live t p by (auto simp: h2_def h1_def new_def text_live_def old_def)
  then have "corm_field_get_value rec' f = Some (mk_value (ftype f) (kept f (uval val)))"
    if "load_bytes (sbytes rec') (foffset f) (width f) = Some (le_bytes 8 new)" "sheap rec' = h2" for rec'
    using that t VS p by (cases s) (simp_all add: corm_field_get_value_def width_def new_def)
  from set_get_by_bytes [OF fits' len this] set show ?thesis by simp
qed

lemma set_get_flat:
  assumes fits: "fits rec f" and val: "value_for f (uval val)" and flat: "ftype f \<noteq> CORM_TEXT"
  shows "\<exists>rec'. corm_field_set_value rec f val p = Some rec' \<and>
    corm_field_get_value rec' f = Some (mk_value (ftype f) (kept f (uval val))) \<and>
    length (sbytes rec') = length (sbytes rec)"
proof (cases "uval val")
  case (VI w)
  with fits val show ?thesis by (rule set_get_integer)
next
  case (VF w)
  with fits val show ?thesis by (rule set_get_floating)
next
  case (VB b)
  with val have t: "ftype f = CORM_BOOL" by simp
  have "length [if b then 1 else 0 :: byte] = width f" by (simp add: width_def t)
  from set_get_by_bytes [OF fits this, of "mk_value CORM_BOOL (VB b)"] t VB show ?thesis
    by (simp add: corm_field_set_value_def corm_field_get_value_def width_def del: le_word.simps)
next
  case (VBlob d n)
  with val obtain bs where t: "ftype f = CORM_BLOB" "d = Some bs" "length bs = n" "n = fsize f"
    by (cases d) auto
  then have "length bs = width f" by (simp add: width_def)
  from set_get_by_bytes [OF fits this, of "mk_value CORM_BLOB (VBlob (Some bs) n)"] t VBlob show ?thesis
    by (simp add: corm_field_set_value_def corm_field_get_value_def width_def)
next
  case VZero
  with val flat consider "ftype f \<in> {CORM_INT, CORM_INT64}" | "ftype f \<in> {CORM_FLOAT, CORM_DOUBLE}" | "ftype f = CORM_BOOL"
    by (cases "ftype f") auto
  then show ?thesis
  proof cases
    case 1
    with set_get_integer [OF fits, of "mk_value CORM_INT (VI 0)" 0 p] VZero show ?thesis
      by (auto simp: corm_field_set_value_def)
  next
    case 2
    with set_get_floating [OF fits, of "mk_value CORM_FLOAT (VF 0)" 0 p] VZero show ?thesis
      by (auto simp: corm_field_set_value_def)
  next
    case 3
    with set_get_integer [OF fits, of "mk_value CORM_BOOL (VI 0)" 0 p] VZero show ?thesis
      by (auto simp: corm_field_set_value_def low_bool_def)
  qed
next
  case (VS s)
  with val flat obtain str where s: "ftype f = CORM_STRING" "s = Some str" "cstring str" by (cases s) auto
  from fits s have n: "0 < fsize f" by (simp add: fits_def width_def)
  then have "length (string_image str (fsize f)) = width f" by (simp add: width_def s length_string_image)
  from set_get_by_bytes [OF fits this, of "mk_value CORM_STRING (VS (Some (take (fsize f - 1) str)))"]
    VS s n c_str_at_image [of _ "foffset f" "fsize f" str] show ?thesis
    by (simp add: corm_field_set_value_def corm_field_get_value_def width_def)
qed

lemma set_get:
  assumes fits: "fits rec f" and val: "value_for f (uval val)" and live: "text_live rec f"
    and p: "p \<noteq> 0" "sheap rec p = None"
  shows "\<exists>rec'. corm_field_set_value rec f val p = Some rec' \<and>
    corm_field_get_value rec' f = Some (mk_value (ftype f) (kept f (uval val))) \<and>
    length (sbytes rec') = length (sbytes rec)"
proof (cases "ftype f = CORM_TEXT")
  case True
  with val obtain s where "v_s (uval val) = Some s" "kept f (uval val) = VS s"
    by (cases "uval val"; cases "case uval val of VS s \<Rightarrow> s | _ \<Rightarrow> None") (auto elim: value_for.elims)
  from set_get_text [OF fits True this live p] show ?thesis .
qed (rule set_get_flat [OF fits val])

text \<open>A member's value depends on its own bytes and, for a pointer, on the string it points to; a
  string member must be terminated inside its own buffer.\<close>

definition terminated :: "c_struct \<Rightarrow> corm_field_t \<Rightarrow> bool" where
  "terminated rec f \<longleftrightarrow> (ftype f = CORM_STRING \<longrightarrow> 0 \<in> set (take (fsize f) (drop (foffset f) (sbytes rec))))"

definition disjoint_fields :: "corm_field_t \<Rightarrow> corm_field_t \<Rightarrow> bool" where
  "disjoint_fields f g \<longleftrightarrow> foffset f + width f \<le> foffset g \<or> foffset g + width g \<le> foffset f"

lemma c_str_at_local:
  assumes "load_bytes bs off n = load_bytes bs' off n" and "0 \<in> set (take n (drop off bs))"
    and "off + n \<le> length bs" and "length bs' = length bs"
  shows "c_str_at bs' off = c_str_at bs off"
proof -
  have t: "take n (drop off bs') = take n (drop off bs)" using assms by (simp add: load_bytes_def)
  have "takeWhile (\<lambda>b. b \<noteq> 0) ys = takeWhile (\<lambda>b. b \<noteq> 0) (take n ys)" if "0 \<in> set (take n ys)" for ys :: "byte list"
    by (metis (mono_tags, lifting) append_take_drop_id takeWhile_append1 that)
  from this [of "drop off bs"] this [of "drop off bs'"] assms(2) t
  have "takeWhile (\<lambda>b. b \<noteq> 0) (drop off bs') = takeWhile (\<lambda>b. b \<noteq> 0) (drop off bs)" by simp
  moreover have "0 \<in> set (drop off bs)" "0 \<in> set (drop off bs')"
    using assms(2) in_set_takeD [of 0 n "drop off bs"] in_set_takeD [of 0 n "drop off bs'"] t by auto
  ultimately show ?thesis by (simp add: c_str_at_def)
qed

lemma get_local:
  assumes "load_bytes (sbytes rec) (foffset f) (width f) = load_bytes (sbytes rec') (foffset f) (width f)"
    and "fits rec f" and "terminated rec f" and "length (sbytes rec') = length (sbytes rec)"
    and "ftype f = CORM_TEXT \<longrightarrow> text_ptr rec f = 0 \<or> sheap rec' (text_ptr rec f) = sheap rec (text_ptr rec f)"
  shows "corm_field_get_value rec' f = corm_field_get_value rec f"
proof (cases "ftype f = CORM_STRING")
  case True
  with assms show ?thesis
    using c_str_at_local [of "sbytes rec" "foffset f" "fsize f" "sbytes rec'"]
    by (simp add: corm_field_get_value_def width_def terminated_def fits_def)
next
  case False
  with assms show ?thesis
    by (cases "ftype f") (auto simp: corm_field_get_value_def width_def text_ptr_def load_bytes_def fits_def)
qed

lemma put_bytes_frame:
  assumes "put_bytes rec f bs = Some rec'" and "length bs \<le> width f" and "disjoint_fields f g"
  shows "load_bytes (sbytes rec) (foffset g) (width g) = load_bytes (sbytes rec') (foffset g) (width g)"
    and "length (sbytes rec') = length (sbytes rec)" and "sheap rec' = sheap rec"
proof -
  from assms(1) obtain b where b: "store_bytes (sbytes rec) (foffset f) bs = Some b" "rec' = rec\<lparr>sbytes := b\<rparr>"
    by (auto simp: put_bytes_def)
  with load_frame [OF b(1), of "foffset g" "width g"] assms(2,3) length_store [OF b(1)]
  show "load_bytes (sbytes rec) (foffset g) (width g) = load_bytes (sbytes rec') (foffset g) (width g)"
    and "length (sbytes rec') = length (sbytes rec)" and "sheap rec' = sheap rec"
    by (auto simp: disjoint_fields_def)
qed

lemma length_le_width:
  "ftype f = CORM_STRING \<Longrightarrow> 0 < fsize f \<Longrightarrow> length (string_image s (fsize f)) \<le> width f"
  "ftype f \<in> {CORM_INT, CORM_FLOAT} \<Longrightarrow> length (le_bytes 4 w) \<le> width f"
  "ftype f \<in> {CORM_INT64, CORM_DOUBLE, CORM_TEXT} \<Longrightarrow> length (le_bytes 8 w) \<le> width f"
  "ftype f = CORM_BOOL \<Longrightarrow> length [b] \<le> width f"
  "ftype f = CORM_BLOB \<Longrightarrow> n \<le> fsize f \<Longrightarrow> length (take n bs) \<le> width f"
  by (auto simp: width_def length_string_image simp del: le_bytes.simps)

text \<open>Every write goes through \<open>put_bytes\<close> with at most \<open>width\<close> bytes; only a text
  member changes the heap, at its own pointer and at the new string.\<close>

lemma set_value_cases:
  assumes "corm_field_set_value rec f val p = Some rec'"
  obtains (same) "rec' = rec"
  | (bytes) bs where "put_bytes rec f bs = Some rec'" "length bs \<le> width f"
  | (ptr) h bs where "ftype f = CORM_TEXT" "put_bytes (rec\<lparr>sheap := h\<rparr>) f bs = Some rec'" "length bs \<le> width f"
      "\<And>a. a \<noteq> p \<Longrightarrow> a \<noteq> text_ptr rec f \<or> a = 0 \<Longrightarrow> h a = sheap rec a"
proof (cases "ftype f = CORM_TEXT")
  case True
  with assms obtain s where s: "v_s (uval val) = Some s"
    by (auto simp: corm_field_set_value_def bind_eq_Some_conv)
  with True assms have put: "put_bytes (rec\<lparr>sheap := (let h1 = (if s = None \<or> p = 0 then sheap rec else (sheap rec)(p := s))
        in if text_ptr rec f = 0 then h1 else h1(text_ptr rec f := None))\<rparr>) f (le_bytes 8 (if s = None then 0 else p)) = Some rec'"
    by (auto simp: corm_field_set_value_def load_bytes_def text_ptr_def Let_def split: if_splits)
  show ?thesis
    by (rule ptr [OF True put]) (use True length_le_width(3) in \<open>auto simp: Let_def simp del: le_bytes.simps\<close>)
next
  case False
  note sv = assms [unfolded corm_field_set_value_def]
  have "rec' = rec \<or> (\<exists>bs. put_bytes rec f bs = Some rec' \<and> length bs \<le> width f)"
  proof (cases "ftype f")
    case CORM_STRING
    then obtain s where "(case s of None \<Rightarrow> Some rec
        | Some str \<Rightarrow> if fsize f > 0 then put_bytes rec f (string_image str (fsize f)) else Some rec) = Some rec'"
      using sv by (simp add: bind_eq_Some_conv) blast
    with CORM_STRING show ?thesis
      by (auto split: option.splits if_splits intro: length_le_width(1))
  next
    case CORM_BLOB
    then obtain d len where "(case d of None \<Rightarrow> Some rec
        | Some bs \<Rightarrow> if len \<le> fsize f then (if len \<le> length bs then put_bytes rec f (take len bs) else None)
            else Some rec) = Some rec'"
      using sv by (simp add: bind_eq_Some_conv) blast
    with CORM_BLOB show ?thesis
      by (auto split: option.splits if_splits intro: length_le_width(5))
  next
    case CORM_BOOL
    with sv show ?thesis by (auto simp: bind_eq_Some_conv intro: length_le_width(4))
  qed (use sv False in \<open>auto simp: bind_eq_Some_conv simp del: le_bytes.simps length_le_bytes intro: length_le_width(2,3)\<close>)
  with same bytes show ?thesis by blast
qed

lemma set_frame:
  assumes set: "corm_field_set_value rec f val p = Some rec'" and dis: "disjoint_fields f g"
    and g: "fits rec g" "terminated rec g" "text_live rec g"
    and p: "sheap rec p = None"
    and sep: "ftype f = CORM_TEXT \<and> ftype g = CORM_TEXT \<longrightarrow> text_ptr rec g = 0 \<or> text_ptr rec g \<noteq> text_ptr rec f"
  shows "corm_field_get_value rec' g = corm_field_get_value rec g"
  using set
proof (cases rule: set_value_cases)
  case (bytes bs)
  note fr = put_bytes_frame [OF bytes dis]
  show ?thesis by (rule get_local [OF fr(1) g(1,2) fr(2)]) (simp add: fr(3))
next
  case (ptr h bs)
  note fr = put_bytes_frame [OF ptr(2,3) dis]
  have "ftype g = CORM_TEXT \<longrightarrow> text_ptr rec g = 0 \<or> sheap rec' (text_ptr rec g) = sheap rec (text_ptr rec g)"
    using ptr(4) [of "text_ptr rec g"] ptr(1) fr(3) p sep g(3)
    by (cases "text_ptr rec g = p") (auto simp: text_live_def)
  with fr(1,2) show ?thesis by (intro get_local [OF _ g(1,2)]) simp_all
qed simp

section \<open>Properties\<close>

text \<open>(C23) Writing a value of the field's type into a struct and reading it back: the write stays
  inside the struct, and the value read has the field's type and is exactly what the C type
  keeps -- an \<^verbatim>\<open>int\<close> the sign-extended low 32 bits, a \<^verbatim>\<open>float\<close> the value rounded to single
  precision, a fixed buffer the first \<open>size - 1\<close> characters, every other type the value
  itself.\<close>

theorem field_set_get_roundtrip:
  assumes "fits rec f" and "value_for f (uval val)" and "text_live rec f"
    and "p \<noteq> 0" and "sheap rec p = None"
  shows "\<exists>rec'. corm_field_set_value rec f val p = Some rec' \<and>
    corm_field_get_value rec' f = Some (mk_value (ftype f) (kept f (uval val))) \<and>
    length (sbytes rec') = length (sbytes rec)"
  using assms by (rule set_get)

theorem field_set_get_roundtrip_witness:
  "\<exists>rec'. corm_field_set_value \<lparr>sbytes = replicate 16 1, sheap = Map.empty\<rparr>
       \<lparr>fname = Some ''name'', ftype = CORM_STRING, foffset = 4, fsize = 4, fflags = 0, default_value = None, fk_ref = None\<rparr>
       (mk_value CORM_STRING (VS (Some ''alice''))) 7 = Some rec' \<and>
     corm_field_get_value rec'
       \<lparr>fname = Some ''name'', ftype = CORM_STRING, foffset = 4, fsize = 4, fflags = 0, default_value = None, fk_ref = None\<rparr> =
       Some (mk_value CORM_STRING (VS (Some ''ali'')))"
  using field_set_get_roundtrip [of "\<lparr>sbytes = replicate 16 1, sheap = Map.empty\<rparr>"
    "\<lparr>fname = Some ''name'', ftype = CORM_STRING, foffset = 4, fsize = 4, fflags = 0, default_value = None, fk_ref = None\<rparr>"
    "mk_value CORM_STRING (VS (Some ''alice''))" 7]
  by (auto simp: fits_def width_def text_live_def mk_value_def)

text \<open>Writing one member disturbs no other: every member at a disjoint place, whose buffer is
  terminated and whose text pointer is its own, reads the same before and after.\<close>

theorem field_set_frame:
  assumes "corm_field_set_value rec f val p = Some rec'" and "disjoint_fields f g"
    and "fits rec g" and "terminated rec g" and "text_live rec g" and "sheap rec p = None"
    and "ftype f = CORM_TEXT \<and> ftype g = CORM_TEXT \<longrightarrow> text_ptr rec g = 0 \<or> text_ptr rec g \<noteq> text_ptr rec f"
  shows "corm_field_get_value rec' g = corm_field_get_value rec g"
  using assms by (rule set_frame)

theorem field_set_frame_witness:
  "\<exists>rec'. corm_field_set_value \<lparr>sbytes = replicate 8 1, sheap = Map.empty\<rparr>
       \<lparr>fname = Some ''id'', ftype = CORM_INT, foffset = 0, fsize = 4, fflags = 0, default_value = None, fk_ref = None\<rparr>
       (mk_value CORM_INT (VI 5)) 7 = Some rec' \<and>
     corm_field_get_value rec'
       \<lparr>fname = Some ''age'', ftype = CORM_INT, foffset = 4, fsize = 4, fflags = 0, default_value = None, fk_ref = None\<rparr> =
     corm_field_get_value \<lparr>sbytes = replicate 8 1, sheap = Map.empty\<rparr>
       \<lparr>fname = Some ''age'', ftype = CORM_INT, foffset = 4, fsize = 4, fflags = 0, default_value = None, fk_ref = None\<rparr>"
proof -
  let ?r = "\<lparr>sbytes = replicate 8 1, sheap = Map.empty\<rparr>"
  let ?f = "\<lparr>fname = Some ''id'', ftype = CORM_INT, foffset = 0, fsize = 4, fflags = 0, default_value = None, fk_ref = None\<rparr>"
  let ?g = "\<lparr>fname = Some ''age'', ftype = CORM_INT, foffset = 4, fsize = 4, fflags = 0, default_value = None, fk_ref = None\<rparr>"
  from set_get [of ?r ?f "mk_value CORM_INT (VI 5)" 7] obtain rec' where
    s: "corm_field_set_value ?r ?f (mk_value CORM_INT (VI 5)) 7 = Some rec'"
    by (auto simp: fits_def width_def text_live_def mk_value_def)
  from field_set_frame [OF s, of ?g] s show ?thesis
    by (auto simp: disjoint_fields_def width_def fits_def terminated_def text_live_def)
qed

text \<open>Single-precision members lose nothing: for every \<^verbatim>\<open>float\<close> pattern that is not a NaN,
  converting to the \<^verbatim>\<open>double\<close> of a value and back gives the same pattern, subnormals, zeros and
  infinities included.\<close>

theorem float_double_roundtrip:
  assumes "\<not> float_nan x"
  shows "d2f (f2d x) = x"
  using assms by (rule d2f_f2d)

theorem float_double_roundtrip_witness:
  "d2f (f2d 0x3DCCCCCD) = 0x3DCCCCCD \<and> d2f (f2d 1) = 1"
  using float_double_roundtrip [of "0x3DCCCCCD"] float_double_roundtrip [of 1] by (simp add: float_nan_def)

end
