(* ===== verification/Model_Registry.thy ===== *)
theory Model_Registry
  imports Hash_Table Struct_Access "HOL-Library.Char_ord"
begin

text \<open>
  Model definitions, their validation and the model registry: \<^verbatim>\<open>include/corm/model.h\<close>,
  the registry part of \<^verbatim>\<open>src/model.c\<close> and the identifier check of
  \<^verbatim>\<open>src/internal/corm_internal.h\<close>. The registry sits on the hash table through its
  interface \<open>shadow_table\<close>.
\<close>

section \<open>Models\<close>

text \<open>The lifecycle hooks, of a type \<open>'h\<close> the executing layer fixes; \<open>None\<close> is NULL.\<close>

record 'h corm_model_t =
  table_name :: "string option"
  struct_size :: nat
  mfields :: "corm_field_t list option"
  field_count :: int
  primary_key :: "corm_field_t option"
  before_create :: "'h option"
  after_create :: "'h option"
  before_update :: "'h option"
  after_update :: "'h option"
  before_delete :: "'h option"
  after_delete :: "'h option"
  after_find :: "'h option"

text \<open>The fields the loops \<^verbatim>\<open>for (i = 0; i < field_count; i++)\<close> visit. The array of a model has
  \<^verbatim>\<open>field_count\<close> elements (\<^verbatim>\<open>model.h\<close>: number of entries in \<^verbatim>\<open>fields[]\<close>); a shorter one, which the loops would overrun, is not represented.\<close>

definition model_fields :: "('h, 'z) corm_model_t_scheme \<Rightarrow> corm_field_t list" where
  "model_fields m = take (nat (field_count m)) (case mfields m of None \<Rightarrow> [] | Some fs \<Rightarrow> fs)"

definition model_table :: "('h, 'z) corm_model_t_scheme \<Rightarrow> string" where
  "model_table m = (case table_name m of None \<Rightarrow> [] | Some s \<Rightarrow> s)"

section \<open>Validation\<close>

definition ident_char :: "char \<Rightarrow> bool" where
  "ident_char c \<longleftrightarrow>
     (CHR ''a'' \<le> c \<and> c \<le> CHR ''z'') \<or> (CHR ''A'' \<le> c \<and> c \<le> CHR ''Z'') \<or>
     (CHR ''0'' \<le> c \<and> c \<le> CHR ''9'') \<or> c = CHR ''_'' \<or> c = CHR ''.'' \<or> c = CHR ''*''"

definition corm_is_valid_identifier :: "string option \<Rightarrow> bool" where
  "corm_is_valid_identifier name =
     (case name of None \<Rightarrow> False | Some s \<Rightarrow> if s = [] then False else list_all ident_char s)"

text \<open>The two nested loops: each field's name is checked, then compared with every later name.\<close>

fun dup_after :: "corm_field_t \<Rightarrow> corm_field_t list \<Rightarrow> bool" where
  "dup_after f1 [] = False"
| "dup_after f1 (f2 # fs) = (if fname f2 \<noteq> None \<and> fname f1 = fname f2 then True else dup_after f1 fs)"

fun validate_fields :: "corm_field_t list \<Rightarrow> corm_err_t" where
  "validate_fields [] = CORM_OK"
| "validate_fields (f1 # fs) =
     (if fname f1 = None \<or> \<not> corm_is_valid_identifier (fname f1) then CORM_ERR_TYPE
      else if dup_after f1 fs then CORM_ERR_DUP
      else validate_fields fs)"

definition corm_validate_model :: "('h, 'z) corm_model_t_scheme option \<Rightarrow> corm_err_t" where
  "corm_validate_model model =
     (case model of
        None \<Rightarrow> CORM_ERR_NULL
      | Some m \<Rightarrow>
          if table_name m = None \<or> field_count m \<le> 0 \<or> mfields m = None then CORM_ERR_NULL
          else if \<not> corm_is_valid_identifier (table_name m) then CORM_ERR_TYPE
          else if struct_size m = 0 then CORM_ERR_BOUNDS
          else validate_fields (model_fields m))"

section \<open>The registry\<close>

record 'm corm_registry_t =
  models_by_table :: "'m corm_hash_t"
  models_by_name :: "'m corm_hash_t"

definition corm_model_registry_init :: "mem \<Rightarrow> (corm_err_t + 'm corm_registry_t) \<times> mem" where
  "corm_model_registry_init m =
     (case corm_hash_init 32 m of
        (Inl err, m1) \<Rightarrow> (Inl err, m1)
      | (Inr t, m1) \<Rightarrow>
          (case corm_hash_init 32 m1 of
             (Inl err, m2) \<Rightarrow> (Inl err, m2)
           | (Inr n, m2) \<Rightarrow> (Inr \<lparr>models_by_table = t, models_by_name = n\<rparr>, m2)))"

definition corm_model_registry_free :: "'m corm_registry_t \<Rightarrow> 'm corm_registry_t \<times> string list" where
  "corm_model_registry_free reg =
     (case corm_hash_free (models_by_table reg) of
        (t, k1) \<Rightarrow> (case corm_hash_free (models_by_name reg) of
           (n, k2) \<Rightarrow> (\<lparr>models_by_table = t, models_by_name = n\<rparr>, k1 @ k2)))"

text \<open>The registry stands for \<^verbatim>\<open>db->registry\<close>; \<open>None\<close> is a NULL \<^verbatim>\<open>db\<close>.\<close>

definition corm_register_model ::
  "'h corm_model_t corm_registry_t option \<Rightarrow> 'h corm_model_t option \<Rightarrow> mem \<Rightarrow>
     corm_err_t \<times> 'h corm_model_t corm_registry_t option \<times> mem" where
  "corm_register_model db model m =
     (case (db, model) of
        (Some reg, Some md) \<Rightarrow>
          let err = corm_validate_model model in
          if err \<noteq> CORM_OK then (err, db, m)
          else (case corm_hash_insert (models_by_table reg) (model_table md) md m of
                  (e, t, m') \<Rightarrow> (e, Some (reg\<lparr>models_by_table := t\<rparr>), m'))
      | _ \<Rightarrow> (CORM_ERR_NULL, db, m))"

definition corm_find_model :: "'m corm_registry_t \<Rightarrow> string \<Rightarrow> 'm option" where
  "corm_find_model reg tbl = corm_hash_find (models_by_table reg) tbl"

definition corm_find_field :: "('h, 'z) corm_model_t_scheme \<Rightarrow> string \<Rightarrow> corm_field_t option" where
  "corm_find_field m n = List.find (\<lambda>f. field_name f = n) (model_fields m)"

section \<open>Validity\<close>

text \<open>What a validated model guarantees, stated without the order of the checks.\<close>

definition valid_model :: "('h, 'z) corm_model_t_scheme \<Rightarrow> bool" where
  "valid_model m \<longleftrightarrow>
     corm_is_valid_identifier (table_name m) \<and> 0 < field_count m \<and> mfields m \<noteq> None \<and> 0 < struct_size m \<and>
     (\<forall>f\<in>set (model_fields m). corm_is_valid_identifier (fname f)) \<and>
     distinct (map field_name (model_fields m))"

lemma valid_identifier_Some [simp]:
  "corm_is_valid_identifier (Some s) \<longleftrightarrow> s \<noteq> [] \<and> (\<forall>c\<in>set s. ident_char c)"
  by (simp add: corm_is_valid_identifier_def list_all_iff)

lemma valid_identifier_None [simp]: "\<not> corm_is_valid_identifier None"
  by (simp add: corm_is_valid_identifier_def)

lemma dup_after_iff:
  "fname f1 \<noteq> None \<Longrightarrow> dup_after f1 fs \<longleftrightarrow> fname f1 \<in> fname ` set fs"
  by (induction f1 fs rule: dup_after.induct) auto

lemma field_name_inj:
  "fname f \<noteq> None \<Longrightarrow> fname g \<noteq> None \<Longrightarrow> field_name f = field_name g \<longleftrightarrow> fname f = fname g"
  by (auto simp: field_name_def)

lemma validate_fields_ok:
  "validate_fields fs = CORM_OK \<longleftrightarrow>
     (\<forall>f\<in>set fs. corm_is_valid_identifier (fname f)) \<and> distinct (map field_name fs)"
proof (induction fs)
  case (Cons f fs)
  have "fname f \<in> fname ` set fs \<longleftrightarrow> field_name f \<in> field_name ` set fs"
    if "corm_is_valid_identifier (fname f)" "\<forall>g\<in>set fs. corm_is_valid_identifier (fname g)"
    using that field_name_inj valid_identifier_None unfolding image_iff by metis
  moreover have "fname f \<notin> fname ` set fs" if "field_name f \<notin> field_name ` set fs"
    using that unfolding image_iff field_name_def by metis
  ultimately show ?case
    using Cons by (cases "fname f") (auto simp: dup_after_iff)
qed simp

lemma validate_fields_errors: "validate_fields fs \<in> {CORM_OK, CORM_ERR_TYPE, CORM_ERR_DUP}"
  by (induction fs) auto

lemma validate_model_ok: "corm_validate_model (Some m) = CORM_OK \<longleftrightarrow> valid_model m"
  by (cases "table_name m"; cases "mfields m")
    (auto simp: corm_validate_model_def valid_model_def validate_fields_ok)

text \<open>Characters that could end a quoted identifier or start another token never occur in a valid
  identifier.\<close>

lemma ident_char_safe:
  "ident_char c \<Longrightarrow> c \<notin> {CHR 0x22, CHR 0x60, CHR 0x27, CHR '';'', CHR ''?'', CHR '' '', CHR ''-'', CHR ''('', CHR '')'', NUL}"
  by (auto simp: ident_char_def less_eq_char_def)

lemma valid_identifier_safe:
  "corm_is_valid_identifier (Some s) \<Longrightarrow>
     c \<in> {CHR 0x22, CHR 0x60, CHR 0x27, CHR '';'', CHR ''?'', CHR '' '', CHR ''-'', CHR ''('', CHR '')'', NUL} \<Longrightarrow> c \<notin> set s"
  using ident_char_safe by fastforce

lemma valid_identifier_cstring: "corm_is_valid_identifier (Some s) \<Longrightarrow> cstring s"
  using valid_identifier_safe [of s NUL] by (simp add: cstring_def)

lemma valid_model_fields:
  assumes "valid_model m" and "f \<in> set (model_fields m)"
  shows "corm_is_valid_identifier (Some (field_name f))"
proof -
  from assms have "corm_is_valid_identifier (fname f)" by (auto simp: valid_model_def)
  then show ?thesis by (cases "fname f") (simp_all add: field_name_def)
qed

lemma valid_model_table: "valid_model m \<Longrightarrow> corm_is_valid_identifier (Some (model_table m))"
  by (cases "table_name m") (simp_all add: valid_model_def model_table_def)

lemma register_cases:
  assumes "hash_wf (models_by_table reg)" and "corm_register_model (Some reg) (Some md) m = (err, db', m')"
  obtains (ok) reg' where "err = CORM_OK" "valid_model md" "db' = Some reg'" "hash_wf (models_by_table reg')"
      "\<And>k. corm_find_model reg' k = (if k = model_table md then Some md else corm_find_model reg k)"
  | (err) "err \<noteq> CORM_OK" "db' = Some reg" "\<not> valid_model md \<or> err = CORM_ERR_NOMEM"
proof (cases "corm_validate_model (Some md) = CORM_OK")
  case False
  with assms(2) err show ?thesis by (auto simp: corm_register_model_def Let_def validate_model_ok)
next
  case True
  obtain e t m1 where h: "corm_hash_insert (models_by_table reg) (model_table md) md m = (e, t, m1)"
    by (metis prod_cases3)
  with True assms(2) have r: "err = e" "db' = Some (reg\<lparr>models_by_table := t\<rparr>)"
    by (auto simp: corm_register_model_def Let_def)
  have "valid_model md" using True validate_model_ok by blast
  from hash_insert_cases [OF assms(1) h] show ?thesis
  proof (elim disjE conjE)
    assume "e = CORM_OK" "hash_wf t" and v: "hash_vals t = (hash_vals (models_by_table reg))(model_table md := md # hash_vals (models_by_table reg) (model_table md))"
    then show ?thesis
      using ok [of "reg\<lparr>models_by_table := t\<rparr>"] r \<open>valid_model md\<close> assms(1)
      by (simp add: corm_find_model_def hash_find_vals)
  next
    assume "e = CORM_ERR_NOMEM" "t = models_by_table reg"
    then show ?thesis using err r by simp
  qed
qed

lemma find_field_valid:
  assumes "valid_model m"
  shows "corm_find_field m n = Some f \<longleftrightarrow> f \<in> set (model_fields m) \<and> field_name f = n"
proof
  assume "corm_find_field m n = Some f"
  then show "f \<in> set (model_fields m) \<and> field_name f = n"
    unfolding corm_find_field_def by (auto dest!: find_index_least)
next
  assume f: "f \<in> set (model_fields m) \<and> field_name f = n"
  then obtain g where g: "corm_find_field m n = Some g"
    unfolding corm_find_field_def by (metis (mono_tags, lifting) find_None_iff not_None_eq)
  then have "g \<in> set (model_fields m)" "field_name g = n"
    unfolding corm_find_field_def by (auto dest!: find_index_least)
  with f assms have "g = f" by (auto simp: valid_model_def distinct_map inj_on_def)
  with g show "corm_find_field m n = Some f" by simp
qed

lemma registry_init_wf:
  "corm_model_registry_init m = (Inr reg, m') \<Longrightarrow>
     hash_wf (models_by_table reg) \<and> corm_find_model reg k = None"
  by (auto simp: corm_model_registry_init_def corm_hash_init_def corm_find_model_def hash_find_vals
        hash_init_spec Let_def split: prod.splits if_splits)

section \<open>Properties\<close>

text \<open>(C25) Validation decides exactly the models that are safe to turn into SQL: it returns
  \<open>CORM_OK\<close> if and only if the table name and all field names are non-empty identifiers over
  \<^verbatim>\<open>[a-zA-Z0-9_.*]\<close>, there is at least one field, the struct has a size and no two fields share
  a name; otherwise it returns one of the documented error codes.\<close>

theorem validate_model_decides:
  "(corm_validate_model (Some m) = CORM_OK \<longleftrightarrow> valid_model m) \<and>
   corm_validate_model (Some m) \<in> {CORM_OK, CORM_ERR_NULL, CORM_ERR_TYPE, CORM_ERR_BOUNDS, CORM_ERR_DUP}"
proof (intro conjI)
  show "corm_validate_model (Some m) \<in> {CORM_OK, CORM_ERR_NULL, CORM_ERR_TYPE, CORM_ERR_BOUNDS, CORM_ERR_DUP}"
    using validate_fields_errors [of "model_fields m"] by (auto simp: corm_validate_model_def)
qed (rule validate_model_ok)

text \<open>(C26) Registration and lookup, under any allocator behaviour: a call that returns
  \<open>CORM_OK\<close> was given a valid model, which is then found under its table name while every
  other table is found as before; any other result leaves the registry unchanged.\<close>

theorem register_model_find:
  assumes "hash_wf (models_by_table reg)" and "corm_register_model (Some reg) (Some md) m = (err, db', m')"
  shows "err = CORM_OK \<and> valid_model md \<and>
      (\<exists>reg'. db' = Some reg' \<and> hash_wf (models_by_table reg') \<and>
         (\<forall>k. corm_find_model reg' k = (if k = model_table md then Some md else corm_find_model reg k))) \<or>
    err \<noteq> CORM_OK \<and> db' = Some reg \<and> (valid_model md \<longrightarrow> err = CORM_ERR_NOMEM)"
  using assms by (cases rule: register_cases) auto

definition sample_model :: "unit corm_model_t" where
  "sample_model = \<lparr>table_name = Some ''users'', struct_size = 8,
     mfields = Some [\<lparr>fname = Some ''id'', ftype = CORM_INT, foffset = 0, fsize = 4, fflags = 3, default_value = None, fk_ref = None\<rparr>,
                     \<lparr>fname = Some ''age'', ftype = CORM_INT, foffset = 4, fsize = 4, fflags = 0, default_value = None, fk_ref = None\<rparr>],
     field_count = 2,
     primary_key = Some \<lparr>fname = Some ''id'', ftype = CORM_INT, foffset = 0, fsize = 4, fflags = 3, default_value = None, fk_ref = None\<rparr>,
     before_create = None, after_create = None, before_update = None, after_update = None,
     before_delete = None, after_delete = None, after_find = None\<rparr>"

lemma sample_valid: "valid_model sample_model"
  by (simp add: valid_model_def sample_model_def model_fields_def field_name_def ident_char_def less_eq_char_def)

theorem register_model_find_witness:
  "\<exists>reg m1 reg' m'. corm_model_registry_init [] = (Inr reg, m1) \<and>
     corm_register_model (Some reg) (Some sample_model) [] = (CORM_OK, Some reg', m') \<and>
     corm_find_model reg' ''users'' = Some sample_model"
proof -
  obtain reg :: "unit corm_model_t corm_registry_t" and m1 where i: "corm_model_registry_init [] = (Inr reg, m1)"
    by (simp add: corm_model_registry_init_def corm_hash_init_def Let_def)
  from registry_init_wf [OF i] have wf: "hash_wf (models_by_table reg)" by blast
  obtain err db' m' where r: "corm_register_model (Some reg) (Some sample_model) [] = (err, db', m')"
    by (metis prod_cases3)
  have "corm_validate_model (Some sample_model) = CORM_OK" by (simp add: validate_model_ok sample_valid)
  then have "err = CORM_OK" using r hash_insert_no_failure(1) [of "models_by_table reg" "model_table sample_model" sample_model]
    by (auto simp: corm_register_model_def Let_def split: prod.splits)
  with register_model_find [OF wf r] i r show ?thesis
    by (auto simp: sample_model_def model_table_def)
qed

text \<open>In a valid model a field is found by its name if and only if it is one of the model's
  fields with that name: names determine fields.\<close>

theorem find_field_unique:
  assumes "valid_model m"
  shows "corm_find_field m n = Some f \<longleftrightarrow> f \<in> set (model_fields m) \<and> field_name f = n"
  using assms by (rule find_field_valid)

theorem find_field_unique_witness:
  "corm_find_field sample_model ''age'' =
     Some \<lparr>fname = Some ''age'', ftype = CORM_INT, foffset = 4, fsize = 4, fflags = 0, default_value = None, fk_ref = None\<rparr>"
  using find_field_unique [OF sample_valid, of "''age''"
      "\<lparr>fname = Some ''age'', ftype = CORM_INT, foffset = 4, fsize = 4, fflags = 0, default_value = None, fk_ref = None\<rparr>"]
  by (simp add: sample_model_def model_fields_def field_name_def)

end
