(* ===== verification/Query.thy ===== *)
theory Query
  imports Strbuf Dialect Model_Registry
begin

text \<open>
  The fluent query builder: the state of \<^verbatim>\<open>include/corm/query.h\<close> and the
  clause-building half of \<^verbatim>\<open>src/query.c\<close>. The clause buffers are string buffers, used
  through the interface \<open>text_buffer\<close>; the builder ignores the result of every append, as the
  code does, so each operation also runs under every allocator behaviour. The calls that read
  caller memory or free it return an option: \<open>None\<close> is the run that reads past the end of a
  buffer or array of the caller, or frees memory that is not the query's own.
\<close>

section \<open>State\<close>

datatype corm_query_op_t = CORM_OP_SELECT | CORM_OP_INSERT | CORM_OP_UPDATE | CORM_OP_DELETE

text \<open>A bound parameter. \<open>powned\<close> tells whether the data it points to is the query's own
  allocation or still the caller's; it is what decides whether freeing the pointer is allowed.\<close>

record corm_param =
  pval :: corm_value_t
  powned :: bool

text \<open>\<open>qdb\<close> is the backend type of \<^verbatim>\<open>q->db\<close>, \<open>None\<close> when that pointer is NULL;
  \<open>params\<close> lists the \<^verbatim>\<open>param_count\<close> used slots. Count and capacity are
  \<^verbatim>\<open>int\<close> in the code, which holds up to \<open>2 ^ 30\<close> parameters.\<close>

record 'h corm_query_t =
  qdb :: "corm_backend_type_t option"
  qmodel :: "'h corm_model_t"
  qop :: corm_query_op_t
  select_cols :: corm_strbuf_t
  where_c :: corm_strbuf_t
  order_c :: corm_strbuf_t
  group_c :: corm_strbuf_t
  having_c :: corm_strbuf_t
  joins :: corm_strbuf_t
  set_clause :: corm_strbuf_t
  params :: "corm_param list"
  param_cap :: nat
  limit :: int
  offset :: int
  unscoped :: bool
  distinct_rows :: bool
  preload_rel :: string

definition query_bt :: "'h corm_query_t \<Rightarrow> corm_backend_type_t" where
  "query_bt q = (case qdb q of Some bt \<Rightarrow> bt | None \<Rightarrow> CORM_BACKEND_SQLITE)"

section \<open>Parameters\<close>

text \<open>The copy made for a bound value. A string is duplicated. A blob with data and a positive
  length is copied into a new block, which reads \<^verbatim>\<open>len\<close> bytes of the caller's buffer
  (\<open>None\<close> when it has fewer); without that block, or with length 0, the parameter keeps the
  caller's pointer.\<close>

definition corm_param_deep_copy :: "corm_value_t \<Rightarrow> mem \<Rightarrow> (corm_param \<times> mem) option" where
  "corm_param_deep_copy val m =
     (if vtype val = CORM_TEXT \<or> vtype val = CORM_STRING then
        (case uval val of
           VS (Some s) \<Rightarrow>
             (case alloc m of (ok, m') \<Rightarrow>
                Some (\<lparr>pval = val\<lparr>uval := VS (if ok then Some s else None)\<rparr>, powned = True\<rparr>, m'))
         | _ \<Rightarrow> Some (\<lparr>pval = val, powned = True\<rparr>, m))
      else if vtype val = CORM_BLOB then
        (case uval val of
           VBlob (Some d) n \<Rightarrow>
             if n > 0 then
               (case alloc m of (ok, m') \<Rightarrow>
                  if \<not> ok then Some (\<lparr>pval = val, powned = False\<rparr>, m')
                  else if length d < n then None
                  else Some (\<lparr>pval = val\<lparr>uval := VBlob (Some (take n d)) n\<rparr>, powned = True\<rparr>, m'))
             else Some (\<lparr>pval = val, powned = False\<rparr>, m)
         | _ \<Rightarrow> Some (\<lparr>pval = val, powned = True\<rparr>, m))
      else Some (\<lparr>pval = val, powned = True\<rparr>, m))"

text \<open>Releasing a parameter gives the slot afterwards; \<open>None\<close> when the pointer passed to
  \<^verbatim>\<open>free\<close> is not the query's own.\<close>

definition corm_param_free :: "corm_param \<Rightarrow> corm_param option" where
  "corm_param_free p =
     (let t = vtype (pval p) in
      case uval (pval p) of
        VS (Some s) \<Rightarrow>
          if t = CORM_TEXT \<or> t = CORM_STRING then
            if powned p then Some (p\<lparr>pval := (pval p)\<lparr>uval := VS None\<rparr>\<rparr>) else None
          else Some p
      | VBlob (Some d) n \<Rightarrow>
          if t = CORM_BLOB then
            if powned p then Some (p\<lparr>pval := (pval p)\<lparr>uval := VBlob None n\<rparr>\<rparr>) else None
          else Some p
      | _ \<Rightarrow> Some p)"

text \<open>The loop over the used slots.\<close>

fun free_params :: "corm_param list \<Rightarrow> corm_param list option" where
  "free_params [] = Some []"
| "free_params (p # ps) =
     (case corm_param_free p of
        None \<Rightarrow> None
      | Some p' \<Rightarrow> (case free_params ps of None \<Rightarrow> None | Some ps' \<Rightarrow> Some (p' # ps')))"

section \<open>Life cycle\<close>

definition corm_query_new :: "corm_backend_type_t option \<Rightarrow> 'h corm_model_t \<Rightarrow> mem \<Rightarrow> 'h corm_query_t option \<times> mem" where
  "corm_query_new db model m =
     (case alloc m of (ok, m') \<Rightarrow>
       (if ok then
          Some \<lparr>qdb = db, qmodel = model, qop = CORM_OP_SELECT,
            select_cols = corm_strbuf_init, where_c = corm_strbuf_init, order_c = corm_strbuf_init,
            group_c = corm_strbuf_init, having_c = corm_strbuf_init, joins = corm_strbuf_init,
            set_clause = corm_strbuf_init, params = [], param_cap = 0, limit = 0, offset = 0,
            unscoped = False, distinct_rows = False, preload_rel = []\<rparr>
        else None, m'))"

text \<open>Freeing a query: the buffers and the parameter array go with it; what can go wrong is the
  release of the parameters.\<close>

definition corm_query_free :: "'h corm_query_t option \<Rightarrow> unit option" where
  "corm_query_free query =
     (case query of
        None \<Rightarrow> Some ()
      | Some q \<Rightarrow> (case free_params (params q) of None \<Rightarrow> None | Some ps \<Rightarrow> Some ()))"

definition reset_query :: "'h corm_query_t \<Rightarrow> 'h corm_query_t" where
  "reset_query q =
     q\<lparr>qop := CORM_OP_SELECT, limit := 0, offset := 0, distinct_rows := False, preload_rel := [],
       params := [], select_cols := corm_strbuf_clear (select_cols q), where_c := corm_strbuf_clear (where_c q),
       order_c := corm_strbuf_clear (order_c q), group_c := corm_strbuf_clear (group_c q),
       having_c := corm_strbuf_clear (having_c q), joins := corm_strbuf_clear (joins q),
       set_clause := corm_strbuf_clear (set_clause q)\<rparr>"

definition corm_query_reset :: "'h corm_query_t option \<Rightarrow> 'h corm_query_t option option" where
  "corm_query_reset query =
     (case query of
        None \<Rightarrow> Some None
      | Some q \<Rightarrow> (case free_params (params q) of None \<Rightarrow> None | Some ps \<Rightarrow> Some (Some (reset_query q))))"

section \<open>Clauses\<close>

text \<open>Builder calls that begin with \<^verbatim>\<open>if (!q) return q\<close>.\<close>

definition on_query ::
  "('h corm_query_t \<Rightarrow> mem \<Rightarrow> 'h corm_query_t \<times> mem) \<Rightarrow> 'h corm_query_t option \<Rightarrow> mem \<Rightarrow> 'h corm_query_t option \<times> mem" where
  "on_query f query m = (case query of None \<Rightarrow> (None, m) | Some q \<Rightarrow> (case f q m of (q', m') \<Rightarrow> (Some q', m')))"

text \<open>The same for the calls that read caller memory.\<close>

definition on_query_opt ::
  "('h corm_query_t \<Rightarrow> mem \<Rightarrow> ('h corm_query_t \<times> mem) option) \<Rightarrow> 'h corm_query_t option \<Rightarrow> mem \<Rightarrow>
     ('h corm_query_t option \<times> mem) option" where
  "on_query_opt f query m =
     (case query of
        None \<Rightarrow> Some (None, m)
      | Some q \<Rightarrow> (case f q m of None \<Rightarrow> None | Some (q', m') \<Rightarrow> Some (Some q', m')))"

text \<open>Appending to the WHERE buffer, behind a separator when it is not empty.\<close>

definition where_add :: "string \<Rightarrow> string list \<Rightarrow> 'h corm_query_t \<Rightarrow> mem \<Rightarrow> 'h corm_query_t \<times> mem" where
  "where_add sep ss q m =
     (case sb_app_all ((if sb_len (where_c q) > 0 then [sep] else []) @ ss) (where_c q, m) of
        (w, m') \<Rightarrow> (q\<lparr>where_c := w\<rparr>, m'))"

definition where_app :: "string list \<Rightarrow> 'h corm_query_t \<Rightarrow> mem \<Rightarrow> 'h corm_query_t \<times> mem" where
  "where_app ss q m = (case sb_app_all ss (where_c q, m) of (w, m') \<Rightarrow> (q\<lparr>where_c := w\<rparr>, m'))"

definition corm_query_op :: "'h corm_query_t \<Rightarrow> corm_query_op_t \<Rightarrow> 'h corm_query_t" where
  "corm_query_op q op = q\<lparr>qop := op\<rparr>"

definition corm_query_select :: "'h corm_query_t \<Rightarrow> string \<Rightarrow> mem \<Rightarrow> 'h corm_query_t \<times> mem" where
  "corm_query_select q columns m =
     (case sb_app (corm_strbuf_clear (select_cols q)) columns m of (b, m') \<Rightarrow> (q\<lparr>select_cols := b\<rparr>, m'))"

definition corm_query_where :: "'h corm_query_t \<Rightarrow> string \<Rightarrow> mem \<Rightarrow> 'h corm_query_t \<times> mem" where
  "corm_query_where q condition m = where_add '' AND '' [condition] q m"

definition corm_query_or_where :: "'h corm_query_t \<Rightarrow> string \<Rightarrow> mem \<Rightarrow> 'h corm_query_t \<times> mem" where
  "corm_query_or_where q condition m = where_add '' OR '' [condition] q m"

definition where_null_body :: "string option \<Rightarrow> 'h corm_query_t \<Rightarrow> mem \<Rightarrow> 'h corm_query_t \<times> mem" where
  "where_null_body fld q m =
     (case fld of
        None \<Rightarrow> (q, m)
      | Some f \<Rightarrow> if \<not> corm_is_valid_identifier fld then (q, m) else where_add '' AND '' [f, '' IS NULL''] q m)"

definition corm_query_where_null :: "'h corm_query_t option \<Rightarrow> string option \<Rightarrow> mem \<Rightarrow> 'h corm_query_t option \<times> mem" where
  "corm_query_where_null query fld m = on_query (where_null_body fld) query m"

definition corm_query_where_not_null :: "'h corm_query_t option \<Rightarrow> string option \<Rightarrow> mem \<Rightarrow> 'h corm_query_t option \<times> mem" where
  "corm_query_where_not_null query fld m =
     on_query (\<lambda>q m.
       case fld of
         None \<Rightarrow> (q, m)
       | Some f \<Rightarrow> if \<not> corm_is_valid_identifier fld then (q, m) else where_add '' AND '' [f, '' IS NOT NULL''] q m) query m"

text \<open>The body of \<^verbatim>\<open>corm_query_bind\<close>, which the other builder calls use on a non-NULL query.\<close>

definition bind_param :: "corm_value_t \<Rightarrow> 'h corm_query_t \<Rightarrow> mem \<Rightarrow> ('h corm_query_t \<times> mem) option" where
  "bind_param val q m =
     (let (ok, cap, m1) =
        (if length (params q) \<ge> param_cap q then
           (case alloc m of (ok, m') \<Rightarrow> (ok, if param_cap q \<noteq> 0 then param_cap q * 2 else 8, m'))
         else (True, param_cap q, m))
      in if \<not> ok then Some (q, m1)
         else (case corm_param_deep_copy val m1 of
                 None \<Rightarrow> None
               | Some (p, m2) \<Rightarrow> Some (q\<lparr>param_cap := cap, params := params q @ [p]\<rparr>, m2)))"

definition corm_query_bind ::
  "'h corm_query_t option \<Rightarrow> corm_value_t \<Rightarrow> mem \<Rightarrow> ('h corm_query_t option \<times> mem) option" where
  "corm_query_bind query val m = on_query_opt (bind_param val) query m"

text \<open>The loop of \<^verbatim>\<open>corm_query_where_in\<close>: a separator, the placeholder of the next
  parameter, and the parameter, \<open>n\<close> times; \<open>None\<close> when it reads past the end of the array.\<close>

fun where_in_loop ::
  "corm_backend_type_t \<Rightarrow> bool \<Rightarrow> nat \<Rightarrow> corm_value_t list \<Rightarrow> 'h corm_query_t \<Rightarrow> mem \<Rightarrow> ('h corm_query_t \<times> mem) option" where
  "where_in_loop bt first 0 vals q m = Some (q, m)"
| "where_in_loop bt first (Suc n) [] q m = None"
| "where_in_loop bt first (Suc n) (x # xs) q m =
     (case where_app ((if first then [] else ['', '']) @ [placeholder bt (length (params q))]) q m of
        (q1, m1) \<Rightarrow> (case bind_param x q1 m1 of
           None \<Rightarrow> None
         | Some (q2, m2) \<Rightarrow> where_in_loop bt False n xs q2 m2))"

definition where_in_body ::
  "string option \<Rightarrow> corm_value_t list option \<Rightarrow> int \<Rightarrow> 'h corm_query_t \<Rightarrow> mem \<Rightarrow> ('h corm_query_t \<times> mem) option" where
  "where_in_body fld vals count q m =
     (case (fld, vals) of
        (Some f, Some vs) \<Rightarrow>
          if count \<le> 0 \<or> \<not> corm_is_valid_identifier fld then Some (q, m)
          else (case where_add '' AND '' [f, '' IN (''] q m of
            (q1, m1) \<Rightarrow> (case where_in_loop (query_bt q) True (nat count) vs q1 m1 of
               None \<Rightarrow> None
             | Some (q2, m2) \<Rightarrow> Some (where_app ['')''] q2 m2)))
      | _ \<Rightarrow> Some (q, m))"

definition corm_query_where_in ::
  "'h corm_query_t option \<Rightarrow> string option \<Rightarrow> corm_value_t list option \<Rightarrow> int \<Rightarrow> mem \<Rightarrow> ('h corm_query_t option \<times> mem) option" where
  "corm_query_where_in query fld vals count m = on_query_opt (where_in_body fld vals count) query m"

definition where_between_body ::
  "string option \<Rightarrow> corm_value_t \<Rightarrow> corm_value_t \<Rightarrow> 'h corm_query_t \<Rightarrow> mem \<Rightarrow> ('h corm_query_t \<times> mem) option" where
  "where_between_body fld min_val max_val q m =
     (case fld of
        None \<Rightarrow> Some (q, m)
      | Some f \<Rightarrow>
          if \<not> corm_is_valid_identifier fld then Some (q, m)
          else (case where_add '' AND '' [f, '' BETWEEN '', placeholder (query_bt q) (length (params q))] q m of
            (q1, m1) \<Rightarrow> (case bind_param min_val q1 m1 of
               None \<Rightarrow> None
             | Some (q2, m2) \<Rightarrow> (case where_app ['' AND '', placeholder (query_bt q) (length (params q2))] q2 m2 of
                 (q3, m3) \<Rightarrow> bind_param max_val q3 m3))))"

definition corm_query_where_between ::
  "'h corm_query_t option \<Rightarrow> string option \<Rightarrow> corm_value_t \<Rightarrow> corm_value_t \<Rightarrow> mem \<Rightarrow> ('h corm_query_t option \<times> mem) option" where
  "corm_query_where_between query fld min_val max_val m = on_query_opt (where_between_body fld min_val max_val) query m"

definition corm_query_join :: "'h corm_query_t option \<Rightarrow> string option \<Rightarrow> mem \<Rightarrow> 'h corm_query_t option \<times> mem" where
  "corm_query_join query clause m =
     on_query (\<lambda>q m. case clause of None \<Rightarrow> (q, m)
       | Some s \<Rightarrow> (case sb_app (joins q) s m of (b, m') \<Rightarrow> (q\<lparr>joins := b\<rparr>, m'))) query m"

definition corm_query_order :: "'h corm_query_t option \<Rightarrow> string option \<Rightarrow> mem \<Rightarrow> 'h corm_query_t option \<times> mem" where
  "corm_query_order query ord m =
     on_query (\<lambda>q m. case ord of None \<Rightarrow> (q, m)
       | Some s \<Rightarrow> (case sb_app (corm_strbuf_clear (order_c q)) s m of (b, m') \<Rightarrow> (q\<lparr>order_c := b\<rparr>, m'))) query m"

definition corm_query_group :: "'h corm_query_t option \<Rightarrow> string option \<Rightarrow> mem \<Rightarrow> 'h corm_query_t option \<times> mem" where
  "corm_query_group query grp m =
     on_query (\<lambda>q m. case grp of None \<Rightarrow> (q, m)
       | Some s \<Rightarrow> (case sb_app (corm_strbuf_clear (group_c q)) s m of (b, m') \<Rightarrow> (q\<lparr>group_c := b\<rparr>, m'))) query m"

definition corm_query_having :: "'h corm_query_t option \<Rightarrow> string option \<Rightarrow> mem \<Rightarrow> 'h corm_query_t option \<times> mem" where
  "corm_query_having query cond m =
     on_query (\<lambda>q m. case cond of None \<Rightarrow> (q, m)
       | Some s \<Rightarrow> (case sb_app (corm_strbuf_clear (having_c q)) s m of (b, m') \<Rightarrow> (q\<lparr>having_c := b\<rparr>, m'))) query m"

definition corm_query_limit :: "'h corm_query_t option \<Rightarrow> int \<Rightarrow> 'h corm_query_t option" where
  "corm_query_limit query n = map_option (\<lambda>q. q\<lparr>limit := n\<rparr>) query"

definition corm_query_offset :: "'h corm_query_t option \<Rightarrow> int \<Rightarrow> 'h corm_query_t option" where
  "corm_query_offset query n = map_option (\<lambda>q. q\<lparr>offset := n\<rparr>) query"

definition set_field :: "string option \<Rightarrow> corm_value_t \<Rightarrow> 'h corm_query_t \<Rightarrow> mem \<Rightarrow> ('h corm_query_t \<times> mem) option" where
  "set_field fld val q m =
     (case fld of
        None \<Rightarrow> Some (q, m)
      | Some f \<Rightarrow>
          if \<not> corm_is_valid_identifier fld then Some (q, m)
          else
            let bt = query_bt q; qchar = corm_dialect_quote bt f in
            (case sb_app_all ((if sb_len (set_clause q) > 0 then ['', ''] else []) @
                              [qchar, f, qchar, '' = '', placeholder bt (length (params q))]) (set_clause q, m) of
               (b, m1) \<Rightarrow> (case bind_param val (q\<lparr>set_clause := b\<rparr>) m1 of
                  None \<Rightarrow> None
                | Some (q2, m2) \<Rightarrow> Some (q2\<lparr>qop := CORM_OP_UPDATE\<rparr>, m2))))"

definition corm_query_set ::
  "'h corm_query_t option \<Rightarrow> string option \<Rightarrow> corm_value_t \<Rightarrow> mem \<Rightarrow> ('h corm_query_t option \<times> mem) option" where
  "corm_query_set query fld val m = on_query_opt (set_field fld val) query m"

definition corm_query_set_raw :: "'h corm_query_t \<Rightarrow> string \<Rightarrow> mem \<Rightarrow> 'h corm_query_t \<times> mem" where
  "corm_query_set_raw q clause m =
     (case sb_app (corm_strbuf_clear (set_clause q)) clause m of
        (b, m') \<Rightarrow> (q\<lparr>set_clause := b, qop := CORM_OP_UPDATE\<rparr>, m'))"

definition corm_query_unscoped :: "'h corm_query_t option \<Rightarrow> 'h corm_query_t option" where
  "corm_query_unscoped query = map_option (\<lambda>q. q\<lparr>unscoped := True\<rparr>) query"

definition corm_query_distinct :: "'h corm_query_t option \<Rightarrow> 'h corm_query_t option" where
  "corm_query_distinct query = map_option (\<lambda>q. q\<lparr>distinct_rows := True\<rparr>) query"

definition corm_query_preload :: "'h corm_query_t option \<Rightarrow> string option \<Rightarrow> 'h corm_query_t option" where
  "corm_query_preload query rel =
     map_option (\<lambda>q. case rel of None \<Rightarrow> q
       | Some r \<Rightarrow> if \<not> corm_is_valid_identifier rel then q else q\<lparr>preload_rel := snprintf_buf 64 r\<rparr>) query"

section \<open>The builder as a sequence of calls\<close>

text \<open>One constructor per exported builder function, for statements about arbitrary chains.\<close>

datatype builder_call =
    Op corm_query_op_t | Select string | Where string | Or_Where string
  | Where_Null "string option" | Where_Not_Null "string option"
  | Where_In "string option" "corm_value_t list option" int
  | Where_Between "string option" corm_value_t corm_value_t
  | Join "string option" | Order "string option" | Group "string option" | Having "string option"
  | Limit int | Offset int | Bind corm_value_t | Set_Field "string option" corm_value_t
  | Set_Raw string | Unscoped | Distinct | Preload "string option" | Reset

fun builder_step :: "builder_call \<Rightarrow> 'h corm_query_t \<Rightarrow> mem \<Rightarrow> ('h corm_query_t option \<times> mem) option" where
  "builder_step (Op op) q m = Some (Some (corm_query_op q op), m)"
| "builder_step (Select s) q m = Some (map_prod Some id (corm_query_select q s m))"
| "builder_step (Where s) q m = Some (map_prod Some id (corm_query_where q s m))"
| "builder_step (Or_Where s) q m = Some (map_prod Some id (corm_query_or_where q s m))"
| "builder_step (Where_Null f) q m = Some (corm_query_where_null (Some q) f m)"
| "builder_step (Where_Not_Null f) q m = Some (corm_query_where_not_null (Some q) f m)"
| "builder_step (Where_In f vs n) q m = corm_query_where_in (Some q) f vs n m"
| "builder_step (Where_Between f a b) q m = corm_query_where_between (Some q) f a b m"
| "builder_step (Join s) q m = Some (corm_query_join (Some q) s m)"
| "builder_step (Order s) q m = Some (corm_query_order (Some q) s m)"
| "builder_step (Group s) q m = Some (corm_query_group (Some q) s m)"
| "builder_step (Having s) q m = Some (corm_query_having (Some q) s m)"
| "builder_step (Limit n) q m = Some (corm_query_limit (Some q) n, m)"
| "builder_step (Offset n) q m = Some (corm_query_offset (Some q) n, m)"
| "builder_step (Bind x) q m = corm_query_bind (Some q) x m"
| "builder_step (Set_Field f x) q m = corm_query_set (Some q) f x m"
| "builder_step (Set_Raw s) q m = Some (map_prod Some id (corm_query_set_raw q s m))"
| "builder_step Unscoped q m = Some (corm_query_unscoped (Some q), m)"
| "builder_step Distinct q m = Some (corm_query_distinct (Some q), m)"
| "builder_step (Preload r) q m = Some (corm_query_preload (Some q) r, m)"
| "builder_step Reset q m = (case corm_query_reset (Some q) of None \<Rightarrow> None | Some r \<Rightarrow> Some (r, m))"

text \<open>A chain of calls on a query; \<open>None\<close> when one of them faults.\<close>

fun builder_run :: "builder_call list \<Rightarrow> 'h corm_query_t \<Rightarrow> mem \<Rightarrow> ('h corm_query_t \<times> mem) option" where
  "builder_run [] q m = Some (q, m)"
| "builder_run (c # cs) q m =
     (case builder_step c q m of
        None \<Rightarrow> None
      | Some (Some q', m') \<Rightarrow> builder_run cs q' m'
      | Some (None, m') \<Rightarrow> Some (q, m'))"

text \<open>The C strings a call passes.\<close>

fun call_strings :: "builder_call \<Rightarrow> string list" where
  "call_strings (Select s) = [s]"
| "call_strings (Where s) = [s]"
| "call_strings (Or_Where s) = [s]"
| "call_strings (Join s) = (case s of None \<Rightarrow> [] | Some x \<Rightarrow> [x])"
| "call_strings (Order s) = (case s of None \<Rightarrow> [] | Some x \<Rightarrow> [x])"
| "call_strings (Group s) = (case s of None \<Rightarrow> [] | Some x \<Rightarrow> [x])"
| "call_strings (Having s) = (case s of None \<Rightarrow> [] | Some x \<Rightarrow> [x])"
| "call_strings (Set_Raw s) = [s]"
| "call_strings _ = []"

text \<open>The values a call passes, and what it may read of the caller's memory: strings are terminated, a
  blob has at least \<^verbatim>\<open>len\<close> bytes, an array at least \<^verbatim>\<open>count\<close> elements,
  and the member of the union is the one its type tag names.\<close>

fun call_values :: "builder_call \<Rightarrow> corm_value_t list" where
  "call_values (Where_In f vs n) = (case vs of None \<Rightarrow> [] | Some xs \<Rightarrow> xs)"
| "call_values (Where_Between f a b) = [a, b]"
| "call_values (Bind x) = [x]"
| "call_values (Set_Field f x) = [x]"
| "call_values _ = []"

definition value_readable :: "corm_value_t \<Rightarrow> bool" where
  "value_readable x \<longleftrightarrow>
     (case uval x of
        VZero \<Rightarrow> True
      | VS s \<Rightarrow> vtype x = CORM_TEXT \<or> vtype x = CORM_STRING
      | VBlob d n \<Rightarrow> vtype x = CORM_BLOB \<and> (case d of None \<Rightarrow> True | Some b \<Rightarrow> n \<le> length b)
      | _ \<Rightarrow> vtype x \<noteq> CORM_TEXT \<and> vtype x \<noteq> CORM_STRING \<and> vtype x \<noteq> CORM_BLOB)"

definition call_readable :: "builder_call \<Rightarrow> bool" where
  "call_readable c \<longleftrightarrow>
     (\<forall>s\<in>set (call_strings c). cstring s) \<and> (\<forall>x\<in>set (call_values c). value_readable x) \<and>
     (case c of Where_In f (Some vs) n \<Rightarrow> n \<le> int (length vs) | _ \<Rightarrow> True)"

text \<open>The values whose parameter keeps the caller's pointer: a blob with data whose length is 0, or
  any blob with data when one of the outcomes \<open>M\<close> of the allocator is a failure.\<close>

definition keeps_pointer :: "bool set \<Rightarrow> corm_value_t \<Rightarrow> bool" where
  "keeps_pointer M x \<longleftrightarrow>
     vtype x = CORM_BLOB \<and> (case uval x of VBlob (Some d) n \<Rightarrow> n = 0 \<or> False \<in> M | _ \<Rightarrow> False)"

section \<open>Invariant\<close>

definition query_wf :: "'h corm_query_t \<Rightarrow> bool" where
  "query_wf q \<longleftrightarrow>
     sb_wf (select_cols q) \<and> sb_wf (where_c q) \<and> sb_wf (order_c q) \<and> sb_wf (group_c q) \<and>
     sb_wf (having_c q) \<and> sb_wf (joins q) \<and> sb_wf (set_clause q) \<and>
     length (params q) \<le> param_cap q \<and> length (preload_rel q) < 64"

lemma query_new_wf:
  "corm_query_new db md m = (Some q, m') \<Longrightarrow> query_wf q \<and> qdb q = db \<and> qmodel q = md \<and> params q = []"
  by (auto simp: corm_query_new_def query_wf_def split: prod.splits if_splits)

lemma reset_query_wf: "query_wf q \<Longrightarrow> query_wf (reset_query q)"
  by (simp add: query_wf_def reset_query_def)

lemma where_add_wf:
  "query_wf q \<Longrightarrow> cstring sep \<Longrightarrow> (\<forall>s\<in>set ss. cstring s) \<Longrightarrow>
     query_wf (fst (where_add sep ss q m)) \<and> qdb (fst (where_add sep ss q m)) = qdb q \<and>
     params (fst (where_add sep ss q m)) = params q"
  by (simp add: where_add_def query_wf_def split_beta)

lemma where_app_wf:
  "query_wf q \<Longrightarrow> (\<forall>s\<in>set ss. cstring s) \<Longrightarrow>
     query_wf (fst (where_app ss q m)) \<and> qdb (fst (where_app ss q m)) = qdb q \<and>
     params (fst (where_app ss q m)) = params q"
  by (simp add: where_app_def query_wf_def split_beta)

text \<open>What a call leaves behind: a well-formed query on the same connection, an allocator script that
  only lost outcomes, and parameters that can be freed unless \<open>B\<close> holds.\<close>

definition owns :: "bool \<Rightarrow> 'h corm_query_t \<Rightarrow> bool" where
  "owns B q \<longleftrightarrow> (\<forall>p\<in>set (params q). corm_param_free p = None \<longrightarrow> B)"

definition step_ok :: "bool set \<Rightarrow> bool \<Rightarrow> 'h corm_query_t \<Rightarrow> ('h corm_query_t \<times> mem) option \<Rightarrow> bool" where
  "step_ok M B q r \<longleftrightarrow>
     (\<exists>q' m'. r = Some (q', m') \<and> query_wf q' \<and> qdb q' = qdb q \<and> set m' \<subseteq> M \<and> (owns B q \<longrightarrow> owns B q'))"

lemma step_okI:
  "r = Some (q', m') \<Longrightarrow> query_wf q' \<Longrightarrow> qdb q' = qdb q \<Longrightarrow> set m' \<subseteq> M \<Longrightarrow> (owns B q \<Longrightarrow> owns B q') \<Longrightarrow> step_ok M B q r"
  by (auto simp: step_ok_def)

lemma step_ok_bind:
  assumes "step_ok M B q r"
    and "\<And>q' m'. r = Some (q', m') \<Longrightarrow> query_wf q' \<Longrightarrow> set m' \<subseteq> M \<Longrightarrow> step_ok M B q' (f q' m')"
  shows "step_ok M B q (case r of None \<Rightarrow> None | Some (q', m') \<Rightarrow> f q' m')"
proof -
  from assms(1) obtain q' m' where q': "r = Some (q', m')" "query_wf q'" "qdb q' = qdb q" "set m' \<subseteq> M"
    "owns B q \<longrightarrow> owns B q'" by (auto simp: step_ok_def)
  from assms(2) [OF q'(1,2,4)] q' show ?thesis by (auto simp: step_ok_def)
qed

lemma step_ok_then:
  assumes "step_ok M B q (Some (q1, m1))" and "query_wf q1 \<Longrightarrow> set m1 \<subseteq> M \<Longrightarrow> step_ok M B q1 r"
  shows "step_ok M B q r"
  using step_ok_bind [OF assms(1), of "\<lambda>q' m'. r"] assms(2) by auto

lemma step_ok_same_params:
  "query_wf q' \<Longrightarrow> qdb q' = qdb q \<Longrightarrow> params q' = params q \<Longrightarrow> set m' \<subseteq> M \<Longrightarrow> step_ok M B q (Some (q', m'))"
  by (auto simp: step_ok_def owns_def)

lemma where_add_ok:
  assumes "query_wf q" and "cstring sep" and "\<forall>s\<in>set ss. cstring s" and "set m \<subseteq> M"
  shows "step_ok M B q (Some (where_add sep ss q m))"
proof -
  obtain q' m' where w: "where_add sep ss q m = (q', m')" by fastforce
  then have "set m' \<subseteq> set m"
    using sb_app_all_used [of "(if sb_len (where_c q) > 0 then [sep] else []) @ ss" "where_c q" m]
    by (auto simp: where_add_def split: prod.splits)
  with where_add_wf [OF assms(1-3), of m] w assms(4) show ?thesis by (auto intro: step_ok_same_params)
qed

lemma where_app_ok:
  assumes "query_wf q" and "\<forall>s\<in>set ss. cstring s" and "set m \<subseteq> M"
  shows "step_ok M B q (Some (where_app ss q m))"
proof -
  obtain q' m' where w: "where_app ss q m = (q', m')" by fastforce
  then have "set m' \<subseteq> set m" using sb_app_all_used [of ss "where_c q" m] by (auto simp: where_app_def split: prod.splits)
  with where_app_wf [OF assms(1,2), of m] w assms(3) show ?thesis by (auto intro: step_ok_same_params)
qed

text \<open>The copy of a readable value, and when it cannot be freed.\<close>

lemma alloc_used: "alloc m = (ok, m') \<Longrightarrow> set m' \<subseteq> set m \<and> (\<not> ok \<longrightarrow> False \<in> set m)"
  by (cases m) auto

lemma deep_copy_ok:
  assumes "value_readable x" and "set m \<subseteq> M"
  shows "\<exists>p m'. corm_param_deep_copy x m = Some (p, m') \<and> set m' \<subseteq> M \<and>
    (corm_param_free p = None \<longrightarrow> keeps_pointer M x)"
proof -
  obtain ok m1 where a: "alloc m = (ok, m1)" by fastforce
  note u = alloc_used [OF a]
  show ?thesis
  proof (cases "uval x")
    case (VS s)
    with assms a u show ?thesis
      by (cases s; cases ok) (auto simp: value_readable_def corm_param_deep_copy_def corm_param_free_def)
  next
    case (VBlob d n)
    show ?thesis
    proof (cases d)
      case None
      with VBlob assms show ?thesis by (simp add: value_readable_def corm_param_deep_copy_def corm_param_free_def)
    next
      case (Some b)
      with VBlob assms have t: "vtype x = CORM_BLOB" "n \<le> length b" by (simp_all add: value_readable_def)
      consider "n = 0" | "0 < n" "ok" | "0 < n" "\<not> ok" by auto
      then show ?thesis
        by cases (use VBlob Some t a u assms(2) in
          \<open>auto simp: corm_param_deep_copy_def corm_param_free_def keeps_pointer_def\<close>)
    qed
  qed (use assms in \<open>simp_all add: value_readable_def corm_param_deep_copy_def corm_param_free_def\<close>)
qed

text \<open>Binding appends one parameter, or nothing when the array cannot grow; the clauses stay.\<close>

lemma bind_param_cases:
  assumes "query_wf q"
  shows "bind_param val q m = Some (q, tl m) \<and> m \<noteq> [] \<or>
    (\<exists>cap m1. length (params q) < cap \<and> set m1 \<subseteq> set m \<and> (m = [] \<longrightarrow> m1 = []) \<and>
       bind_param val q m = (case corm_param_deep_copy val m1 of None \<Rightarrow> None
         | Some (p, m2) \<Rightarrow> Some (q\<lparr>param_cap := cap, params := params q @ [p]\<rparr>, m2)))"
proof (cases "length (params q) < param_cap q")
  case True
  then have "bind_param val q m = (case corm_param_deep_copy val m of None \<Rightarrow> None
         | Some (p, m2) \<Rightarrow> Some (q\<lparr>param_cap := param_cap q, params := params q @ [p]\<rparr>, m2))"
    by (simp add: bind_param_def)
  with True show ?thesis by blast
next
  case False
  let ?cap = "if param_cap q \<noteq> 0 then param_cap q * 2 else 8"
  have cap: "length (params q) < ?cap" using assms by (simp add: query_wf_def)
  obtain ok m1 where a: "alloc m = (ok, m1)" by fastforce
  show ?thesis
  proof (cases ok)
    case True
    with False a have "bind_param val q m = (case corm_param_deep_copy val m1 of None \<Rightarrow> None
         | Some (p, m2) \<Rightarrow> Some (q\<lparr>param_cap := ?cap, params := params q @ [p]\<rparr>, m2))"
      by (simp add: bind_param_def)
    moreover have "set m1 \<subseteq> set m" "m = [] \<longrightarrow> m1 = []" using alloc_used [OF a] by auto
    ultimately show ?thesis using cap by blast
  next
    case f: False
    with False a show ?thesis by (cases m) (auto simp: bind_param_def)
  qed
qed

lemma bind_param_ok:
  assumes "query_wf q" and "value_readable x" and "set m \<subseteq> M" and "keeps_pointer M x \<Longrightarrow> B"
  shows "step_ok M B q (bind_param x q m)"
  using bind_param_cases [OF assms(1), of x m]
proof (elim disjE exE conjE)
  assume "bind_param x q m = Some (q, tl m)" "m \<noteq> []"
  moreover from this(2) have "set (tl m) \<subseteq> set m" by (cases m) auto
  ultimately show ?thesis using assms by (auto intro!: step_ok_same_params)
next
  fix cap m1
  assume c: "length (params q) < cap" "set m1 \<subseteq> set m" and b: "bind_param x q m =
    (case corm_param_deep_copy x m1 of None \<Rightarrow> None
     | Some (p, m2) \<Rightarrow> Some (q\<lparr>param_cap := cap, params := params q @ [p]\<rparr>, m2))"
  have "set m1 \<subseteq> M" using c(2) assms(3) by auto
  from deep_copy_ok [OF assms(2) this] obtain p m' where p: "corm_param_deep_copy x m1 = Some (p, m')"
    "set m' \<subseteq> M" "corm_param_free p = None \<longrightarrow> keeps_pointer M x" by auto
  from p(1) b have "bind_param x q m = Some (q\<lparr>param_cap := cap, params := params q @ [p]\<rparr>, m')" by simp
  then show ?thesis
    by (rule step_okI) (use assms(1,4) c(1) p in \<open>auto simp: query_wf_def owns_def\<close>)
qed

lemma where_in_loop_ok:
  assumes "query_wf q" and "\<forall>x\<in>set xs. value_readable x" and "n \<le> length xs" and "set m \<subseteq> M"
    and "\<exists>x\<in>set xs. keeps_pointer M x \<Longrightarrow> B"
  shows "step_ok M B q (where_in_loop bt first n xs q m)"
  using assms
proof (induction bt first n xs q m rule: where_in_loop.induct)
  case (1 bt first vals q m)
  then show ?case by (auto intro: step_ok_same_params)
next
  case (3 bt first n x xs q m)
  let ?ss = "(if first then [] else ['', '']) @ [placeholder bt (length (params q))]"
  obtain q1 m1 where q1: "where_app ?ss q m = (q1, m1)" by fastforce
  from where_app_ok [OF "3.prems"(1), of ?ss m M B] "3.prems"(4) q1 have s1: "step_ok M B q (Some (q1, m1))" by simp
  from s1 show ?case
  proof (rule step_ok_then)
    assume w1: "query_wf q1" "set m1 \<subseteq> M"
    have "step_ok M B q1 (case bind_param x q1 m1 of None \<Rightarrow> None | Some (q2, m2) \<Rightarrow> where_in_loop bt False n xs q2 m2)"
    proof (rule step_ok_bind)
      show "step_ok M B q1 (bind_param x q1 m1)" using w1 "3.prems" by (intro bind_param_ok) auto
      fix q2 m2 assume b: "bind_param x q1 m1 = Some (q2, m2)" "query_wf q2" "set m2 \<subseteq> M"
      show "step_ok M B q2 (where_in_loop bt False n xs q2 m2)"
        using "3.prems" b by (intro "3.IH" [OF q1 [symmetric] b(1) refl]) auto
    qed
    with q1 show "step_ok M B q1 (where_in_loop bt first (Suc n) (x # xs) q m)" by simp
  qed
qed simp

lemma where_in_ok:
  assumes "query_wf q" and "call_readable (Where_In f vs n)" and "set m \<subseteq> M"
    and "\<exists>x\<in>set (call_values (Where_In f vs n)). keeps_pointer M x \<Longrightarrow> B"
  shows "step_ok M B q (where_in_body f vs n q m)"
proof (cases "f \<noteq> None \<and> vs \<noteq> None \<and> \<not> (n \<le> 0 \<or> \<not> corm_is_valid_identifier f)")
  case True
  then obtain g xs where g: "f = Some g" "vs = Some xs" "corm_is_valid_identifier (Some g)" by auto
  have xs: "\<forall>x\<in>set xs. value_readable x" "nat n \<le> length xs" "\<exists>x\<in>set xs. keeps_pointer M x \<Longrightarrow> B"
    using assms(2,4) g by (auto simp: call_readable_def)
  obtain q1 m1 where q1: "where_add '' AND '' [g, '' IN (''] q m = (q1, m1)" by fastforce
  have "cstring g" using g(3) valid_identifier_cstring by blast
  with where_add_ok [OF assms(1), of "'' AND ''" "[g, '' IN ('']" m M B] assms(3) q1
  have "step_ok M B q (Some (q1, m1))" by simp
  then show ?thesis
  proof (rule step_ok_then)
    assume w1: "query_wf q1" "set m1 \<subseteq> M"
    have "step_ok M B q1 (case where_in_loop (query_bt q) True (nat n) xs q1 m1 of None \<Rightarrow> None
        | Some (q2, m2) \<Rightarrow> Some (where_app ['')''] q2 m2))"
      by (rule step_ok_bind [OF where_in_loop_ok [OF w1(1) xs(1,2) w1(2) xs(3)]]) (simp_all add: where_app_ok)
    with True g q1 show "step_ok M B q1 (where_in_body f vs n q m)" by (simp add: where_in_body_def)
  qed
next
  case False
  with assms show ?thesis by (cases f; cases vs) (auto simp: where_in_body_def intro: step_ok_same_params)
qed

lemma where_between_ok:
  assumes "query_wf q" and "value_readable a" and "value_readable b" and "set m \<subseteq> M"
    and "keeps_pointer M a \<or> keeps_pointer M b \<Longrightarrow> B"
  shows "step_ok M B q (where_between_body f a b q m)"
proof (cases "corm_is_valid_identifier f")
  case True
  then obtain g where g: "f = Some g" by (cases f) auto
  let ?bt = "query_bt q"
  obtain q1 m1 where q1: "where_add '' AND '' [g, '' BETWEEN '', placeholder ?bt (length (params q))] q m = (q1, m1)" by fastforce
  have "cstring g" using True g valid_identifier_cstring by blast
  with where_add_ok [OF assms(1), of "'' AND ''" "[g, '' BETWEEN '', placeholder ?bt (length (params q))]" m M B] assms(4) q1
  have "step_ok M B q (Some (q1, m1))" by simp
  then show ?thesis
  proof (rule step_ok_then)
    assume w1: "query_wf q1" "set m1 \<subseteq> M"
    have "step_ok M B q1 (case bind_param a q1 m1 of None \<Rightarrow> None
        | Some (q2, m2) \<Rightarrow> (case where_app ['' AND '', placeholder ?bt (length (params q2))] q2 m2 of (q3, m3) \<Rightarrow> bind_param b q3 m3))"
    proof (rule step_ok_bind)
      show "step_ok M B q1 (bind_param a q1 m1)" using w1 assms by (intro bind_param_ok) auto
      fix q2 m2 assume w2: "query_wf q2" "set m2 \<subseteq> M"
      obtain q3 m3 where q3: "where_app ['' AND '', placeholder ?bt (length (params q2))] q2 m2 = (q3, m3)" by fastforce
      with where_app_ok [OF w2(1), of "['' AND '', placeholder ?bt (length (params q2))]" m2 M B] w2(2)
      have "step_ok M B q2 (Some (q3, m3))" by simp
      then have "step_ok M B q2 (bind_param b q3 m3)"
        by (rule step_ok_then) (use assms in \<open>auto intro!: bind_param_ok\<close>)
      with q3 show "step_ok M B q2 (case where_app ['' AND '', placeholder ?bt (length (params q2))] q2 m2 of
          (q3, m3) \<Rightarrow> bind_param b q3 m3)" by simp
    qed
    with True g q1 show "step_ok M B q1 (where_between_body f a b q m)" by (simp add: where_between_body_def)
  qed
next
  case False
  with assms show ?thesis by (cases f) (auto simp: where_between_body_def intro: step_ok_same_params)
qed

lemma set_field_ok:
  assumes "query_wf q" and "value_readable x" and "set m \<subseteq> M" and "keeps_pointer M x \<Longrightarrow> B"
  shows "step_ok M B q (set_field fld x q m)"
proof (cases "corm_is_valid_identifier fld")
  case True
  then obtain f where f: "fld = Some f" by (cases fld) auto
  let ?ss = "(if sb_len (set_clause q) > 0 then ['', ''] else []) @
    [[quote_char (query_bt q)], f, [quote_char (query_bt q)], '' = '', placeholder (query_bt q) (length (params q))]"
  obtain b m1 where b: "sb_app_all ?ss (set_clause q, m) = (b, m1)" by fastforce
  have "sb_wf b" using sb_app_all_wf [of "set_clause q" ?ss m] b assms(1) True f valid_identifier_cstring [of f]
    by (auto simp: query_wf_def)
  moreover have "set m1 \<subseteq> M" using sb_app_all_used [of ?ss "set_clause q" m] b assms(3) by auto
  ultimately have "step_ok M B q (Some (q\<lparr>set_clause := b\<rparr>, m1))"
    using assms(1) by (intro step_ok_same_params) (simp_all add: query_wf_def)
  then have "step_ok M B q (case bind_param x (q\<lparr>set_clause := b\<rparr>) m1 of None \<Rightarrow> None
      | Some (q2, m2) \<Rightarrow> Some (q2\<lparr>qop := CORM_OP_UPDATE\<rparr>, m2))"
  proof (rule step_ok_then)
    assume w: "query_wf (q\<lparr>set_clause := b\<rparr>)" "set m1 \<subseteq> M"
    show "step_ok M B (q\<lparr>set_clause := b\<rparr>) (case bind_param x (q\<lparr>set_clause := b\<rparr>) m1 of None \<Rightarrow> None
      | Some (q2, m2) \<Rightarrow> Some (q2\<lparr>qop := CORM_OP_UPDATE\<rparr>, m2))"
      by (rule step_ok_bind [OF bind_param_ok [OF w(1) assms(2) w(2) assms(4)]])
        (simp_all add: step_ok_same_params query_wf_def)
  qed
  with True f b show ?thesis by (simp add: set_field_def Let_def)
next
  case False
  with assms show ?thesis by (cases fld) (auto simp: set_field_def intro: step_ok_same_params)
qed

text \<open>Only a reset can fault, and only over a parameter that is not the query's own.\<close>

lemma free_params_None: "free_params ps = None \<longleftrightarrow> (\<exists>p\<in>set ps. corm_param_free p = None)"
  by (induction ps) (auto split: option.split)

lemma query_free_None: "corm_query_free (Some q) = None \<longleftrightarrow> (\<exists>p\<in>set (params q). corm_param_free p = None)"
  by (simp add: corm_query_free_def free_params_None [symmetric] split: option.split)

definition call_ok :: "bool set \<Rightarrow> bool \<Rightarrow> 'h corm_query_t \<Rightarrow> ('h corm_query_t option \<times> mem) option \<Rightarrow> bool" where
  "call_ok M B q r \<longleftrightarrow> (\<exists>q' m'. r = Some (Some q', m') \<and> step_ok M B q (Some (q', m')))"

lemma call_ok_on_query: "step_ok M B q (Some (f q m)) \<Longrightarrow> call_ok M B q (Some (on_query f (Some q) m))"
  by (cases "f q m") (simp add: call_ok_def on_query_def)

lemma call_ok_on_query_opt: "step_ok M B q (f q m) \<Longrightarrow> call_ok M B q (on_query_opt f (Some q) m)"
  by (auto simp: call_ok_def on_query_opt_def step_ok_def)

lemma call_ok_pair: "step_ok M B q (Some r) \<Longrightarrow> call_ok M B q (Some (map_prod Some id r))"
  by (cases r) (simp add: call_ok_def)

text \<open>The calls that replace or extend one clause buffer.\<close>

lemma clause_ok:
  assumes "sb_wf b" and "cstring s" and "set m \<subseteq> M"
    and "\<And>b'. sb_wf b' \<Longrightarrow> query_wf (upd b') \<and> qdb (upd b') = qdb q \<and> params (upd b') = params q"
  shows "step_ok M B q (Some (case sb_app b s m of (b', m') \<Rightarrow> (upd b', m')))"
proof -
  obtain b' m' where a: "sb_app b s m = (b', m')" by fastforce
  then have "sb_wf b'" "set m' \<subseteq> M" using sb_app_wf [OF assms(1,2), of m] sb_app_used [of b s m] assms(3) by auto
  with assms(4) [of b'] a show ?thesis by (simp add: step_ok_same_params)
qed

lemma optional_clause_ok:
  assumes "query_wf q" and "sb_wf b" and "\<forall>s\<in>set (case x of None \<Rightarrow> [] | Some s \<Rightarrow> [s]). cstring s" and "set m \<subseteq> M"
    and "\<And>b'. sb_wf b' \<Longrightarrow> query_wf (upd b') \<and> qdb (upd b') = qdb q \<and> params (upd b') = params q"
  shows "step_ok M B q (Some (case x of None \<Rightarrow> (q, m) | Some s \<Rightarrow> (case sb_app b s m of (b', m') \<Rightarrow> (upd b', m'))))"
  using assms(1,3,4) clause_ok [OF assms(2) _ assms(4) assms(5)] by (cases x) (simp_all add: step_ok_same_params)

lemma plain_ok: "query_wf q' \<Longrightarrow> qdb q' = qdb q \<Longrightarrow> params q' = params q \<Longrightarrow> set m \<subseteq> M \<Longrightarrow> call_ok M B q (Some (Some q', m))"
  by (simp add: call_ok_def step_ok_same_params)

lemma builder_step_ok:
  assumes "query_wf q" and "call_readable c" and "set m \<subseteq> M" and "\<exists>x\<in>set (call_values c). keeps_pointer M x \<Longrightarrow> B"
    and "c \<noteq> Reset"
  shows "call_ok M B q (builder_step c q m)"
proof -
  note wf = assms(1)
  have cs: "\<forall>s\<in>set (call_strings c). cstring s" and vs: "\<forall>x\<in>set (call_values c). value_readable x"
    using assms(2) by (auto simp: call_readable_def)
  show ?thesis
  proof (cases c)
    case (Where_In f xs n)
    with where_in_ok [of q f xs n m M B] assms show ?thesis
      by (auto simp: corm_query_where_in_def intro!: call_ok_on_query_opt)
  next
    case (Where_Between f a b)
    with where_between_ok [of q a b m M B f] assms vs show ?thesis
      by (auto simp: corm_query_where_between_def intro!: call_ok_on_query_opt)
  next
    case (Bind x)
    with bind_param_ok [of q x m M B] assms vs show ?thesis
      by (auto simp: corm_query_bind_def intro!: call_ok_on_query_opt)
  next
    case (Set_Field f x)
    with set_field_ok [of q x m M B f] assms vs show ?thesis
      by (auto simp: corm_query_set_def intro!: call_ok_on_query_opt)
  next
    case (Where s)
    with where_add_ok [OF wf, of "'' AND ''" "[s]" m M B] cs assms(3) show ?thesis
      by (auto simp: corm_query_where_def intro!: call_ok_pair)
  next
    case (Or_Where s)
    with where_add_ok [OF wf, of "'' OR ''" "[s]" m M B] cs assms(3) show ?thesis
      by (auto simp: corm_query_or_where_def intro!: call_ok_pair)
  next
    case (Where_Null f)
    have "step_ok M B q (Some (where_null_body f q m))"
      using where_add_ok [OF wf, of "'' AND ''" "[the f, '' IS NULL'']" m M B] valid_identifier_cstring [of "the f"] wf assms(3)
      by (cases f) (auto simp: where_null_body_def intro: step_ok_same_params)
    with Where_Null show ?thesis by (simp add: corm_query_where_null_def call_ok_on_query)
  next
    case (Where_Not_Null f)
    have "step_ok M B q (Some (case f of None \<Rightarrow> (q, m)
       | Some g \<Rightarrow> if \<not> corm_is_valid_identifier f then (q, m) else where_add '' AND '' [g, '' IS NOT NULL''] q m))"
      using where_add_ok [OF wf, of "'' AND ''" "[the f, '' IS NOT NULL'']" m M B] valid_identifier_cstring [of "the f"] wf assms(3)
      by (cases f) (auto intro: step_ok_same_params)
    with Where_Not_Null show ?thesis by (simp add: corm_query_where_not_null_def call_ok_on_query)
  next
    case (Preload r)
    with wf assms(3) show ?thesis
      using length_snprintf_buf [of 64 "the r"]
      by (cases r) (auto simp: corm_query_preload_def call_ok_def query_wf_def intro!: step_ok_same_params)
  next
    case (Select s)
    with wf cs assms(3) show ?thesis
      by (simp add: corm_query_select_def) (intro call_ok_pair clause_ok; simp add: query_wf_def)
  next
    case (Set_Raw s)
    with wf cs assms(3) show ?thesis
      by (simp add: corm_query_set_raw_def) (intro call_ok_pair clause_ok; simp add: query_wf_def)
  next
    case (Join s)
    with wf cs assms(3) show ?thesis
      by (simp add: corm_query_join_def) (intro call_ok_on_query optional_clause_ok; simp add: query_wf_def)
  next
    case (Order s)
    with wf cs assms(3) show ?thesis
      by (simp add: corm_query_order_def) (intro call_ok_on_query optional_clause_ok; simp add: query_wf_def)
  next
    case (Group s)
    with wf cs assms(3) show ?thesis
      by (simp add: corm_query_group_def) (intro call_ok_on_query optional_clause_ok; simp add: query_wf_def)
  next
    case (Having s)
    with wf cs assms(3) show ?thesis
      by (simp add: corm_query_having_def) (intro call_ok_on_query optional_clause_ok; simp add: query_wf_def)
  qed (use wf assms(3,5) in \<open>simp_all add: plain_ok query_wf_def corm_query_op_def corm_query_limit_def corm_query_offset_def
        corm_query_unscoped_def corm_query_distinct_def\<close>)
qed

lemma builder_reset:
  assumes "query_wf q" and "owns B q"
  shows "builder_step Reset q m = None \<and> B \<or>
    builder_step Reset q m = Some (Some (reset_query q), m) \<and> query_wf (reset_query q) \<and> qdb (reset_query q) = qdb q \<and>
      owns B (reset_query q)"
  using assms free_params_None [of "params q"] reset_query_wf [OF assms(1)]
  by (cases "free_params (params q)") (auto simp: corm_query_reset_def reset_query_def owns_def)

lemma builder_run_ok:
  assumes "query_wf q" and "owns B q" and "\<forall>c\<in>set cs. call_readable c" and "set m \<subseteq> M"
    and "\<exists>c\<in>set cs. \<exists>x\<in>set (call_values c). keeps_pointer M x \<Longrightarrow> B"
  shows "case builder_run cs q m of
      Some (q', m') \<Rightarrow> query_wf q' \<and> qdb q' = qdb q \<and> owns B q'
    | None \<Rightarrow> Reset \<in> set cs \<and> B"
  using assms
proof (induction cs arbitrary: q m)
  case (Cons c cs)
  show ?case
  proof (cases "c = Reset \<and> builder_step c q m = None")
    case True
    with builder_reset [OF Cons.prems(1,2), of m] show ?thesis by auto
  next
    case False
    have "\<exists>q' m'. builder_step c q m = Some (Some q', m') \<and> query_wf q' \<and> qdb q' = qdb q \<and> set m' \<subseteq> M \<and> owns B q'"
    proof (cases "c = Reset")
      case True
      with False builder_reset [OF Cons.prems(1,2), of m] Cons.prems(4) show ?thesis by auto
    next
      case False
      with builder_step_ok [of q c m M B] Cons.prems show ?thesis by (auto simp: call_ok_def step_ok_def)
    qed
    then obtain q' m' where q': "builder_step c q m = Some (Some q', m')" "query_wf q'" "qdb q' = qdb q" "set m' \<subseteq> M" "owns B q'"
      by blast
    with Cons.IH [OF q'(2,5) _ q'(4)] Cons.prems show ?thesis by (auto split: option.splits)
  qed
qed simp

section \<open>Effect of the calls with memory available\<close>

text \<open>A value whose blob length is the length of its data.\<close>

definition value_wf :: "corm_value_t \<Rightarrow> bool" where
  "value_wf x \<longleftrightarrow> (case uval x of VBlob (Some d) n \<Rightarrow> length d = n | _ \<Rightarrow> True)"

text \<open>Whether the copy kept for a value is the query's own: all but a blob of length 0.\<close>

definition copied :: "corm_value_t \<Rightarrow> bool" where
  "copied x \<longleftrightarrow> (case uval x of VBlob (Some d) n \<Rightarrow> vtype x = CORM_BLOB \<longrightarrow> 0 < n | _ \<Rightarrow> True)"

definition bound :: "corm_value_t \<Rightarrow> 'h corm_query_t \<Rightarrow> 'h corm_query_t" where
  "bound x q = fst (the (bind_param x q []))"

lemma deep_copy_full:
  "value_wf x \<Longrightarrow> corm_param_deep_copy x [] = Some (\<lparr>pval = x, powned = copied x\<rparr>, [])"
  by (cases "uval x") (auto simp: corm_param_deep_copy_def value_wf_def copied_def split: option.splits if_splits)

lemma bind_full:
  assumes "query_wf q" and "value_wf x"
  shows "bind_param x q [] = Some (bound x q, [])"
    and "\<exists>cap. bound x q = q\<lparr>param_cap := cap, params := params q @ [\<lparr>pval = x, powned = copied x\<rparr>]\<rparr>"
    and "query_wf (bound x q)"
proof -
  from bind_param_cases [OF assms(1), of x "[]"] obtain cap where cap: "length (params q) < cap"
    "bind_param x q [] = (case corm_param_deep_copy x [] of None \<Rightarrow> None
         | Some (p, m2) \<Rightarrow> Some (q\<lparr>param_cap := cap, params := params q @ [p]\<rparr>, m2))" by auto
  then have b: "bind_param x q [] = Some (q\<lparr>param_cap := cap, params := params q @ [\<lparr>pval = x, powned = copied x\<rparr>]\<rparr>, [])"
    by (simp add: deep_copy_full [OF assms(2)])
  then show "bind_param x q [] = Some (bound x q, [])" by (simp add: bound_def)
  from b show "\<exists>cap. bound x q = q\<lparr>param_cap := cap, params := params q @ [\<lparr>pval = x, powned = copied x\<rparr>]\<rparr>"
    by (auto simp: bound_def)
  from b cap(1) assms(1) show "query_wf (bound x q)" by (simp add: bound_def query_wf_def)
qed

lemma bound_simps [simp]:
  assumes "query_wf q" and "value_wf x"
  shows "params (bound x q) = params q @ [\<lparr>pval = x, powned = copied x\<rparr>]" and "where_c (bound x q) = where_c q"
    and "set_clause (bound x q) = set_clause q" and "qdb (bound x q) = qdb q" and "qmodel (bound x q) = qmodel q"
    and "qop (bound x q) = qop q" and "unscoped (bound x q) = unscoped q"
    and "select_cols (bound x q) = select_cols q" and "order_c (bound x q) = order_c q"
    and "group_c (bound x q) = group_c q" and "having_c (bound x q) = having_c q" and "joins (bound x q) = joins q"
    and "limit (bound x q) = limit q" and "offset (bound x q) = offset q"
    and "distinct_rows (bound x q) = distinct_rows q" and "preload_rel (bound x q) = preload_rel q"
  using bind_full(2) [OF assms] by auto

text \<open>The texts of the two clauses that carry placeholders.\<close>

abbreviation wtext :: "'h corm_query_t \<Rightarrow> string" where "wtext q \<equiv> sb_text (where_c q)"
abbreviation stext :: "'h corm_query_t \<Rightarrow> string" where "stext q \<equiv> sb_text (set_clause q)"

definition sep_if :: "string \<Rightarrow> string \<Rightarrow> string" where
  "sep_if sep t = (if t = [] then [] else sep)"

lemma where_add_full:
  assumes "query_wf q" and "cstring sep" and "\<forall>s\<in>set ss. cstring s"
  shows "\<exists>w. where_add sep ss q [] = (q\<lparr>where_c := w\<rparr>, []) \<and> query_wf (q\<lparr>where_c := w\<rparr>) \<and>
    sb_text w = wtext q @ sep_if sep (wtext q) @ concat ss"
  using assms by (auto simp: where_add_def query_wf_def sep_if_def sb_len_zero)

lemma where_app_full:
  assumes "query_wf q" and "\<forall>s\<in>set ss. cstring s"
  shows "\<exists>w. where_app ss q [] = (q\<lparr>where_c := w\<rparr>, []) \<and> query_wf (q\<lparr>where_c := w\<rparr>) \<and>
    sb_text w = wtext q @ concat ss"
  using assms by (auto simp: where_app_def query_wf_def)

text \<open>Two queries agree on everything but the WHERE buffer and the parameters.\<close>

definition same_rest :: "'h corm_query_t \<Rightarrow> 'h corm_query_t \<Rightarrow> bool" where
  "same_rest q q' \<longleftrightarrow>
     qdb q' = qdb q \<and> qmodel q' = qmodel q \<and> qop q' = qop q \<and> select_cols q' = select_cols q \<and>
     order_c q' = order_c q \<and> group_c q' = group_c q \<and> having_c q' = having_c q \<and> joins q' = joins q \<and>
     set_clause q' = set_clause q \<and> limit q' = limit q \<and> offset q' = offset q \<and> unscoped q' = unscoped q \<and>
     distinct_rows q' = distinct_rows q \<and> preload_rel q' = preload_rel q"

lemma same_rest_refl: "same_rest q q"
  by (simp add: same_rest_def)

lemma same_rest_trans: "same_rest q q1 \<Longrightarrow> same_rest q1 q2 \<Longrightarrow> same_rest q q2"
  by (simp add: same_rest_def)

lemma same_rest_where: "same_rest q (q\<lparr>where_c := w\<rparr>)"
  by (simp add: same_rest_def)

lemma same_rest_bound: "query_wf q \<Longrightarrow> value_wf x \<Longrightarrow> same_rest q (bound x q)"
  by (simp add: same_rest_def)

lemma same_rest_bt: "same_rest q q' \<Longrightarrow> query_bt q' = query_bt q"
  by (simp add: same_rest_def query_bt_def)

lemma where_in_loop_full:
  assumes "query_wf q" and "\<forall>x\<in>set xs. value_wf x"
  shows "\<exists>q'. where_in_loop bt first (length xs) xs q [] = Some (q', []) \<and> query_wf q' \<and> same_rest q q' \<and>
    map pval (params q') = map pval (params q) @ xs \<and>
    wtext q' = wtext q @ (if first \<or> xs = [] then [] else '', '') @
      join_with '', '' (map (placeholder bt) [length (params q)..<length (params q) + length xs])"
  using assms
proof (induction xs arbitrary: q first)
  case Nil
  then show ?case by (simp add: same_rest_refl)
next
  case (Cons x xs)
  let ?ss = "(if first then [] else ['', '']) @ [placeholder bt (length (params q))]"
  obtain w where w: "where_app ?ss q [] = (q\<lparr>where_c := w\<rparr>, [])" "query_wf (q\<lparr>where_c := w\<rparr>)"
    "sb_text w = wtext q @ concat ?ss" using where_app_full [OF Cons.prems(1), of ?ss]
    by (cases first) auto
  let ?q1 = "q\<lparr>where_c := w\<rparr>"
  let ?q2 = "bound x ?q1"
  from Cons.prems(2) have x: "value_wf x" and xs: "\<forall>x\<in>set xs. value_wf x" by auto
  note b = bind_full [OF w(2) x]
  from Cons.IH [OF b(3) xs, of False] w(2) x obtain q' where q':
    "where_in_loop bt False (length xs) xs ?q2 [] = Some (q', [])" "query_wf q'" "same_rest ?q2 q'"
    "map pval (params q') = map pval (params q) @ x # xs"
    "wtext q' = sb_text w @ (if xs = [] then [] else '', '') @
      join_with '', '' (map (placeholder bt) [Suc (length (params q))..<Suc (length (params q) + length xs)])"
    by auto
  have r: "where_in_loop bt first (length (x # xs)) (x # xs) q [] = Some (q', [])" using w(1) b(1) q'(1) by simp
  have s: "same_rest q q'"
    using same_rest_trans [OF same_rest_trans [OF same_rest_where same_rest_bound [OF w(2) x]] q'(3)] .
  have upt: "[length (params q)..<length (params q) + length (x # xs)] =
      length (params q) # [Suc (length (params q))..<Suc (length (params q) + length xs)]"
    by (simp add: upt_conv_Cons del: upt_Suc)
  have t: "wtext q' = wtext q @ (if first \<or> x # xs = [] then [] else '', '') @
      join_with '', '' (map (placeholder bt) [length (params q)..<length (params q) + length (x # xs)])"
    unfolding upt using q'(5) w(3) by (cases xs) (simp_all add: join_with_Cons)
  from r q'(2,4) s t show ?case by auto
qed

lemma where_in_full:
  assumes "query_wf q" and "\<forall>x\<in>set xs. value_wf x" and "corm_is_valid_identifier (Some f)" and "xs \<noteq> []"
  shows "\<exists>q'. corm_query_where_in (Some q) (Some f) (Some xs) (int (length xs)) [] = Some (Some q', []) \<and>
    query_wf q' \<and> same_rest q q' \<and> map pval (params q') = map pval (params q) @ xs \<and>
    wtext q' = wtext q @ sep_if '' AND '' (wtext q) @ f @ '' IN ('' @
      join_with '', '' (map (placeholder (query_bt q)) [length (params q)..<length (params q) + length xs]) @ '')''"
proof -
  have "cstring f" using valid_identifier_cstring [OF assms(3)] .
  then obtain w where w: "where_add '' AND '' [f, '' IN (''] q [] = (q\<lparr>where_c := w\<rparr>, [])" "query_wf (q\<lparr>where_c := w\<rparr>)"
    "sb_text w = wtext q @ sep_if '' AND '' (wtext q) @ f @ '' IN (''"
    using where_add_full [OF assms(1), of "'' AND ''" "[f, '' IN ('']"] by auto
  from where_in_loop_full [OF w(2) assms(2), of "query_bt q" True] obtain q2 where q2:
    "where_in_loop (query_bt q) True (length xs) xs (q\<lparr>where_c := w\<rparr>) [] = Some (q2, [])" "query_wf q2"
    "same_rest (q\<lparr>where_c := w\<rparr>) q2" "map pval (params q2) = map pval (params q) @ xs"
    "wtext q2 = sb_text w @ join_with '', '' (map (placeholder (query_bt q)) [length (params q)..<length (params q) + length xs])"
    by auto
  from where_app_full [OF q2(2), of "['')'']"] obtain w3 where w3:
    "where_app ['')''] q2 [] = (q2\<lparr>where_c := w3\<rparr>, [])" "query_wf (q2\<lparr>where_c := w3\<rparr>)" "sb_text w3 = wtext q2 @ '')''"
    by auto
  have "0 < length xs" using assms(4) by simp
  with w(1) q2(1) w3(1) assms(3)
  have "corm_query_where_in (Some q) (Some f) (Some xs) (int (length xs)) [] = Some (Some (q2\<lparr>where_c := w3\<rparr>), [])"
    by (simp add: corm_query_where_in_def where_in_body_def on_query_opt_def)
  moreover have "same_rest q (q2\<lparr>where_c := w3\<rparr>)" using q2(3) by (simp add: same_rest_def)
  ultimately show ?thesis using w3 q2 w(3) by auto
qed

lemma where_between_full:
  assumes "query_wf q" and "value_wf a" and "value_wf b" and "corm_is_valid_identifier (Some f)"
  shows "\<exists>q'. corm_query_where_between (Some q) (Some f) a b [] = Some (Some q', []) \<and>
    query_wf q' \<and> same_rest q q' \<and> map pval (params q') = map pval (params q) @ [a, b] \<and>
    wtext q' = wtext q @ sep_if '' AND '' (wtext q) @ f @ '' BETWEEN '' @
      placeholder (query_bt q) (length (params q)) @ '' AND '' @ placeholder (query_bt q) (Suc (length (params q)))"
proof -
  let ?p = "placeholder (query_bt q)" and ?n = "length (params q)"
  have "cstring f" using valid_identifier_cstring [OF assms(4)] .
  then obtain w where w: "where_add '' AND '' [f, '' BETWEEN '', ?p ?n] q [] = (q\<lparr>where_c := w\<rparr>, [])" "query_wf (q\<lparr>where_c := w\<rparr>)"
    "sb_text w = wtext q @ sep_if '' AND '' (wtext q) @ f @ '' BETWEEN '' @ ?p ?n"
    using where_add_full [OF assms(1), of "'' AND ''" "[f, '' BETWEEN '', ?p ?n]"] by auto
  let ?q2 = "bound a (q\<lparr>where_c := w\<rparr>)"
  note b2 = bind_full [OF w(2) assms(2)]
  from where_app_full [OF b2(3), of "['' AND '', ?p (Suc ?n)]"] w(2) assms(2) obtain w3 where w3:
    "where_app ['' AND '', ?p (Suc ?n)] ?q2 [] = (?q2\<lparr>where_c := w3\<rparr>, [])" "query_wf (?q2\<lparr>where_c := w3\<rparr>)"
    "sb_text w3 = sb_text w @ '' AND '' @ ?p (Suc ?n)" by auto
  note b4 = bind_full [OF w3(2) assms(3)]
  have "corm_query_where_between (Some q) (Some f) a b [] = Some (Some (bound b (?q2\<lparr>where_c := w3\<rparr>)), [])"
    using w b2 w3 b4 assms by (simp add: corm_query_where_between_def where_between_body_def on_query_opt_def)
  moreover have "same_rest q (bound b (?q2\<lparr>where_c := w3\<rparr>))"
    using w(2) w3(2) assms(2,3) by (simp add: same_rest_def)
  ultimately show ?thesis using w b2 w3 b4 assms by auto
qed

lemma set_field_full:
  assumes "query_wf q" and "value_wf x" and "corm_is_valid_identifier (Some f)"
  shows "\<exists>q'. set_field (Some f) x q [] = Some (q', []) \<and> query_wf q' \<and> qdb q' = qdb q \<and> qop q' = CORM_OP_UPDATE \<and>
    qmodel q' = qmodel q \<and> where_c q' = where_c q \<and> map pval (params q') = map pval (params q) @ [x] \<and>
    stext q' = stext q @ sep_if '', '' (stext q) @ [quote_char (query_bt q)] @ f @ [quote_char (query_bt q)] @
      '' = '' @ placeholder (query_bt q) (length (params q))"
proof -
  have cs: "cstring f" using valid_identifier_cstring [OF assms(3)] .
  let ?ss = "(if sb_len (set_clause q) > 0 then ['', ''] else []) @
    [[quote_char (query_bt q)], f, [quote_char (query_bt q)], '' = '', placeholder (query_bt q) (length (params q))]"
  let ?q1 = "q\<lparr>set_clause := sbx ?ss (set_clause q)\<rparr>"
  have all: "\<forall>s\<in>set ?ss. cstring s" using cs by auto
  have wf: "query_wf ?q1" using assms(1) sbx_wf [OF _ all, of "set_clause q"] by (simp add: query_wf_def)
  have sf: "sb_wf (set_clause q)" using assms(1) by (simp add: query_wf_def)
  note b = bind_full [OF wf assms(2)]
  have "set_field (Some f) x q [] = Some ((bound x ?q1)\<lparr>qop := CORM_OP_UPDATE\<rparr>, [])"
    using assms(3) b(1) sb_app_all_sbx [OF sf all] by (simp add: set_field_def Let_def)
  moreover have "query_wf ((bound x ?q1)\<lparr>qop := CORM_OP_UPDATE\<rparr>)" using b(3) by (simp add: query_wf_def)
  moreover have "sb_text (sbx ?ss (set_clause q)) = stext q @ concat ?ss" using sbx_text [OF sf all] .
  ultimately show ?thesis using wf assms(2) by (auto simp: sep_if_def sb_len_zero [OF sf])
qed

section \<open>Placeholders and parameters\<close>

text \<open>On the dialects whose placeholder is a question mark: the marks in the two clauses.\<close>

definition qmarks :: "'h corm_query_t \<Rightarrow> nat" where
  "qmarks q = count_char CHR ''?'' (stext q) + count_char CHR ''?'' (wtext q)"

lemma ident_no_qmark: "corm_is_valid_identifier (Some f) \<Longrightarrow> count_char CHR ''?'' f = 0"
  using valid_identifier_safe [of f "CHR ''?''"] by (simp add: count_notin)

lemma count_sep_if [simp]: "c \<notin> set sep \<Longrightarrow> count_list (sep_if sep t) c = 0"
  by (simp add: sep_if_def count_notin)

lemma count_placeholders:
  "bt \<noteq> CORM_BACKEND_POSTGRES \<Longrightarrow>
     count_char CHR ''?'' (join_with '', '' (map (placeholder bt) [n..<n + k])) = k"
  by (simp add: count_join_with placeholder_qmark comp_def sum_list_triv)

text \<open>The question marks and the parameters a call adds; \<open>None\<close> for calls that erase or replace a
  clause.\<close>

fun call_marks :: "builder_call \<Rightarrow> (nat \<times> nat) option" where
  "call_marks (Where s) = Some (count_char CHR ''?'' s, 0)"
| "call_marks (Or_Where s) = Some (count_char CHR ''?'' s, 0)"
| "call_marks (Bind x) = Some (0, 1)"
| "call_marks (Where_In f vs n) =
     (if corm_is_valid_identifier f \<and> vs \<noteq> None \<and> 0 < n then Some (length (the vs), length (the vs)) else Some (0, 0))"
| "call_marks (Where_Between f a b) = (if corm_is_valid_identifier f then Some (2, 2) else Some (0, 0))"
| "call_marks (Set_Field f x) = (if corm_is_valid_identifier f then Some (1, 1) else Some (0, 0))"
| "call_marks (Set_Raw s) = None"
| "call_marks Reset = None"
| "call_marks _ = Some (0, 0)"

text \<open>The values a call binds are well formed, and an array is passed with its length.\<close>

fun call_values_wf :: "builder_call \<Rightarrow> bool" where
  "call_values_wf (Bind x) = value_wf x"
| "call_values_wf (Where_In f vs n) = (case vs of None \<Rightarrow> True | Some xs \<Rightarrow> list_all value_wf xs \<and> n = int (length xs))"
| "call_values_wf (Where_Between f a b) = (value_wf a \<and> value_wf b)"
| "call_values_wf (Set_Field f x) = value_wf x"
| "call_values_wf _ = True"

text \<open>One call, with memory available.\<close>

definition adds :: "'h corm_query_t \<Rightarrow> ('h corm_query_t option \<times> mem) option \<Rightarrow> nat \<Rightarrow> nat \<Rightarrow> bool" where
  "adds q r a b \<longleftrightarrow> (\<exists>q'. r = Some (Some q', []) \<and> query_wf q' \<and> qdb q' = qdb q \<and> qmarks q' = qmarks q + a \<and> length (params q') = length (params q) + b)"

lemma adds_same:
  "query_wf q' \<Longrightarrow> qdb q' = qdb q \<Longrightarrow> where_c q' = where_c q \<Longrightarrow> set_clause q' = set_clause q \<Longrightarrow> params q' = params q \<Longrightarrow> adds q (Some (Some q', [])) 0 0"
  by (simp add: adds_def qmarks_def)

lemma adds_where:
  assumes "query_wf q" and "cstring sep" and "CHR ''?'' \<notin> set sep" and "\<forall>s\<in>set ss. cstring s"
  shows "adds q (Some (map_prod Some id (where_add sep ss q []))) (count_char CHR ''?'' (concat ss)) 0"
proof -
  from where_add_full [OF assms(1,2,4)] obtain w where
    "where_add sep ss q [] = (q\<lparr>where_c := w\<rparr>, [])" "query_wf (q\<lparr>where_c := w\<rparr>)"
    "sb_text w = wtext q @ sep_if sep (wtext q) @ concat ss" by blast
  with assms(3) show ?thesis by (simp add: adds_def qmarks_def)
qed

lemma on_query_Some: "on_query f (Some q) m = map_prod Some id (f q m)"
  by (simp add: on_query_def split_beta map_prod_def)

lemma on_query_opt_Some: "on_query_opt f (Some q) m = map_option (map_prod Some id) (f q m)"
  by (auto simp: on_query_opt_def split: option.split)

lemma adds_where_in:
  assumes "query_wf q" and "query_bt q \<noteq> CORM_BACKEND_POSTGRES" and "\<forall>x\<in>set xs. value_wf x"
    and "corm_is_valid_identifier (Some f)" and "xs \<noteq> []"
  shows "adds q (corm_query_where_in (Some q) (Some f) (Some xs) (int (length xs)) []) (length xs) (length xs)"
proof -
  from where_in_full [OF assms(1,3,4,5)] obtain q' where q':
    "corm_query_where_in (Some q) (Some f) (Some xs) (int (length xs)) [] = Some (Some q', [])" "query_wf q'" "same_rest q q'"
    "map pval (params q') = map pval (params q) @ xs"
    "wtext q' = wtext q @ sep_if '' AND '' (wtext q) @ f @ '' IN ('' @
      join_with '', '' (map (placeholder (query_bt q)) [length (params q)..<length (params q) + length xs]) @ '')''" by blast
  have "length (params q') = length (params q) + length xs"
    using arg_cong [OF q'(4), of length] by simp
  with q' assms(2) ident_no_qmark [OF assms(4)] show ?thesis
    by (simp add: adds_def qmarks_def same_rest_def count_placeholders del: upt_Suc)
qed

lemma adds_where_between:
  assumes "query_wf q" and "query_bt q \<noteq> CORM_BACKEND_POSTGRES" and "value_wf a" "value_wf b"
    and "corm_is_valid_identifier (Some f)"
  shows "adds q (corm_query_where_between (Some q) (Some f) a b []) 2 2"
proof -
  from where_between_full [OF assms(1,3,4,5)] obtain q' where q':
    "corm_query_where_between (Some q) (Some f) a b [] = Some (Some q', [])" "query_wf q'" "same_rest q q'"
    "map pval (params q') = map pval (params q) @ [a, b]"
    "wtext q' = wtext q @ sep_if '' AND '' (wtext q) @ f @ '' BETWEEN '' @
      placeholder (query_bt q) (length (params q)) @ '' AND '' @ placeholder (query_bt q) (Suc (length (params q)))" by blast
  have "length (params q') = length (params q) + 2" using arg_cong [OF q'(4), of length] by simp
  with q' assms(2) ident_no_qmark [OF assms(5)] show ?thesis
    by (simp add: adds_def qmarks_def same_rest_def placeholder_qmark)
qed

lemma adds_set_field:
  assumes "query_wf q" and "query_bt q \<noteq> CORM_BACKEND_POSTGRES" and "value_wf x"
    and "corm_is_valid_identifier (Some f)"
  shows "adds q (corm_query_set (Some q) (Some f) x []) 1 1"
proof -
  from set_field_full [OF assms(1,3,4)] obtain q' where q':
    "set_field (Some f) x q [] = Some (q', [])" "query_wf q'" "qdb q' = qdb q" "where_c q' = where_c q" "map pval (params q') = map pval (params q) @ [x]"
    "stext q' = stext q @ sep_if '', '' (stext q) @ [quote_char (query_bt q)] @ f @ [quote_char (query_bt q)] @
      '' = '' @ placeholder (query_bt q) (length (params q))" by blast
  have "length (params q') = length (params q) + 1" using arg_cong [OF q'(5), of length] by simp
  with q' assms(2) ident_no_qmark [OF assms(4)] show ?thesis
    by (simp add: adds_def qmarks_def placeholder_qmark corm_query_set_def on_query_opt_Some quote_char_def)
qed

lemma builder_step_marks:
  assumes "query_wf q" and "query_bt q \<noteq> CORM_BACKEND_POSTGRES" and "\<forall>s\<in>set (call_strings c). cstring s"
    and "call_values_wf c" and "call_marks c = Some (a, b)"
  shows "adds q (builder_step c q []) a b"
proof (cases c)
  case (Where s)
  with assms adds_where [of q "'' AND ''" "[s]"] show ?thesis by (simp add: corm_query_where_def)
next
  case (Or_Where s)
  with assms adds_where [of q "'' OR ''" "[s]"] show ?thesis by (simp add: corm_query_or_where_def)
next
  case (Where_Null f)
  show ?thesis
  proof (cases "corm_is_valid_identifier f")
    case True
    then obtain g where g: "f = Some g" "cstring g" "count_char CHR ''?'' g = 0"
      using valid_identifier_cstring ident_no_qmark by (cases f) auto
    with adds_where [of q "'' AND ''" "[g, '' IS NULL'']"] assms True Where_Null show ?thesis
      by (simp add: corm_query_where_null_def where_null_body_def on_query_Some)
  next
    case False
    with assms Where_Null adds_same [of q q] show ?thesis
      by (cases f) (simp_all add: corm_query_where_null_def where_null_body_def on_query_Some)
  qed
next
  case (Where_Not_Null f)
  show ?thesis
  proof (cases "corm_is_valid_identifier f")
    case True
    then obtain g where g: "f = Some g" "cstring g" "count_char CHR ''?'' g = 0"
      using valid_identifier_cstring ident_no_qmark by (cases f) auto
    with adds_where [of q "'' AND ''" "[g, '' IS NOT NULL'']"] assms True Where_Not_Null show ?thesis
      by (simp add: corm_query_where_not_null_def on_query_Some)
  next
    case False
    with assms Where_Not_Null adds_same [of q q] show ?thesis
      by (cases f) (simp_all add: corm_query_where_not_null_def on_query_Some)
  qed
next
  case (Bind x)
  with assms bind_full(1,3) [of q x] show ?thesis
    by (simp add: corm_query_bind_def on_query_opt_Some adds_def qmarks_def)
next
  case (Where_In f vs n)
  show ?thesis
  proof (cases "corm_is_valid_identifier f \<and> vs \<noteq> None \<and> 0 < n")
    case True
    then obtain g xs where g: "f = Some g" "vs = Some xs" by (cases f; cases vs) auto
    with True assms Where_In have xs: "n = int (length xs)" "xs \<noteq> []" "\<forall>x\<in>set xs. value_wf x"
      by (auto simp: list_all_iff)
    have gv: "corm_is_valid_identifier (Some g)" using True g by simp
    have "a = length xs" "b = length xs" using True g assms(5) Where_In by auto
    with adds_where_in [OF assms(1,2) xs(3) gv xs(2)] g xs(1) Where_In show ?thesis by simp
  next
    case False
    with assms Where_In adds_same [of q q] show ?thesis
      by (cases f; cases vs) (auto simp: corm_query_where_in_def where_in_body_def on_query_opt_Some split: if_splits)
  qed
next
  case (Where_Between f x y)
  with assms adds_where_between [OF assms(1,2), of x y "the f"] adds_same [of q q] show ?thesis
    by (cases f) (auto simp: corm_query_where_between_def where_between_body_def on_query_opt_Some split: if_splits)
next
  case (Set_Field f x)
  with assms adds_set_field [OF assms(1,2), of x "the f"] adds_same [of q q] show ?thesis
    by (cases f) (auto simp: corm_query_set_def set_field_def on_query_opt_Some split: if_splits)
qed (use assms in \<open>auto simp: adds_def qmarks_def on_query_Some map_prod_def split_beta corm_query_op_def corm_query_select_def
        corm_query_join_def corm_query_order_def corm_query_group_def corm_query_having_def corm_query_limit_def
        corm_query_offset_def corm_query_unscoped_def corm_query_distinct_def corm_query_preload_def
        query_wf_def length_snprintf_buf split: option.split\<close>)

lemma builder_run_marks:
  assumes "query_wf q" and "query_bt q \<noteq> CORM_BACKEND_POSTGRES"
    and "\<forall>c\<in>set cs. (\<forall>s\<in>set (call_strings c). cstring s) \<and> call_values_wf c \<and> call_marks c \<noteq> None"
  shows "\<exists>q'. builder_run cs q [] = Some (q', []) \<and>
    qmarks q' = qmarks q + sum_list (map (\<lambda>c. fst (the (call_marks c))) cs) \<and>
    length (params q') = length (params q) + sum_list (map (\<lambda>c. snd (the (call_marks c))) cs)"
  using assms
proof (induction cs arbitrary: q)
  case (Cons c cs)
  then obtain a b where ab: "call_marks c = Some (a, b)" by auto
  from builder_step_marks [OF Cons.prems(1,2) _ _ ab] Cons.prems(3) obtain q1 where q1:
    "builder_step c q [] = Some (Some q1, [])" "qmarks q1 = qmarks q + a" "length (params q1) = length (params q) + b"
    and "query_wf q1" "qdb q1 = qdb q" by (auto simp: adds_def)
  with Cons.prems(2,3) have "query_bt q1 \<noteq> CORM_BACKEND_POSTGRES" by (simp add: query_bt_def)
  with Cons.IH [OF \<open>query_wf q1\<close>] Cons.prems(3) q1 ab show ?case by auto
qed simp

section \<open>Properties\<close>

text \<open>(C21) Memory safety of the builder, for every chain of calls and every allocator behaviour: when
  the arguments are what C asks for (strings terminated, blobs with as many bytes as their length says,
  arrays with as many elements as their count says), no call reads out of bounds, every call returns the
  query, all seven clause buffers stay well formed (block, terminator and length agree), the parameters
  never exceed the allocated array, the preload name fits its 64-byte buffer, and the connection does
  not change. Freeing is safe with one exception: a bound blob with data whose length is 0, or whose copy
  could not be allocated, keeps the caller's pointer, and a later reset, or the final release, may then
  free memory that is not the query's own; the chain faults in no other case.\<close>

theorem query_builder_safe:
  assumes "corm_query_new db md m = (Some q, m')" and "\<forall>c\<in>set cs. call_readable c"
  shows "case builder_run cs q m'' of
      Some (q', m3) \<Rightarrow> query_wf q' \<and> qdb q' = db \<and>
        (corm_query_free (Some q') = None \<longrightarrow> (\<exists>c\<in>set cs. \<exists>x\<in>set (call_values c). keeps_pointer (set m'') x))
    | None \<Rightarrow> Reset \<in> set cs \<and> (\<exists>c\<in>set cs. \<exists>x\<in>set (call_values c). keeps_pointer (set m'') x)"
proof -
  let ?B = "\<exists>c\<in>set cs. \<exists>x\<in>set (call_values c). keeps_pointer (set m'') x"
  from query_new_wf [OF assms(1)] have "query_wf q" "owns ?B q" "qdb q = db" by (simp_all add: owns_def)
  with builder_run_ok [of q ?B cs m'' "set m''"] assms(2) show ?thesis
    by (auto simp: query_free_None owns_def split: option.splits)
qed

theorem query_builder_safe_witness:
  "\<exists>q m' q' m3. corm_query_new (Some CORM_BACKEND_SQLITE) sample_model [] = (Some q, m') \<and>
     builder_run [Where ''age > ?'', Bind (mk_value CORM_INT (VI 3)), Reset, Bind (mk_value CORM_BLOB (VBlob (Some [1]) 1)), Limit 5]
       q [True, False] = Some (q', m3) \<and> query_wf q' \<and>
     builder_run [Bind (mk_value CORM_BLOB (VBlob (Some [1]) 0)), Reset] q [] = None \<and>
     builder_run [Bind (mk_value CORM_BLOB (VBlob (Some [1]) 2))] q [] = None"
proof -
  let ?cs = "[Where ''age > ?'', Bind (mk_value CORM_INT (VI 3)), Reset, Bind (mk_value CORM_BLOB (VBlob (Some [1]) 1)), Limit 5]"
  obtain q m' where q: "corm_query_new (Some CORM_BACKEND_SQLITE) sample_model [] = (Some q, m')"
    and p: "params q = []" "param_cap q = 0"
    by (simp add: corm_query_new_def)
  have r: "\<forall>c\<in>set ?cs. call_readable c" by (simp add: call_readable_def value_readable_def mk_value_def)
  have "\<exists>q' m3. builder_run ?cs q [True, False] = Some (q', m3)"
    using p by (auto simp: corm_query_bind_def on_query_opt_def bind_param_def corm_param_deep_copy_def mk_value_def
        corm_query_where_def where_add_def corm_query_reset_def corm_param_free_def corm_query_limit_def
        reset_query_def split: prod.splits)
  then obtain q' m3 where q': "builder_run ?cs q [True, False] = Some (q', m3)" by blast
  with query_builder_safe [OF q r, of "[True, False]"] have "query_wf q'" by simp
  moreover have "builder_run [Bind (mk_value CORM_BLOB (VBlob (Some [1]) 0)), Reset] q [] = None"
    "builder_run [Bind (mk_value CORM_BLOB (VBlob (Some [1]) 2))] q [] = None"
    using p by (simp_all add: corm_query_bind_def on_query_opt_def bind_param_def corm_param_deep_copy_def mk_value_def
        corm_query_reset_def corm_param_free_def)
  ultimately show ?thesis using q q' by blast
qed

text \<open>(C22) On the question-mark dialects placeholders and parameters stay in step: over any chain of
  calls (none of them erasing a clause) the SET and WHERE texts gain exactly the placeholders the
  calls wrote and the parameter list exactly the values bound, so a caller that binds one value per
  question mark of its own conditions ends with as many parameters as placeholders.\<close>

theorem query_placeholders_match_params:
  assumes "corm_query_new db md m = (Some q, m')" and "query_bt q \<noteq> CORM_BACKEND_POSTGRES"
    and "\<forall>c\<in>set cs. (\<forall>s\<in>set (call_strings c). cstring s) \<and> call_values_wf c \<and> call_marks c \<noteq> None"
    and "sum_list (map (\<lambda>c. fst (the (call_marks c))) cs) = sum_list (map (\<lambda>c. snd (the (call_marks c))) cs)"
  shows "\<exists>q'. builder_run cs q [] = Some (q', []) \<and> qmarks q' = length (params q')"
proof -
  from query_new_wf [OF assms(1)] have wf: "query_wf q" and "params q = []" by auto
  moreover have "qmarks q = 0"
    using assms(1) by (auto simp: corm_query_new_def qmarks_def split: prod.splits if_splits)
  ultimately show ?thesis using builder_run_marks [OF wf assms(2,3)] assms(4) by auto
qed

theorem query_placeholders_match_params_witness:
  "\<exists>q m' q'. corm_query_new (Some CORM_BACKEND_MYSQL) sample_model [] = (Some q, m') \<and>
     builder_run [Set_Field (Some ''age'') (mk_value CORM_INT (VI 3)),
           Where_In (Some ''id'') (Some [mk_value CORM_INT (VI 1), mk_value CORM_INT (VI 2)]) 2,
           Or_Where ''age < ?'', Bind (mk_value CORM_INT (VI 9))] q [] = Some (q', []) \<and>
     qmarks q' = length (params q')"
proof -
  let ?cs = "[Set_Field (Some ''age'') (mk_value CORM_INT (VI 3)),
           Where_In (Some ''id'') (Some [mk_value CORM_INT (VI 1), mk_value CORM_INT (VI 2)]) 2,
           Or_Where ''age < ?'', Bind (mk_value CORM_INT (VI 9))]"
  obtain q m' where q: "corm_query_new (Some CORM_BACKEND_MYSQL) sample_model [] = (Some q, m')"
    by (simp add: corm_query_new_def)
  have "query_bt q \<noteq> CORM_BACKEND_POSTGRES" using query_new_wf [OF q] by (simp add: query_bt_def)
  from query_placeholders_match_params [OF q this, of ?cs] q show ?thesis
    by (simp del: builder_run.simps add: value_wf_def mk_value_def ident_char_def less_eq_char_def)
qed

text \<open>\<^verbatim>\<open>corm_query_where_in\<close>: for a valid field and a non-empty array the condition
  \<^verbatim>\<open>field IN (p, ..., p)\<close> is appended behind \<^verbatim>\<open> AND \<close>, its placeholders
  are those of the positions the values take in the parameter list, the values are bound in order,
  and nothing else of the query changes.\<close>

theorem query_where_in_correct:
  assumes "query_wf q" and "\<forall>x\<in>set xs. value_wf x" and "corm_is_valid_identifier (Some f)" and "xs \<noteq> []"
  shows "\<exists>q'. corm_query_where_in (Some q) (Some f) (Some xs) (int (length xs)) [] = Some (Some q', []) \<and>
    query_wf q' \<and> same_rest q q' \<and> map pval (params q') = map pval (params q) @ xs \<and>
    corm_strbuf_cstr (where_c q') = corm_strbuf_cstr (where_c q) @ sep_if '' AND '' (corm_strbuf_cstr (where_c q)) @
      f @ '' IN ('' @
      join_with '', '' (map (placeholder (query_bt q)) [length (params q)..<length (params q) + length xs]) @ '')''"
proof -
  from where_in_full [OF assms] obtain q' where q':
    "corm_query_where_in (Some q) (Some f) (Some xs) (int (length xs)) [] = Some (Some q', [])" "query_wf q'" "same_rest q q'"
    "map pval (params q') = map pval (params q) @ xs"
    "wtext q' = wtext q @ sep_if '' AND '' (wtext q) @ f @ '' IN ('' @
      join_with '', '' (map (placeholder (query_bt q)) [length (params q)..<length (params q) + length xs]) @ '')''" by blast
  moreover have "sb_wf (where_c q)" "sb_wf (where_c q')" using assms(1) q'(2) by (simp_all add: query_wf_def)
  ultimately show ?thesis by (intro exI [of _ q']) (simp add: sb_cstr_text del: upt_Suc)
qed

theorem query_where_in_correct_witness:
  "\<exists>q m' q'. corm_query_new (Some CORM_BACKEND_SQLITE) sample_model [] = (Some q, m') \<and>
     corm_query_where_in (Some q) (Some ''id'') (Some [mk_value CORM_INT (VI 1), mk_value CORM_INT (VI 2)]) 2 [] = Some (Some q', []) \<and>
     corm_strbuf_cstr (where_c q') = ''id IN (?, ?)''"
proof -
  obtain q m' where q: "corm_query_new (Some CORM_BACKEND_SQLITE) sample_model [] = (Some q, m')"
    by (simp add: corm_query_new_def)
  from query_new_wf [OF q] have wf: "query_wf q" "query_bt q = CORM_BACKEND_SQLITE" by (simp_all add: query_bt_def)
  have "corm_strbuf_cstr (where_c q) = []"
    using q by (auto simp: corm_query_new_def corm_strbuf_cstr_def corm_strbuf_init_def)
  with query_where_in_correct [OF wf(1), of "[mk_value CORM_INT (VI 1), mk_value CORM_INT (VI 2)]" "''id''"] wf(2) q
  show ?thesis
    by (auto simp: value_wf_def mk_value_def ident_char_def less_eq_char_def sep_if_def placeholder_qmark upt_rec)
qed

text \<open>Resetting a query whose parameters are its own gives back a new one except for what the code leaves: the texts of all
  clauses are empty, no parameter is left, operation, limit, offset, distinct and preload are at
  their defaults -- but \<open>unscoped\<close> keeps its value, so a reused query still skips the
  soft-delete filter.\<close>

theorem query_reset_forgets_all_but_unscoped:
  assumes "query_wf q" and "\<forall>p\<in>set (params q). corm_param_free p \<noteq> None"
  shows "\<exists>q'. corm_query_reset (Some q) = Some (Some q') \<and> query_wf q' \<and>
    sb_text (select_cols q') = [] \<and> sb_text (where_c q') = [] \<and> sb_text (order_c q') = [] \<and>
    sb_text (group_c q') = [] \<and> sb_text (having_c q') = [] \<and> sb_text (joins q') = [] \<and>
    sb_text (set_clause q') = [] \<and> params q' = [] \<and> qop q' = CORM_OP_SELECT \<and> limit q' = 0 \<and> offset q' = 0 \<and>
    \<not> distinct_rows q' \<and> preload_rel q' = [] \<and> unscoped q' = unscoped q"
proof -
  from assms(2) free_params_None [of "params q"] obtain ps where "free_params (params q) = Some ps" by auto
  with assms(1) reset_query_wf [OF assms(1)] show ?thesis by (simp add: corm_query_reset_def reset_query_def query_wf_def)
qed

theorem query_reset_forgets_all_but_unscoped_witness:
  "\<exists>q m' q'. corm_query_new None sample_model [] = (Some q, m') \<and>
     corm_query_reset (corm_query_unscoped (Some q)) = Some (Some q') \<and> unscoped q' \<and> params q' = []"
proof -
  obtain q m' where q: "corm_query_new None sample_model [] = (Some q, m')"
    by (simp add: corm_query_new_def)
  then have "query_wf (q\<lparr>unscoped := True\<rparr>)" "params (q\<lparr>unscoped := True\<rparr>) = []"
    using query_new_wf [OF q] by (simp_all add: query_wf_def)
  with query_reset_forgets_all_but_unscoped [OF this(1)] q show ?thesis by (auto simp: corm_query_unscoped_def)
qed

text \<open>Ownership of bound parameters: releasing a parameter frees memory the query allocated,
  except exactly when the value is a blob with a data pointer whose length is 0 or whose copy could
  not be allocated -- then the caller's own pointer is freed.\<close>

theorem param_free_foreign_iff:
  "(\<exists>p m'. corm_param_deep_copy x m = Some (p, m') \<and> corm_param_free p = None) \<longleftrightarrow>
     vtype x = CORM_BLOB \<and> (\<exists>d n. uval x = VBlob (Some d) n \<and> (n = 0 \<or> \<not> fst (alloc m)))"
proof (cases "uval x")
  case (VBlob d n)
  then show ?thesis
    by (cases d; cases "alloc m") (auto simp: corm_param_deep_copy_def corm_param_free_def split: if_splits)
next
  case (VS s)
  then show ?thesis
    by (cases s; cases "alloc m") (auto simp: corm_param_deep_copy_def corm_param_free_def split: if_splits)
qed (auto simp: corm_param_deep_copy_def corm_param_free_def split: if_splits)

theorem param_free_foreign_iff_witness:
  "(\<exists>p m'. corm_param_deep_copy (mk_value CORM_BLOB (VBlob (Some [1]) 0)) [] = Some (p, m') \<and> corm_param_free p = None) \<and>
   \<not> (\<exists>p m'. corm_param_deep_copy (mk_value CORM_BLOB (VBlob (Some [1]) 1)) [] = Some (p, m') \<and> corm_param_free p = None)"
  unfolding param_free_foreign_iff by (simp add: mk_value_def)

end
