(* ===== verification/Sql_Builder.thy ===== *)
theory Sql_Builder
  imports Query
begin

text \<open>
  The SQL builder of \<^verbatim>\<open>src/builder.c\<close>: \<^verbatim>\<open>corm_build_sql\<close> and its
  helpers, append by append, on a string buffer and an allocator script. The reference text of a
  query, \<open>sql_of\<close>, is what a reader of the query expects; the lemmas show that the builder
  produces it.
\<close>

section \<open>The builder\<close>

type_synonym bstate = "corm_strbuf_t \<times> mem"

text \<open>The three appends, their return codes ignored.\<close>

definition app :: "string \<Rightarrow> bstate \<Rightarrow> bstate" where
  "app s st = snd (corm_strbuf_append (fst st) s (snd st))"

definition appn :: "string \<Rightarrow> nat \<Rightarrow> bstate \<Rightarrow> bstate" where
  "appn s n st = snd (corm_strbuf_appendn (fst st) s n (snd st))"

definition appf :: "string \<Rightarrow> bstate \<Rightarrow> bstate" where
  "appf s st = snd (corm_strbuf_appendf (fst st) (Some s) (snd st))"

definition qident :: "corm_backend_type_t \<Rightarrow> string \<Rightarrow> bstate \<Rightarrow> bstate" where
  "qident bt name st =
     (let q = corm_dialect_quote bt name; st = app q st; st = app name st in app q st)"

text \<open>The loop of \<^verbatim>\<open>append_with_placeholders\<close>: the state and the next placeholder index.\<close>

function placeholder_loop :: "corm_backend_type_t \<Rightarrow> string \<Rightarrow> nat \<Rightarrow> bstate \<Rightarrow> bstate \<times> nat" where
  "placeholder_loop bt str pi st =
     (if str = [] then (st, pi)
      else (case strchr_split CHR ''?'' str of
              Some (before, rest) \<Rightarrow>
                let st = appn str (length before) st; st = app (placeholder bt pi) st
                in placeholder_loop bt rest (Suc pi) st
            | None \<Rightarrow> (app str st, pi)))"
  by pat_completeness auto
termination
  by (relation "measure (\<lambda>(bt, s, pi, st). length s)") (auto dest: strchr_split_Some(1))

declare placeholder_loop.simps [simp del]

definition append_with_placeholders :: "corm_backend_type_t \<Rightarrow> string \<Rightarrow> nat \<Rightarrow> bstate \<Rightarrow> bstate \<times> nat" where
  "append_with_placeholders bt str start_index st =
     (case placeholder_loop bt str start_index st of (st', pi) \<Rightarrow> (st', pi - start_index))"

text \<open>The loops over the fields of the model.\<close>

fun insert_cols :: "corm_backend_type_t \<Rightarrow> corm_field_t list \<Rightarrow> nat \<Rightarrow> bstate \<Rightarrow> bstate" where
  "insert_cols bt [] count st = st"
| "insert_cols bt (f # fs) count st =
     (if has_flag f CORM_FLAG_AUTOINC then insert_cols bt fs count st
      else let st = (if count > 0 then app '', '' st else st); st = qident bt (field_name f) st
           in insert_cols bt fs (count + 1) st)"

fun insert_vals :: "corm_backend_type_t \<Rightarrow> corm_field_t list \<Rightarrow> nat \<Rightarrow> bstate \<Rightarrow> bstate" where
  "insert_vals bt [] j st = st"
| "insert_vals bt (f # fs) j st =
     (if has_flag f CORM_FLAG_AUTOINC then insert_vals bt fs j st
      else let st = (if j > 0 then app '', '' st else st); st = app (placeholder bt j) st
           in insert_vals bt fs (j + 1) st)"

fun update_cols :: "corm_backend_type_t \<Rightarrow> corm_field_t list \<Rightarrow> nat \<Rightarrow> bstate \<Rightarrow> bstate" where
  "update_cols bt [] count st = st"
| "update_cols bt (f # fs) count st =
     (if has_flag f CORM_FLAG_PRIMARY then update_cols bt fs count st
      else let st = (if count > 0 then app '', '' st else st); st = qident bt (field_name f) st;
               st = app '' = '' st; st = app (placeholder bt count) st
           in update_cols bt fs (count + 1) st)"

definition count_qmarks :: "string \<Rightarrow> nat" where
  "count_qmarks s = foldl (\<lambda>n c. if c = CHR ''?'' then n + 1 else n) 0 s"

definition count_non_primary :: "corm_field_t list \<Rightarrow> nat" where
  "count_non_primary fs = foldl (\<lambda>n f. if \<not> has_flag f CORM_FLAG_PRIMARY then n + 1 else n) 0 fs"

definition build_select :: "'h corm_query_t \<Rightarrow> corm_backend_type_t \<Rightarrow> bstate \<Rightarrow> bstate" where
  "build_select q bt st =
     (let st = app ''SELECT '' st;
          st = (if distinct_rows q then app ''DISTINCT '' st else st);
          st = (if sb_len (select_cols q) > 0 then app (corm_strbuf_cstr (select_cols q)) st else app ''*'' st);
          st = app '' FROM '' st;
          st = qident bt (model_table (qmodel q)) st;
          st = (if sb_len (joins q) > 0 then appf ('' '' @ corm_strbuf_cstr (joins q)) st else st);
          st = (if sb_len (where_c q) > 0 then
                  fst (append_with_placeholders bt (corm_strbuf_cstr (where_c q)) 0 (app '' WHERE '' st)) else st);
          st = (if sb_len (group_c q) > 0 then appf ('' GROUP BY '' @ corm_strbuf_cstr (group_c q)) st else st);
          st = (if sb_len (having_c q) > 0 then appf ('' HAVING '' @ corm_strbuf_cstr (having_c q)) st else st);
          st = (if sb_len (order_c q) > 0 then appf ('' ORDER BY '' @ corm_strbuf_cstr (order_c q)) st else st)
      in if limit q > 0 \<or> offset q > 0 then
           let st = appf ('' LIMIT '' @ dec_int (limit q)) st
           in if offset q > 0 then appf ('' OFFSET '' @ dec_int (offset q)) st else st
         else st)"

definition build_insert :: "'h corm_query_t \<Rightarrow> corm_backend_type_t \<Rightarrow> bstate \<Rightarrow> bstate" where
  "build_insert q bt st =
     (let st = app ''INSERT INTO '' st;
          st = qident bt (model_table (qmodel q)) st;
          st = app '' ('' st;
          st = insert_cols bt (model_fields (qmodel q)) 0 st;
          st = app '') VALUES ('' st;
          st = insert_vals bt (model_fields (qmodel q)) 0 st;
          st = app '')'' st
      in case primary_key (qmodel q) of
           Some pk \<Rightarrow>
             if bt = CORM_BACKEND_POSTGRES then qident bt (field_name pk) (app '' RETURNING '' st) else st
         | None \<Rightarrow> st)"

definition build_update :: "'h corm_query_t \<Rightarrow> corm_backend_type_t \<Rightarrow> bstate \<Rightarrow> bstate" where
  "build_update q bt st =
     (let st = app ''UPDATE '' st;
          st = qident bt (model_table (qmodel q)) st;
          st = app '' SET '' st;
          st = (if sb_len (set_clause q) > 0 then
                  fst (append_with_placeholders bt (corm_strbuf_cstr (set_clause q)) 0 st)
                else update_cols bt (model_fields (qmodel q)) 0 st)
      in if sb_len (where_c q) > 0 then
           let where_offset = (if sb_len (set_clause q) > 0 then count_qmarks (corm_strbuf_cstr (set_clause q))
                               else count_non_primary (model_fields (qmodel q)))
           in fst (append_with_placeholders bt (corm_strbuf_cstr (where_c q)) where_offset (app '' WHERE '' st))
         else st)"

definition build_delete :: "'h corm_query_t \<Rightarrow> corm_backend_type_t \<Rightarrow> bstate \<Rightarrow> bstate" where
  "build_delete q bt st =
     (let st = app ''DELETE FROM '' st;
          st = qident bt (model_table (qmodel q)) st
      in if sb_len (where_c q) > 0 then
           fst (append_with_placeholders bt (corm_strbuf_cstr (where_c q)) 0 (app '' WHERE '' st))
         else st)"

definition corm_build_sql :: "'h corm_query_t \<Rightarrow> bstate \<Rightarrow> corm_backend_type_t \<Rightarrow> corm_err_t \<times> bstate" where
  "corm_build_sql q st bt =
     (case qop q of
        CORM_OP_SELECT \<Rightarrow> (CORM_OK, build_select q bt st)
      | CORM_OP_INSERT \<Rightarrow> (CORM_OK, build_insert q bt st)
      | CORM_OP_UPDATE \<Rightarrow> (CORM_OK, build_update q bt st)
      | CORM_OP_DELETE \<Rightarrow> (CORM_OK, build_delete q bt st))"

section \<open>Appends with memory available\<close>

definition ready :: "bstate \<Rightarrow> bool" where
  "ready st \<longleftrightarrow> sb_wf (fst st) \<and> snd st = []"

abbreviation btext :: "bstate \<Rightarrow> string" where "btext st \<equiv> sb_text (fst st)"

lemma app_ready [simp]:
  assumes "ready st" and "cstring s"
  shows "ready (app s st)" and "btext (app s st) = btext st @ s"
proof -
  obtain sb where st: "st = (sb, [])" "sb_wf sb" using assms(1) by (cases st) (auto simp: ready_def)
  then have "app s st = sb_app sb s []" by (simp add: app_def sb_app_def)
  with st assms(2) show "ready (app s st)" "btext (app s st) = btext st @ s" by (simp_all add: ready_def)
qed

lemma appf_ready [simp]:
  assumes "ready st" and "cstring s"
  shows "ready (appf s st)" and "btext (appf s st) = btext st @ s"
proof -
  have "appf s st = app s st" using assms by (simp add: appf_def app_def ready_def appendf_append)
  with assms show "ready (appf s st)" "btext (appf s st) = btext st @ s" by simp_all
qed

lemma appn_ready [simp]:
  assumes "ready st" and "cstring s" and "n \<le> length s"
  shows "ready (appn s n st)" and "btext (appn s n st) = btext st @ take n s"
proof -
  have "appn s n st = app (take n s) st"
    using assms(3) by (simp add: appn_def app_def corm_strbuf_appendn_def corm_strbuf_append_def Let_def)
  with assms show "ready (appn s n st)" "btext (appn s n st) = btext st @ take n s" by simp_all
qed

definition quoted :: "corm_backend_type_t \<Rightarrow> string \<Rightarrow> string" where
  "quoted bt s = [quote_char bt] @ s @ [quote_char bt]"

lemma qident_ready [simp]:
  assumes "ready st" and "cstring s"
  shows "ready (qident bt s st)" and "btext (qident bt s st) = btext st @ quoted bt s"
  using assms by (simp_all add: qident_def Let_def quoted_def)

lemma cstring_quoted [simp]: "cstring (quoted bt s) = cstring s"
  by (simp add: quoted_def)

section \<open>Placeholder rewriting\<close>

text \<open>The reference: the question marks of a text replaced one by one by numbered placeholders.\<close>

fun subst_marks :: "corm_backend_type_t \<Rightarrow> string \<Rightarrow> nat \<Rightarrow> string" where
  "subst_marks bt [] i = []"
| "subst_marks bt (c # cs) i =
     (if c = CHR ''?'' then placeholder bt i @ subst_marks bt cs (Suc i) else c # subst_marks bt cs i)"

lemma subst_marks_append:
  "subst_marks bt (s @ t) i = subst_marks bt s i @ subst_marks bt t (i + count_char CHR ''?'' s)"
  by (induction s arbitrary: i) auto

lemma subst_marks_none: "CHR ''?'' \<notin> set s \<Longrightarrow> subst_marks bt s i = s"
  by (induction s arbitrary: i) auto

lemma subst_marks_qmark: "bt \<noteq> CORM_BACKEND_POSTGRES \<Longrightarrow> subst_marks bt s i = s"
  by (induction s arbitrary: i) (auto simp: placeholder_qmark)

lemma cstring_subst_marks [simp]: "cstring s \<Longrightarrow> cstring (subst_marks bt s i)"
  by (induction s arbitrary: i) auto

lemma placeholder_loop_full:
  assumes "ready st" and "cstring str"
  shows "\<exists>st'. placeholder_loop bt str i st = (st', i + count_char CHR ''?'' str) \<and> ready st' \<and>
    btext st' = btext st @ subst_marks bt str i"
  using assms
proof (induction "length str" arbitrary: str i st rule: less_induct)
  case less
  show ?case
  proof (cases "strchr_split CHR ''?'' str")
    case None
    then have n: "CHR ''?'' \<notin> set str" by (simp add: strchr_split_None)
    have "placeholder_loop bt str i st = (if str = [] then st else app str st, i)"
      using None by (subst placeholder_loop.simps) simp
    with n less.prems show ?thesis
      by (intro exI [of _ "if str = [] then st else app str st"]) (simp add: subst_marks_none count_notin)
  next
    case (Some x)
    obtain before rest where x: "x = (before, rest)" by (cases x)
    with Some have str: "str = before @ CHR ''?'' # rest" and b: "CHR ''?'' \<notin> set before"
      using strchr_split_Some [of "CHR ''?''" str before rest] by auto
    let ?st = "app (placeholder bt i) (appn str (length before) st)"
    from less.prems str have r: "ready ?st" "btext ?st = btext st @ before @ placeholder bt i" by simp_all
    from str less.prems have "cstring rest" "length rest < length str" by auto
    with less.hyps [OF this(2) r(1) this(1), of "Suc i"] obtain st' where
      "placeholder_loop bt rest (Suc i) ?st = (st', Suc i + count_char CHR ''?'' rest)" "ready st'"
      "btext st' = btext ?st @ subst_marks bt rest (Suc i)" by auto
    moreover have "placeholder_loop bt str i st = placeholder_loop bt rest (Suc i) ?st"
      using Some x str by (subst placeholder_loop.simps) (auto simp: Let_def)
    moreover have "subst_marks bt str i = before @ placeholder bt i @ subst_marks bt rest (Suc i)"
      using b str by (simp add: subst_marks_append subst_marks_none count_notin)
    ultimately show ?thesis using r(2) str b by (auto simp: count_notin)
  qed
qed

lemma append_with_placeholders_full [simp]:
  assumes "ready st" and "cstring str"
  shows "ready (fst (append_with_placeholders bt str i st))"
    and "btext (fst (append_with_placeholders bt str i st)) = btext st @ subst_marks bt str i"
    and "snd (append_with_placeholders bt str i st) = count_char CHR ''?'' str"
  using placeholder_loop_full [OF assms, of bt i] by (auto simp: append_with_placeholders_def)

section \<open>The field loops\<close>

definition insert_fields :: "('h, 'z) corm_model_t_scheme \<Rightarrow> corm_field_t list" where
  "insert_fields m = filter (\<lambda>f. \<not> has_flag f CORM_FLAG_AUTOINC) (model_fields m)"

definition update_fields :: "('h, 'z) corm_model_t_scheme \<Rightarrow> corm_field_t list" where
  "update_fields m = filter (\<lambda>f. \<not> has_flag f CORM_FLAG_PRIMARY) (model_fields m)"

definition assignment :: "corm_backend_type_t \<Rightarrow> corm_field_t \<Rightarrow> nat \<Rightarrow> string" where
  "assignment bt f k = quoted bt (field_name f) @ '' = '' @ placeholder bt k"

text \<open>A list loop that writes \<^verbatim>\<open>, \<close> before every element but the first.\<close>

definition listed :: "nat \<Rightarrow> string list \<Rightarrow> string" where
  "listed n xs = (if n > 0 \<and> xs \<noteq> [] then '', '' else []) @ join_with '', '' xs"

lemma listed_Nil [simp]: "listed n [] = []"
  by (simp add: listed_def)

lemma listed_Cons: "listed n (x # xs) = (if n > 0 then '', '' else []) @ x @ listed (Suc n) xs"
  by (cases xs) (simp_all add: listed_def)

lemma listed_0 [simp]: "listed 0 xs = join_with '', '' xs"
  by (simp add: listed_def)

lemma insert_cols_full:
  assumes "ready st" and "\<forall>f\<in>set fs. cstring (field_name f)"
  shows "ready (insert_cols bt fs n st) \<and>
    btext (insert_cols bt fs n st) =
      btext st @ listed n (map (\<lambda>f. quoted bt (field_name f)) (filter (\<lambda>f. \<not> has_flag f CORM_FLAG_AUTOINC) fs))"
  using assms by (induction bt fs n st rule: insert_cols.induct) (auto simp: Let_def listed_Cons)

lemma insert_vals_full:
  assumes "ready st"
  shows "ready (insert_vals bt fs n st) \<and>
    btext (insert_vals bt fs n st) =
      btext st @ listed n (map (placeholder bt) [n..<n + length (filter (\<lambda>f. \<not> has_flag f CORM_FLAG_AUTOINC) fs)])"
  using assms
  by (induction bt fs n st rule: insert_vals.induct) (auto simp: Let_def listed_Cons upt_conv_Cons simp del: upt_Suc)

lemma update_cols_full:
  assumes "ready st" and "\<forall>f\<in>set fs. cstring (field_name f)"
  shows "ready (update_cols bt fs n st) \<and>
    btext (update_cols bt fs n st) =
      btext st @ listed n (map2 (assignment bt) (filter (\<lambda>f. \<not> has_flag f CORM_FLAG_PRIMARY) fs)
        [n..<n + length (filter (\<lambda>f. \<not> has_flag f CORM_FLAG_PRIMARY) fs)])"
  using assms
  by (induction bt fs n st rule: update_cols.induct)
    (auto simp: Let_def listed_Cons upt_conv_Cons assignment_def simp del: upt_Suc)

lemma count_qmarks_eq: "count_qmarks s = count_char CHR ''?'' s"
proof -
  have "foldl (\<lambda>n c. if c = CHR ''?'' then n + 1 else n) n s = n + count_char CHR ''?'' s" for n
    by (induction s arbitrary: n) auto
  then show ?thesis by (simp add: count_qmarks_def)
qed

lemma count_non_primary_eq: "count_non_primary fs = length (filter (\<lambda>f. \<not> has_flag f CORM_FLAG_PRIMARY) fs)"
proof -
  have "foldl (\<lambda>n f. if \<not> has_flag f CORM_FLAG_PRIMARY then n + 1 else n) n fs =
      n + length (filter (\<lambda>f. \<not> has_flag f CORM_FLAG_PRIMARY) fs)" for n
    by (induction fs arbitrary: n) auto
  then show ?thesis by (simp add: count_non_primary_def)
qed

section \<open>The reference text\<close>

definition clause :: "string \<Rightarrow> string \<Rightarrow> string" where
  "clause kw s = (if s = [] then [] else kw @ s)"

definition limit_text :: "'h corm_query_t \<Rightarrow> string" where
  "limit_text q =
     (if limit q > 0 \<or> offset q > 0 then
        '' LIMIT '' @ dec_int (limit q) @ (if offset q > 0 then '' OFFSET '' @ dec_int (offset q) else [])
      else [])"

definition set_text :: "corm_backend_type_t \<Rightarrow> 'h corm_query_t \<Rightarrow> string" where
  "set_text bt q =
     (if stext q = [] then
        join_with '', '' (map2 (assignment bt) (update_fields (qmodel q)) [0..<length (update_fields (qmodel q))])
      else subst_marks bt (stext q) 0)"

definition set_params :: "'h corm_query_t \<Rightarrow> nat" where
  "set_params q = (if stext q = [] then length (update_fields (qmodel q)) else count_char CHR ''?'' (stext q))"

definition sql_of :: "corm_backend_type_t \<Rightarrow> 'h corm_query_t \<Rightarrow> string" where
  "sql_of bt q =
     (let tb = quoted bt (model_table (qmodel q)) in
      case qop q of
        CORM_OP_SELECT \<Rightarrow>
          ''SELECT '' @ (if distinct_rows q then ''DISTINCT '' else []) @
          (if sb_text (select_cols q) = [] then ''*'' else sb_text (select_cols q)) @ '' FROM '' @ tb @
          clause '' '' (sb_text (joins q)) @ clause '' WHERE '' (subst_marks bt (wtext q) 0) @
          clause '' GROUP BY '' (sb_text (group_c q)) @ clause '' HAVING '' (sb_text (having_c q)) @
          clause '' ORDER BY '' (sb_text (order_c q)) @ limit_text q
      | CORM_OP_INSERT \<Rightarrow>
          ''INSERT INTO '' @ tb @ '' ('' @
          join_with '', '' (map (\<lambda>f. quoted bt (field_name f)) (insert_fields (qmodel q))) @ '') VALUES ('' @
          join_with '', '' (map (placeholder bt) [0..<length (insert_fields (qmodel q))]) @ '')'' @
          (case primary_key (qmodel q) of
             Some pk \<Rightarrow> if bt = CORM_BACKEND_POSTGRES then '' RETURNING '' @ quoted bt (field_name pk) else []
           | None \<Rightarrow> [])
      | CORM_OP_UPDATE \<Rightarrow>
          ''UPDATE '' @ tb @ '' SET '' @ set_text bt q @ clause '' WHERE '' (subst_marks bt (wtext q) (set_params q))
      | CORM_OP_DELETE \<Rightarrow>
          ''DELETE FROM '' @ tb @ clause '' WHERE '' (subst_marks bt (wtext q) 0))"

text \<open>The names the builder writes are C strings; validity of the model gives that.\<close>

definition names_ok :: "('h, 'z) corm_model_t_scheme \<Rightarrow> bool" where
  "names_ok m \<longleftrightarrow> cstring (model_table m) \<and> (\<forall>f\<in>set (model_fields m). cstring (field_name f)) \<and>
     (case primary_key m of Some pk \<Rightarrow> cstring (field_name pk) | None \<Rightarrow> True)"

lemma subst_marks_Nil_iff [simp]: "subst_marks bt s i = [] \<longleftrightarrow> s = []"
  by (cases s) (auto simp: placeholder_def corm_dialect_placeholder_str_def snprintf_buf_def split: corm_backend_type_t.split)

lemmas buffer_texts = sb_len_zero sb_cstr_text sb_text_cstring

text \<open>A step of the builder appends a text.\<close>

definition emits :: "bstate \<Rightarrow> bstate \<Rightarrow> string \<Rightarrow> bool" where
  "emits st st' s \<longleftrightarrow> ready st \<and> ready st' \<and> btext st' = btext st @ s"

lemma emits_trans: "emits st st1 s \<Longrightarrow> emits st1 st2 t \<Longrightarrow> emits st st2 (s @ t)"
  by (simp add: emits_def)

lemma emits_app: "ready st \<Longrightarrow> cstring s \<Longrightarrow> emits st (app s st) s"
  by (simp add: emits_def)

lemma emits_qident: "ready st \<Longrightarrow> cstring s \<Longrightarrow> emits st (qident bt s st) (quoted bt s)"
  by (simp add: emits_def)

lemma emits_clause_appf:
  "ready st \<Longrightarrow> sb_wf b \<Longrightarrow> cstring kw \<Longrightarrow>
     emits st (if sb_len b > 0 then appf (kw @ corm_strbuf_cstr b) st else st) (clause kw (sb_text b))"
  by (simp add: emits_def clause_def buffer_texts)

lemma emits_where:
  "ready st \<Longrightarrow> sb_wf b \<Longrightarrow>
     emits st (if sb_len b > 0 then fst (append_with_placeholders bt (corm_strbuf_cstr b) i (app '' WHERE '' st)) else st)
       (clause '' WHERE '' (subst_marks bt (sb_text b) i))"
  by (simp add: emits_def clause_def buffer_texts)

lemma emits_limit:
  "ready st \<Longrightarrow> emits st (if limit q > 0 \<or> offset q > 0 then
           let st = appf ('' LIMIT '' @ dec_int (limit q)) st
           in if offset q > 0 then appf ('' OFFSET '' @ dec_int (offset q)) st else st
         else st) (limit_text q)"
  by (simp add: emits_def limit_text_def Let_def)

lemma emits_ready: "emits st st' s \<Longrightarrow> ready st'"
  by (simp add: emits_def)

lemma build_select_full:
  assumes "query_wf q" and "names_ok (qmodel q)" and "ready st" and "qop q = CORM_OP_SELECT"
  shows "emits st (build_select q bt st) (sql_of bt q)"
proof -
  from assms(1) have wf: "sb_wf (select_cols q)" "sb_wf (joins q)" "sb_wf (where_c q)" "sb_wf (group_c q)"
    "sb_wf (having_c q)" "sb_wf (order_c q)" by (simp_all add: query_wf_def)
  define a where "a = app ''SELECT '' st"
  have 1: "emits st a ''SELECT ''" unfolding a_def by (rule emits_app) (simp_all add: assms(3))
  define b where "b = (if distinct_rows q then app ''DISTINCT '' a else a)"
  have 2: "emits a b (if distinct_rows q then ''DISTINCT '' else [])"
    using emits_ready [OF 1] by (simp add: b_def emits_def)
  define c where "c = (if sb_len (select_cols q) > 0 then app (corm_strbuf_cstr (select_cols q)) b else app ''*'' b)"
  have 3: "emits b c (if sb_text (select_cols q) = [] then ''*'' else sb_text (select_cols q))"
    using emits_ready [OF 2] wf(1) by (simp add: c_def emits_def buffer_texts)
  define d where "d = qident bt (model_table (qmodel q)) (app '' FROM '' c)"
  have 4: "emits c d ('' FROM '' @ quoted bt (model_table (qmodel q)))"
    using emits_ready [OF 3] assms(2) by (simp add: d_def emits_def names_ok_def)
  define e where "e = (if sb_len (joins q) > 0 then appf ('' '' @ corm_strbuf_cstr (joins q)) d else d)"
  have 5: "emits d e (clause '' '' (sb_text (joins q)))"
    unfolding e_def by (rule emits_clause_appf [OF emits_ready [OF 4] wf(2)]) simp
  define f where "f = (if sb_len (where_c q) > 0 then
      fst (append_with_placeholders bt (corm_strbuf_cstr (where_c q)) 0 (app '' WHERE '' e)) else e)"
  have 6: "emits e f (clause '' WHERE '' (subst_marks bt (wtext q) 0))"
    unfolding f_def by (rule emits_where [OF emits_ready [OF 5] wf(3)])
  define g where "g = (if sb_len (group_c q) > 0 then appf ('' GROUP BY '' @ corm_strbuf_cstr (group_c q)) f else f)"
  have 7: "emits f g (clause '' GROUP BY '' (sb_text (group_c q)))"
    unfolding g_def by (rule emits_clause_appf [OF emits_ready [OF 6] wf(4)]) simp
  define h where "h = (if sb_len (having_c q) > 0 then appf ('' HAVING '' @ corm_strbuf_cstr (having_c q)) g else g)"
  have 8: "emits g h (clause '' HAVING '' (sb_text (having_c q)))"
    unfolding h_def by (rule emits_clause_appf [OF emits_ready [OF 7] wf(5)]) simp
  define k where "k = (if sb_len (order_c q) > 0 then appf ('' ORDER BY '' @ corm_strbuf_cstr (order_c q)) h else h)"
  have 9: "emits h k (clause '' ORDER BY '' (sb_text (order_c q)))"
    unfolding k_def by (rule emits_clause_appf [OF emits_ready [OF 8] wf(6)]) simp
  note all = emits_trans [OF 1 emits_trans [OF 2 emits_trans [OF 3 emits_trans [OF 4 emits_trans [OF 5
    emits_trans [OF 6 emits_trans [OF 7 emits_trans [OF 8 emits_trans [OF 9 emits_limit [OF emits_ready [OF 9], of q]]]]]]]]]]
  have "sql_of bt q = ''SELECT '' @ (if distinct_rows q then ''DISTINCT '' else []) @
      (if sb_text (select_cols q) = [] then ''*'' else sb_text (select_cols q)) @
      ('' FROM '' @ quoted bt (model_table (qmodel q))) @ clause '' '' (sb_text (joins q)) @
      clause '' WHERE '' (subst_marks bt (wtext q) 0) @ clause '' GROUP BY '' (sb_text (group_c q)) @
      clause '' HAVING '' (sb_text (having_c q)) @ clause '' ORDER BY '' (sb_text (order_c q)) @ limit_text q"
    by (simp only: sql_of_def assms(4) Let_def corm_query_op_t.case append_assoc)
  moreover have "build_select q bt st = (if limit q > 0 \<or> offset q > 0 then
           let st = appf ('' LIMIT '' @ dec_int (limit q)) k
           in if offset q > 0 then appf ('' OFFSET '' @ dec_int (offset q)) st else st
         else k)"
    unfolding build_select_def Let_def a_def b_def c_def d_def e_def f_def g_def h_def k_def by (rule refl)
  ultimately show ?thesis using all by (simp only:)
qed

lemma build_insert_full:
  assumes "names_ok (qmodel q)" and "ready st" and "qop q = CORM_OP_INSERT"
  shows "emits st (build_insert q bt st) (sql_of bt q)"
proof -
  define a where "a = app '' ('' (qident bt (model_table (qmodel q)) (app ''INSERT INTO '' st))"
  have 1: "emits st a (''INSERT INTO '' @ quoted bt (model_table (qmodel q)) @ '' ('')"
    using assms by (simp add: a_def emits_def names_ok_def)
  define b where "b = insert_cols bt (model_fields (qmodel q)) 0 a"
  have 2: "emits a b (join_with '', '' (map (\<lambda>f. quoted bt (field_name f)) (insert_fields (qmodel q))))"
    using insert_cols_full [OF emits_ready [OF 1], of "model_fields (qmodel q)" bt 0] assms(1) emits_ready [OF 1]
    by (simp add: names_ok_def insert_fields_def b_def emits_def)
  define c where "c = app '') VALUES ('' b"
  have 3: "emits b c '') VALUES (''" unfolding c_def by (rule emits_app [OF emits_ready [OF 2]]) simp
  define d where "d = insert_vals bt (model_fields (qmodel q)) 0 c"
  have 4: "emits c d (join_with '', '' (map (placeholder bt) [0..<length (insert_fields (qmodel q))]))"
    using insert_vals_full [OF emits_ready [OF 3], of bt "model_fields (qmodel q)" 0] emits_ready [OF 3]
    by (simp add: insert_fields_def d_def emits_def)
  define e where "e = app '')'' d"
  have 5: "emits d e '')''" unfolding e_def by (rule emits_app [OF emits_ready [OF 4]]) simp
  define ret where "ret = (case primary_key (qmodel q) of
      Some pk \<Rightarrow> if bt = CORM_BACKEND_POSTGRES then '' RETURNING '' @ quoted bt (field_name pk) else [] | None \<Rightarrow> [])"
  have b: "build_insert q bt st = (case primary_key (qmodel q) of
      Some pk \<Rightarrow> if bt = CORM_BACKEND_POSTGRES then qident bt (field_name pk) (app '' RETURNING '' e) else e | None \<Rightarrow> e)"
    unfolding build_insert_def Let_def a_def b_def c_def d_def e_def by (rule refl)
  have 6: "emits e (build_insert q bt st) ret"
    unfolding b ret_def using assms(1) emits_ready [OF 5]
    by (cases "primary_key (qmodel q)") (simp_all add: emits_def names_ok_def)
  have "sql_of bt q = (''INSERT INTO '' @ quoted bt (model_table (qmodel q)) @ '' ('') @
      join_with '', '' (map (\<lambda>f. quoted bt (field_name f)) (insert_fields (qmodel q))) @ '') VALUES ('' @
      join_with '', '' (map (placeholder bt) [0..<length (insert_fields (qmodel q))]) @ '')'' @ ret"
    by (simp only: sql_of_def assms(3) Let_def corm_query_op_t.case append_assoc ret_def)
  with emits_trans [OF 1 emits_trans [OF 2 emits_trans [OF 3 emits_trans [OF 4 emits_trans [OF 5 6]]]]]
  show ?thesis by (simp only:)
qed

lemma build_update_full:
  assumes "query_wf q" and "names_ok (qmodel q)" and "ready st" and "qop q = CORM_OP_UPDATE"
  shows "emits st (build_update q bt st) (sql_of bt q)"
proof -
  have s: "sb_wf (set_clause q)" and w: "sb_wf (where_c q)" using assms(1) by (simp_all add: query_wf_def)
  define a where "a = app '' SET '' (qident bt (model_table (qmodel q)) (app ''UPDATE '' st))"
  have 1: "emits st a (''UPDATE '' @ quoted bt (model_table (qmodel q)) @ '' SET '')"
    using assms by (simp add: a_def emits_def names_ok_def)
  define b where "b = (if sb_len (set_clause q) > 0 then fst (append_with_placeholders bt (corm_strbuf_cstr (set_clause q)) 0 a)
    else update_cols bt (model_fields (qmodel q)) 0 a)"
  have 2: "emits a b (set_text bt q)"
    using update_cols_full [OF emits_ready [OF 1], of "model_fields (qmodel q)" bt 0] assms(2) emits_ready [OF 1] s
    by (simp add: b_def names_ok_def set_text_def update_fields_def buffer_texts emits_def)
  have off: "(if sb_len (set_clause q) > 0 then count_qmarks (corm_strbuf_cstr (set_clause q))
      else count_non_primary (model_fields (qmodel q))) = set_params q"
    using s by (simp add: set_params_def count_qmarks_eq count_non_primary_eq update_fields_def buffer_texts)
  have "build_update q bt st = (if sb_len (where_c q) > 0 then
      fst (append_with_placeholders bt (corm_strbuf_cstr (where_c q)) (set_params q) (app '' WHERE '' b)) else b)"
    unfolding build_update_def Let_def off a_def [symmetric] b_def [symmetric] by (rule refl)
  with emits_where [OF emits_ready [OF 2] w, of bt "set_params q"]
  have 3: "emits b (build_update q bt st) (clause '' WHERE '' (subst_marks bt (wtext q) (set_params q)))" by (simp only:)
  have "sql_of bt q = (''UPDATE '' @ quoted bt (model_table (qmodel q)) @ '' SET '') @ set_text bt q @
      clause '' WHERE '' (subst_marks bt (wtext q) (set_params q))"
    by (simp only: sql_of_def assms(4) Let_def corm_query_op_t.case append_assoc)
  with emits_trans [OF 1 emits_trans [OF 2 3]] show ?thesis by (simp only:)
qed

lemma build_delete_full:
  assumes "query_wf q" and "names_ok (qmodel q)" and "ready st" and "qop q = CORM_OP_DELETE"
  shows "emits st (build_delete q bt st) (sql_of bt q)"
proof -
  have w: "sb_wf (where_c q)" using assms(1) by (simp add: query_wf_def)
  define a where "a = qident bt (model_table (qmodel q)) (app ''DELETE FROM '' st)"
  have 1: "emits st a (''DELETE FROM '' @ quoted bt (model_table (qmodel q)))"
    using assms by (simp add: a_def emits_def names_ok_def)
  have "build_delete q bt st = (if sb_len (where_c q) > 0 then
      fst (append_with_placeholders bt (corm_strbuf_cstr (where_c q)) 0 (app '' WHERE '' a)) else a)"
    unfolding build_delete_def Let_def a_def [symmetric] by (rule refl)
  with emits_trans [OF 1 emits_where [OF emits_ready [OF 1] w, of bt 0]] show ?thesis
    by (simp only: sql_of_def assms(4) Let_def corm_query_op_t.case append_assoc)
qed

lemma build_sql_full:
  assumes "query_wf q" and "names_ok (qmodel q)" and "ready st"
  shows "\<exists>st'. corm_build_sql q st bt = (CORM_OK, st') \<and> emits st st' (sql_of bt q)"
  using build_select_full [OF assms] build_insert_full [OF assms(2,3)] build_update_full [OF assms]
    build_delete_full [OF assms]
  by (cases "qop q") (simp_all add: corm_build_sql_def)

lemma valid_names_ok:
  assumes "valid_model m" and "\<forall>pk. primary_key m = Some pk \<longrightarrow> pk \<in> set (model_fields m)"
  shows "names_ok m"
  using assms valid_model_table [OF assms(1)] valid_model_fields [OF assms(1)] valid_identifier_cstring
  by (cases "primary_key m") (auto simp: names_ok_def)

lemma ready_init: "ready (corm_strbuf_init, [])"
  by (simp add: ready_def)

section \<open>Reading an INSERT statement back\<close>

text \<open>A reader of quoted identifiers: the name between two quotes, and the rest.\<close>

definition read_ident :: "corm_backend_type_t \<Rightarrow> string \<Rightarrow> (string \<times> string) option" where
  "read_ident bt s =
     (case s of [] \<Rightarrow> None | c # r \<Rightarrow> if c = quote_char bt then strchr_split (quote_char bt) r else None)"

fun read_idents :: "corm_backend_type_t \<Rightarrow> nat \<Rightarrow> string \<Rightarrow> string list" where
  "read_idents bt 0 s = []"
| "read_idents bt (Suc n) s =
     (case read_ident bt s of
        None \<Rightarrow> []
      | Some (x, rest) \<Rightarrow> x # (if take 2 rest = '', '' then read_idents bt n (drop 2 rest) else []))"

definition read_insert :: "corm_backend_type_t \<Rightarrow> string \<Rightarrow> (string \<times> string list) option" where
  "read_insert bt s =
     (case read_ident bt (drop (length ''INSERT INTO '') s) of
        None \<Rightarrow> None
      | Some (tbl, rest) \<Rightarrow> Some (tbl, read_idents bt (length rest) (drop 2 rest)))"

lemma read_quoted:
  assumes "corm_is_valid_identifier (Some n)"
  shows "read_ident bt (quoted bt n @ rest) = Some (n, rest)"
proof -
  have "quote_char bt \<notin> set n" using valid_identifier_safe [OF assms, of "quote_char bt"] by (auto simp: quote_char_def)
  then show ?thesis by (simp add: read_ident_def quoted_def strchr_split_append)
qed

lemma read_quoted_list:
  assumes "\<forall>n\<in>set ns. corm_is_valid_identifier (Some n)" and "length ns \<le> k" and "take 2 rest \<noteq> '', ''" and "ns \<noteq> []"
  shows "read_idents bt k (join_with '', '' (map (quoted bt) ns) @ rest) = ns"
  using assms
proof (induction ns arbitrary: k)
  case (Cons n ns)
  then obtain k' where k: "k = Suc k'" by (cases k) auto
  show ?case
  proof (cases ns)
    case Nil
    with Cons.prems k read_quoted [of n bt rest] show ?thesis by simp
  next
    case (Cons n' ns')
    let ?r = "join_with '', '' (map (quoted bt) ns) @ rest"
    have "read_ident bt (quoted bt n @ '', '' @ ?r) = Some (n, '', '' @ ?r)" using Cons.prems(1) by (intro read_quoted) simp
    moreover have "read_idents bt k' ?r = ns" using Cons.IH Cons.prems k \<open>ns = n' # ns'\<close> by simp
    ultimately show ?thesis using k \<open>ns = n' # ns'\<close> by (simp add: join_with_Cons)
  qed
qed simp

lemma length_join_ge: "length ns \<le> length (join_with '', '' (map (quoted bt) ns))"
proof (induction ns)
  case (Cons n ns)
  then show ?case by (cases ns) (simp_all add: join_with_Cons quoted_def)
qed simp

lemma read_insert_sql:
  assumes "valid_model (qmodel q)" and "qop q = CORM_OP_INSERT" and "insert_fields (qmodel q) \<noteq> []"
  shows "read_insert bt (sql_of bt q) = Some (model_table (qmodel q), map field_name (insert_fields (qmodel q)))"
proof -
  let ?ns = "map field_name (insert_fields (qmodel q))"
  have ns: "\<forall>n\<in>set ?ns. corm_is_valid_identifier (Some n)"
    using valid_model_fields [OF assms(1)] by (auto simp: insert_fields_def)
  obtain tl where sql: "sql_of bt q = ''INSERT INTO '' @ quoted bt (model_table (qmodel q)) @ '' ('' @
      join_with '', '' (map (quoted bt) ?ns) @ '')'' @ tl"
    using assms(2) by (simp add: sql_of_def Let_def comp_def)
  let ?rest = "'' ('' @ join_with '', '' (map (quoted bt) ?ns) @ '')'' @ tl"
  have 1: "read_ident bt (drop (length ''INSERT INTO '') (sql_of bt q)) = Some (model_table (qmodel q), ?rest)"
    unfolding sql using read_quoted [OF valid_model_table [OF assms(1)], of bt ?rest] by simp
  have "length ?ns \<le> length ?rest" using length_join_ge [of ?ns bt] by simp
  then have "read_idents bt (length ?rest) (join_with '', '' (map (quoted bt) ?ns) @ '')'' @ tl) = ?ns"
    using assms(3) by (intro read_quoted_list [OF ns]) auto
  then have 2: "read_idents bt (length ?rest) (drop 2 ?rest) = ?ns" by simp
  show ?thesis unfolding read_insert_def 1 by (simp only: option.case prod.case 2)
qed

section \<open>Placeholders of a whole statement\<close>

lemma quoted_no_qmark: "corm_is_valid_identifier (Some n) \<Longrightarrow> count_char CHR ''?'' (quoted bt n) = 0"
  by (simp add: quoted_def ident_no_qmark quote_char_def)

lemma update_marks:
  assumes "valid_model (qmodel q)" and "qop q = CORM_OP_UPDATE" and "stext q \<noteq> []" and "bt \<noteq> CORM_BACKEND_POSTGRES"
  shows "count_char CHR ''?'' (sql_of bt q) = qmarks q"
  using assms quoted_no_qmark [OF valid_model_table [OF assms(1)], of bt]
  by (simp add: sql_of_def Let_def set_text_def subst_marks_qmark clause_def qmarks_def)

lemma insert_marks:
  assumes "valid_model (qmodel q)" and "qop q = CORM_OP_INSERT" and "bt \<noteq> CORM_BACKEND_POSTGRES"
  shows "count_char CHR ''?'' (sql_of bt q) = length (insert_fields (qmodel q))"
proof -
  have "count_char CHR ''?'' (quoted bt (field_name f)) = 0" if "f \<in> set (insert_fields (qmodel q))" for f
    using that valid_model_fields [OF assms(1), of f] quoted_no_qmark [of "field_name f" bt] by (simp add: insert_fields_def)
  then have "count_char CHR ''?'' (join_with '', '' (map (\<lambda>f. quoted bt (field_name f)) (insert_fields (qmodel q)))) = 0"
    by (simp add: count_join_with comp_def cong: map_cong)
  moreover have "count_char CHR ''?'' (join_with '', '' (map (placeholder bt) [0..<length (insert_fields (qmodel q))])) =
      length (insert_fields (qmodel q))" using count_placeholders [OF assms(3), of 0] by simp
  ultimately show ?thesis
    using assms quoted_no_qmark [OF valid_model_table [OF assms(1)], of bt]
    by (simp add: sql_of_def Let_def split: option.split)
qed

lemma where_fails_empty:
  assumes "corm_query_new db md m = (Some q, m')" and "s \<noteq> []"
  shows "corm_query_where q s (False # m2) = (q, m2)"
proof -
  have "where_c q = corm_strbuf_init" using assms(1) by (auto simp: corm_query_new_def split: prod.splits if_splits)
  then have "sb_app (where_c q) s (False # m2) = (where_c q, m2)"
    by (simp add: sb_app_def corm_strbuf_append_def corm_strbuf_grow_def corm_strbuf_init_def Let_def)
  then show ?thesis
    using \<open>where_c q = corm_strbuf_init\<close> by (simp add: corm_query_where_def where_add_def sb_app_all_def)
qed

section \<open>Properties\<close>

text \<open>(C1) The builder writes the statement the query describes: for a well-formed query on a model
  whose names are C strings, every operation returns \<open>CORM_OK\<close> and the buffer holds the reference
  text -- clauses in order, identifiers quoted for the dialect, each question mark of the conditions
  replaced by the next numbered placeholder (after those of the SET list), and for an INSERT as many
  placeholders as columns. The text is what the code writes, which two documents describe otherwise: a
  clause given to \<^verbatim>\<open>corm_query_set_raw\<close> has its question marks converted like any other SET clause
  (\<^verbatim>\<open>query.h\<close> says it is kept verbatim), and no statement gets a soft-delete filter here
  (\<^verbatim>\<open>docs/ARCHITECTURE.md\<close>, section 9, says it does): \<^verbatim>\<open>corm_find\<close> puts the filter into
  the WHERE text before the builder runs, and nothing does so for a DELETE.\<close>

theorem build_sql_correct:
  assumes "query_wf q" and "names_ok (qmodel q)"
  shows "\<exists>sb. corm_build_sql q (corm_strbuf_init, []) bt = (CORM_OK, (sb, [])) \<and> corm_strbuf_cstr sb = sql_of bt q"
proof -
  from build_sql_full [OF assms ready_init, of bt] obtain st' where
    st': "corm_build_sql q (corm_strbuf_init, []) bt = (CORM_OK, st')" "emits (corm_strbuf_init, []) st' (sql_of bt q)" by blast
  then have "sb_wf (fst st')" "snd st' = []" "btext st' = sql_of bt q" by (simp_all add: emits_def ready_def)
  with st'(1) show ?thesis by (cases st') (simp add: sb_cstr_text)
qed

definition sample_query :: "corm_query_op_t \<Rightarrow> unit corm_query_t" where
  "sample_query op = \<lparr>qdb = Some CORM_BACKEND_POSTGRES, qmodel = sample_model, qop = op,
     select_cols = corm_strbuf_init, where_c = sbx [''age > ?''] corm_strbuf_init, order_c = corm_strbuf_init,
     group_c = corm_strbuf_init, having_c = corm_strbuf_init, joins = corm_strbuf_init, set_clause = corm_strbuf_init,
     params = [], param_cap = 0, limit = 0, offset = 0, unscoped = False, distinct_rows = False, preload_rel = []\<rparr>"

lemma sample_query_ok: "query_wf (sample_query op)" "names_ok (qmodel (sample_query op))"
  "valid_model (qmodel (sample_query op))" "qop (sample_query op) = op" "wtext (sample_query op) = ''age > ?''"
  "insert_fields (qmodel (sample_query op)) =
     [\<lparr>fname = Some ''age'', ftype = CORM_INT, foffset = 4, fsize = 4, fflags = 0, default_value = None, fk_ref = None\<rparr>]"
  "model_table (qmodel (sample_query op)) = ''users''"
  by (simp_all add: sample_query_def query_wf_def names_ok_def sample_valid)
    (simp_all add: sample_model_def model_fields_def field_name_def model_table_def insert_fields_def has_flag_def CORM_FLAG_AUTOINC_def)

theorem build_sql_correct_witness:
  "\<exists>sb. corm_build_sql (sample_query CORM_OP_DELETE) (corm_strbuf_init, []) CORM_BACKEND_MYSQL = (CORM_OK, (sb, [])) \<and>
     corm_strbuf_cstr sb = ''DELETE FROM '' @ [CHR 0x60] @ ''users'' @ [CHR 0x60] @ '' WHERE age > ?''"
proof -
  have "sql_of CORM_BACKEND_MYSQL (sample_query CORM_OP_DELETE) =
      ''DELETE FROM '' @ [CHR 0x60] @ ''users'' @ [CHR 0x60] @ '' WHERE age > ?''"
    by (simp add: sql_of_def Let_def sample_query_ok clause_def placeholder_qmark quoted_def quote_char_def)
  with build_sql_correct [OF sample_query_ok(1,2), of CORM_OP_DELETE CORM_BACKEND_MYSQL] show ?thesis by (simp only:)
qed

text \<open>(C24) An INSERT statement names exactly the columns of the model that are not auto-incremented,
  and can be read back: for a valid model, the table and the column names are recovered in order
  from the text, so no name can break out of its quotes.\<close>

theorem insert_statement_roundtrip:
  assumes "valid_model (qmodel q)" and "qop q = CORM_OP_INSERT" and "insert_fields (qmodel q) \<noteq> []"
    and "query_wf q" and "names_ok (qmodel q)"
  shows "\<exists>sb. corm_build_sql q (corm_strbuf_init, []) bt = (CORM_OK, (sb, [])) \<and>
    read_insert bt (corm_strbuf_cstr sb) = Some (model_table (qmodel q), map field_name (insert_fields (qmodel q)))"
proof -
  from build_sql_full [OF assms(4,5) ready_init, of bt] obtain st' where
    st': "corm_build_sql q (corm_strbuf_init, []) bt = (CORM_OK, st')" "emits (corm_strbuf_init, []) st' (sql_of bt q)" by blast
  then have "sb_wf (fst st')" "snd st' = []" "btext st' = sql_of bt q" by (simp_all add: emits_def ready_def)
  with st'(1) read_insert_sql [OF assms(1-3), of bt] show ?thesis by (cases st') (simp add: sb_cstr_text)
qed

theorem insert_statement_roundtrip_witness:
  "\<exists>sb. corm_build_sql (sample_query CORM_OP_INSERT) (corm_strbuf_init, []) CORM_BACKEND_SQLITE = (CORM_OK, (sb, [])) \<and>
     read_insert CORM_BACKEND_SQLITE (corm_strbuf_cstr sb) = Some (''users'', [''age''])"
  using insert_statement_roundtrip [OF sample_query_ok(3,4) _ sample_query_ok(1,2), of CORM_BACKEND_SQLITE]
  by (simp add: sample_query_ok field_name_def)

text \<open>On the question-mark dialects the placeholders of a statement are the parameters: an UPDATE
  with a SET clause has exactly the question marks of its SET and WHERE clauses, an INSERT one per
  inserted column.\<close>

theorem statement_placeholders:
  assumes "valid_model (qmodel q)" and "bt \<noteq> CORM_BACKEND_POSTGRES" and "query_wf q" and "names_ok (qmodel q)"
  shows "\<exists>sb. corm_build_sql q (corm_strbuf_init, []) bt = (CORM_OK, (sb, [])) \<and>
    (qop q = CORM_OP_UPDATE \<and> stext q \<noteq> [] \<longrightarrow> count_char CHR ''?'' (corm_strbuf_cstr sb) = qmarks q) \<and>
    (qop q = CORM_OP_INSERT \<longrightarrow> count_char CHR ''?'' (corm_strbuf_cstr sb) = length (insert_fields (qmodel q)))"
proof -
  from build_sql_full [OF assms(3,4) ready_init, of bt] obtain st' where
    st': "corm_build_sql q (corm_strbuf_init, []) bt = (CORM_OK, st')" "emits (corm_strbuf_init, []) st' (sql_of bt q)" by blast
  then have "sb_wf (fst st')" "snd st' = []" "btext st' = sql_of bt q" by (simp_all add: emits_def ready_def)
  with st'(1) update_marks [OF assms(1) _ _ assms(2)] insert_marks [OF assms(1) _ assms(2)] show ?thesis
    by (cases st') (simp add: sb_cstr_text)
qed

theorem statement_placeholders_witness:
  "\<exists>sb. corm_build_sql (sample_query CORM_OP_INSERT) (corm_strbuf_init, []) CORM_BACKEND_MYSQL = (CORM_OK, (sb, [])) \<and>
     count_char CHR ''?'' (corm_strbuf_cstr sb) = 1"
  using statement_placeholders [OF sample_query_ok(3), of CORM_BACKEND_MYSQL CORM_OP_INSERT] sample_query_ok [of CORM_OP_INSERT]
  by auto

text \<open>(C32) On PostgreSQL an UPDATE whose SET clause was written by \<^verbatim>\<open>corm_query_set\<close> numbers
  its WHERE placeholders from \<^verbatim>\<open>$1\<close> again: the SET clause already holds \<^verbatim>\<open>$n\<close>
  and no question mark, so the offset computed for the WHERE clause is 0 however many values the SET
  clause bound. The condition reads the parameter of the first assignment.\<close>

theorem postgres_update_where_restarts:
  assumes "query_wf q" and "names_ok (qmodel q)" and "qop q = CORM_OP_UPDATE"
    and "stext q \<noteq> []" and "CHR ''?'' \<notin> set (stext q)" and "wtext q = f @ '' = ?''" and "CHR ''?'' \<notin> set f"
  shows "\<exists>sb. corm_build_sql q (corm_strbuf_init, []) CORM_BACKEND_POSTGRES = (CORM_OK, (sb, [])) \<and>
    corm_strbuf_cstr sb = ''UPDATE '' @ quoted CORM_BACKEND_POSTGRES (model_table (qmodel q)) @ '' SET '' @ stext q @
      '' WHERE '' @ f @ '' = $1''"
proof -
  from build_sql_full [OF assms(1,2) ready_init, of CORM_BACKEND_POSTGRES] obtain st' where
    st': "corm_build_sql q (corm_strbuf_init, []) CORM_BACKEND_POSTGRES = (CORM_OK, st')"
      "emits (corm_strbuf_init, []) st' (sql_of CORM_BACKEND_POSTGRES q)" by blast
  then have r: "sb_wf (fst st')" "snd st' = []" "btext st' = sql_of CORM_BACKEND_POSTGRES q"
    by (simp_all add: emits_def ready_def)
  have "subst_marks CORM_BACKEND_POSTGRES (wtext q) 0 = f @ '' = $1''"
    using assms(7) unfolding assms(6)
    by (simp add: subst_marks_append subst_marks_none count_notin placeholder_postgres dec_nat.simps digit_char_def)
  then have "sql_of CORM_BACKEND_POSTGRES q = ''UPDATE '' @ quoted CORM_BACKEND_POSTGRES (model_table (qmodel q)) @ '' SET '' @ stext q @
      '' WHERE '' @ f @ '' = $1''"
    using assms(3,4,5) by (simp add: sql_of_def Let_def set_text_def set_params_def subst_marks_none count_notin clause_def)
  with st'(1) r show ?thesis by (cases st') (simp add: sb_cstr_text)
qed

theorem postgres_update_where_restarts_witness:
  "\<exists>q q1 q2 m' sb. corm_query_new (Some CORM_BACKEND_POSTGRES) sample_model [] = (Some q, m') \<and>
     corm_query_set (Some q) (Some ''age'') (mk_value CORM_INT (VI 30)) [] = Some (Some q1, []) \<and>
     corm_query_where q1 ''id = ?'' [] = (q2, []) \<and>
     corm_build_sql q2 (corm_strbuf_init, []) CORM_BACKEND_POSTGRES = (CORM_OK, (sb, [])) \<and>
     corm_strbuf_cstr sb = ''UPDATE '' @ quoted CORM_BACKEND_POSTGRES ''users'' @ '' SET '' @
       quoted CORM_BACKEND_POSTGRES ''age'' @ '' = $1 WHERE id = $1''"
proof -
  obtain q m' where q: "corm_query_new (Some CORM_BACKEND_POSTGRES) sample_model [] = (Some q, m')"
    by (simp add: corm_query_new_def)
  note n = query_new_wf [OF q]
  have bt: "query_bt q = CORM_BACKEND_POSTGRES" using n by (simp add: query_bt_def)
  have e: "stext q = []" "wtext q = []" using q by (auto simp: corm_query_new_def)
  have v: "value_wf (mk_value CORM_INT (VI 30))" "corm_is_valid_identifier (Some ''age'')"
    by (simp_all add: value_wf_def mk_value_def ident_char_def less_eq_char_def)
  from set_field_full [OF conjunct1 [OF n] v] obtain q1 where q1: "set_field (Some ''age'') (mk_value CORM_INT (VI 30)) q [] = Some (q1, [])"
    "query_wf q1" "qop q1 = CORM_OP_UPDATE" "qmodel q1 = qmodel q" "where_c q1 = where_c q"
    "stext q1 = quoted CORM_BACKEND_POSTGRES ''age'' @ '' = '' @ placeholder CORM_BACKEND_POSTGRES 0"
    using n bt e by (auto simp: sep_if_def quoted_def)
  have s1: "stext q1 = quoted CORM_BACKEND_POSTGRES ''age'' @ '' = $1''"
    unfolding q1(6) by (simp add: placeholder_postgres dec_nat.simps digit_char_def)
  from where_add_full [OF q1(2), of "'' AND ''" "[''id = ?'']"] obtain w where
    w: "corm_query_where q1 ''id = ?'' [] = (q1\<lparr>where_c := w\<rparr>, [])" "query_wf (q1\<lparr>where_c := w\<rparr>)" "sb_text w = ''id = ?''"
    using q1(5) e by (auto simp: corm_query_where_def sep_if_def)
  have m: "qmodel q1 = sample_model" using q1(4) n by simp
  have nm: "names_ok sample_model" using sample_query_ok(2) by (simp add: sample_query_def)
  have sw: "stext (q1\<lparr>where_c := w\<rparr>) \<noteq> []" "CHR ''?'' \<notin> set (stext (q1\<lparr>where_c := w\<rparr>))"
    "wtext (q1\<lparr>where_c := w\<rparr>) = ''id'' @ '' = ?''" "CHR ''?'' \<notin> set ''id''"
    using s1 w(3) by (simp_all add: quoted_def quote_char_def)
  have "\<exists>sb. corm_build_sql (q1\<lparr>where_c := w\<rparr>) (corm_strbuf_init, []) CORM_BACKEND_POSTGRES = (CORM_OK, (sb, [])) \<and>
    corm_strbuf_cstr sb = ''UPDATE '' @ quoted CORM_BACKEND_POSTGRES ''users'' @ '' SET '' @
       quoted CORM_BACKEND_POSTGRES ''age'' @ '' = $1 WHERE id = $1''"
    using postgres_update_where_restarts [OF w(2) _ _ sw] m nm q1(3) s1
    by (simp add: sample_model_def model_table_def)
  with q q1(1) w(1) show ?thesis by (auto simp: corm_query_set_def on_query_opt_Some)
qed

text \<open>(C33) Appends whose failure is ignored can widen a statement: when the first allocation of
  \<^verbatim>\<open>corm_query_where\<close> fails, the condition is lost without any error, and a DELETE built
  afterwards has no WHERE clause and covers the whole table.\<close>

theorem lost_condition_deletes_all:
  assumes "corm_query_new db md m = (Some q, m')" and "s \<noteq> []" and "names_ok md"
  shows "corm_query_where q s (False # m2) = (q, m2) \<and>
    (\<exists>sb. corm_build_sql (corm_query_op q CORM_OP_DELETE) (corm_strbuf_init, []) bt = (CORM_OK, (sb, [])) \<and>
       corm_strbuf_cstr sb = ''DELETE FROM '' @ quoted bt (model_table md))"
proof -
  let ?q = "corm_query_op q CORM_OP_DELETE"
  note n = query_new_wf [OF assms(1)]
  have wf: "query_wf ?q" "names_ok (qmodel ?q)" using n assms(3) by (simp_all add: query_wf_def corm_query_op_def)
  have "wtext ?q = []" using assms(1) by (auto simp: corm_query_new_def corm_query_op_def split: prod.splits if_splits)
  then have sql: "sql_of bt ?q = ''DELETE FROM '' @ quoted bt (model_table md)"
    using n by (simp add: sql_of_def Let_def clause_def corm_query_op_def)
  from build_sql_full [OF wf ready_init, of bt] obtain st' where
    st': "corm_build_sql ?q (corm_strbuf_init, []) bt = (CORM_OK, st')" "emits (corm_strbuf_init, []) st' (sql_of bt ?q)" by blast
  then have "sb_wf (fst st')" "snd st' = []" "btext st' = sql_of bt ?q" by (simp_all add: emits_def ready_def)
  with st'(1) sql where_fails_empty [OF assms(1,2)] show ?thesis by (cases st') (simp add: sb_cstr_text)
qed

theorem lost_condition_deletes_all_witness:
  "\<exists>q m'. corm_query_new None sample_model [] = (Some q, m') \<and> corm_query_where q ''id = ?'' [False] = (q, []) \<and>
     (\<exists>sb. corm_build_sql (corm_query_op q CORM_OP_DELETE) (corm_strbuf_init, []) CORM_BACKEND_SQLITE = (CORM_OK, (sb, [])) \<and>
       corm_strbuf_cstr sb = ''DELETE FROM '' @ quoted CORM_BACKEND_SQLITE ''users'')"
proof -
  obtain q m' where q: "corm_query_new None sample_model [] = (Some q, m')" by (simp add: corm_query_new_def)
  have "names_ok sample_model" using sample_query_ok(2) by (simp add: sample_query_def)
  from lost_condition_deletes_all [OF q _ this, of "''id = ?''" "[]" CORM_BACKEND_SQLITE] q show ?thesis
    by (simp add: sample_model_def model_table_def)
qed

end
