(* ===== verification/Stmt_Cache.thy ===== *)
theory Stmt_Cache
  imports Corm_Prelude
begin

text \<open>
  The prepared-statement cache of \<^verbatim>\<open>src/internal/stmt_cache.c\<close>, at the level of
  its doubly linked list: a heap of entries with \<^verbatim>\<open>prev\<close> and
  \<^verbatim>\<open>next\<close> pointers, updated assignment by assignment. An operation that would
  follow a dangling pointer or not return has the value \<open>None\<close>. The abstract cache is a list of
  (SQL, statement) pairs, most recently used first; the refinement lemmas show that on every
  state the operations build, each of them returns and acts on that list.

  Each operation runs under the cache's mutex, so it is one atomic step here.
\<close>

section \<open>State\<close>

text \<open>Addresses of entries are numbers; a pointer is \<open>None\<close> for NULL.\<close>

type_synonym addr = nat

record 's corm_stmt_entry_t =
  e_sql :: string
  e_stmt :: 's
  e_prev :: "addr option"
  e_next :: "addr option"

type_synonym 's entry_heap = "addr \<rightharpoonup> 's corm_stmt_entry_t"

text \<open>\<open>entry_destroy_fn\<close> records whether a destructor is installed; \<open>fresh\<close> is the next address
  \<^verbatim>\<open>calloc\<close> hands out.\<close>

record 's corm_stmt_cache_t =
  capacity :: nat
  csize :: nat
  head :: "addr option"
  tail :: "addr option"
  entry_destroy_fn :: bool
  heap :: "'s entry_heap"
  fresh :: addr

section \<open>Operations\<close>

definition corm_stmt_cache_create :: "nat \<Rightarrow> mem \<Rightarrow> (corm_err_t + 's corm_stmt_cache_t) \<times> mem" where
  "corm_stmt_cache_create cap m =
     (if cap = 0 then (Inl CORM_ERR_NULL, m)
      else let (ok, m') = alloc m in
        if \<not> ok then (Inl CORM_ERR_NOMEM, m')
        else (Inr \<lparr>capacity = cap, csize = 0, head = None, tail = None, entry_destroy_fn = False,
                   heap = Map.empty, fresh = 0\<rparr>, m'))"

text \<open>The walk \<^verbatim>\<open>while (curr) { if (strcmp(..) == 0) ..; curr = curr->next; }\<close>.\<close>

partial_function (option) find_entry ::
  "'s entry_heap \<Rightarrow> addr option \<Rightarrow> string \<Rightarrow> addr option option" where
  "find_entry h p sql =
     (case p of
        None \<Rightarrow> Some None
      | Some a \<Rightarrow>
          (case h a of
             None \<Rightarrow> None
           | Some e \<Rightarrow> if e_sql e = sql then Some (Some a) else find_entry h (e_next e) sql))"

declare find_entry.simps [code]

text \<open>A guarded pointer assignment \<^verbatim>\<open>if (p) p->field = ...\<close>.\<close>

definition assign :: "'s entry_heap \<Rightarrow> addr option \<Rightarrow> ('s corm_stmt_entry_t \<Rightarrow> 's corm_stmt_entry_t) \<Rightarrow> 's entry_heap" where
  "assign h p f = (case p of None \<Rightarrow> h | Some a \<Rightarrow> h(a := map_option f (h a)))"

definition unlink :: "'s entry_heap \<Rightarrow> 's corm_stmt_entry_t \<Rightarrow> 's entry_heap" where
  "unlink h e =
     (let h1 = assign h (e_prev e) (\<lambda>x. x\<lparr>e_next := e_next e\<rparr>)
      in assign h1 (e_next e) (\<lambda>x. x\<lparr>e_prev := e_prev e\<rparr>))"

definition corm_stmt_cache_get_unlocked ::
  "'s corm_stmt_cache_t \<Rightarrow> string \<Rightarrow> ('s option \<times> 's corm_stmt_cache_t) option" where
  "corm_stmt_cache_get_unlocked c sql =
     (case find_entry (heap c) (head c) sql of
        None \<Rightarrow> None
      | Some None \<Rightarrow> Some (None, c)
      | Some (Some a) \<Rightarrow>
          (case heap c a of
             None \<Rightarrow> None
           | Some e \<Rightarrow>
               if Some a \<noteq> head c then
                 let h2 = unlink (heap c) e;
                     t2 = (if Some a = tail c then e_prev e else tail c);
                     h3 = assign h2 (Some a) (\<lambda>x. x\<lparr>e_next := head c, e_prev := None\<rparr>);
                     h4 = assign h3 (head c) (\<lambda>x. x\<lparr>e_prev := Some a\<rparr>)
                 in Some (Some (e_stmt e), c\<lparr>heap := h4, tail := t2, head := Some a\<rparr>)
               else Some (Some (e_stmt e), c)))"

text \<open>The NULL checks of the exported functions: a NULL cache or SQL text does nothing.\<close>

definition corm_stmt_cache_get ::
  "'s corm_stmt_cache_t option \<Rightarrow> string option \<Rightarrow> ('s option \<times> 's corm_stmt_cache_t option) option" where
  "corm_stmt_cache_get cache sql =
     (case (cache, sql) of
        (Some c, Some s) \<Rightarrow> map_option (\<lambda>(r, c'). (r, Some c')) (corm_stmt_cache_get_unlocked c s)
      | _ \<Rightarrow> Some (None, cache))"

text \<open>Eviction of the tail, with the statements handed to the destructor.\<close>

definition evict_tail :: "'s corm_stmt_cache_t \<Rightarrow> ('s list \<times> 's corm_stmt_cache_t) option" where
  "evict_tail c =
     (case tail c of
        None \<Rightarrow> Some ([], c)
      | Some t \<Rightarrow>
          (case heap c t of
             None \<Rightarrow> None
           | Some ev \<Rightarrow>
               let h1 = assign (heap c) (e_prev ev) (\<lambda>x. x\<lparr>e_next := None\<rparr>);
                   hd1 = (if head c = Some t then None else head c)
               in Some (if entry_destroy_fn c then [e_stmt ev] else [],
                        c\<lparr>heap := h1(t := None), tail := e_prev ev, head := hd1, csize := csize c - 1\<rparr>)))"

definition corm_stmt_cache_put ::
  "'s corm_stmt_cache_t option \<Rightarrow> string option \<Rightarrow> 's option \<Rightarrow> mem \<Rightarrow>
     (corm_err_t \<times> 's list \<times> 's corm_stmt_cache_t option \<times> mem) option" where
  "corm_stmt_cache_put cache sql stmt m =
     (case (cache, sql, stmt) of
        (Some c, Some s, Some st) \<Rightarrow>
          (case corm_stmt_cache_get_unlocked c s of
             None \<Rightarrow> None
           | Some (Some existing, c1) \<Rightarrow> Some (CORM_OK, [], Some c1, m)
           | Some (None, c1) \<Rightarrow>
               (case (if csize c1 \<ge> capacity c1 then evict_tail c1 else Some ([], c1)) of
                  None \<Rightarrow> None
                | Some (gone, c2) \<Rightarrow>
                    let (ok, m1) = alloc m in
                    if \<not> ok then Some (CORM_ERR_NOMEM, gone, Some c2, m1)
                    else
                      let (ok2, m2) = alloc m1 in
                      if \<not> ok2 then Some (CORM_ERR_NOMEM, gone, Some c2, m2)
                      else
                        let a = fresh c2;
                            h1 = (heap c2)(a \<mapsto> \<lparr>e_sql = s, e_stmt = st, e_prev = None, e_next = head c2\<rparr>);
                            h2 = assign h1 (head c2) (\<lambda>x. x\<lparr>e_prev := Some a\<rparr>);
                            t2 = (if tail c2 = None then Some a else tail c2)
                        in Some (CORM_OK, gone,
                             Some (c2\<lparr>heap := h2, head := Some a, tail := t2, csize := csize c2 + 1,
                                      fresh := a + 1\<rparr>), m2)))
      | _ \<Rightarrow> Some (CORM_ERR_NULL, [], cache, m))"

definition corm_stmt_cache_set_destroy_fn ::
  "'s corm_stmt_cache_t option \<Rightarrow> bool \<Rightarrow> 's corm_stmt_cache_t option" where
  "corm_stmt_cache_set_destroy_fn cache fn = map_option (\<lambda>c. c\<lparr>entry_destroy_fn := fn\<rparr>) cache"

definition corm_stmt_cache_remove ::
  "'s corm_stmt_cache_t option \<Rightarrow> string option \<Rightarrow> ('s option \<times> 's corm_stmt_cache_t option) option" where
  "corm_stmt_cache_remove cache sql =
     (case (cache, sql) of
        (Some c, Some s) \<Rightarrow>
          (case find_entry (heap c) (head c) s of
             None \<Rightarrow> None
           | Some None \<Rightarrow> Some (None, cache)
           | Some (Some a) \<Rightarrow>
               (case heap c a of
                  None \<Rightarrow> None
                | Some e \<Rightarrow>
                    let h2 = unlink (heap c) e;
                        hd2 = (if Some a = head c then e_next e else head c);
                        t2 = (if Some a = tail c then e_prev e else tail c)
                    in Some (Some (e_stmt e),
                         Some (c\<lparr>heap := h2(a := None), head := hd2, tail := t2, csize := csize c - 1\<rparr>))))
      | _ \<Rightarrow> Some (None, cache))"

text \<open>The statements the walk of \<^verbatim>\<open>corm_stmt_cache_destroy\<close> hands to the
  destructor, each node being freed behind it.\<close>

partial_function (option) destroy_walk ::
  "bool \<Rightarrow> 's entry_heap \<Rightarrow> addr option \<Rightarrow> 's list \<Rightarrow> ('s list \<times> 's entry_heap) option" where
  "destroy_walk fn h p gone =
     (case p of
        None \<Rightarrow> Some (gone, h)
      | Some a \<Rightarrow>
          (case h a of
             None \<Rightarrow> None
           | Some e \<Rightarrow>
               destroy_walk fn (h(a := None)) (e_next e) (gone @ (if fn then [e_stmt e] else []))))"

declare destroy_walk.simps [code]

definition corm_stmt_cache_destroy :: "'s corm_stmt_cache_t option \<Rightarrow> ('s list \<times> 's entry_heap) option" where
  "corm_stmt_cache_destroy cache =
     (case cache of
        None \<Rightarrow> Some ([], Map.empty)
      | Some c \<Rightarrow> destroy_walk (entry_destroy_fn c) (heap c) (head c) [])"

section \<open>List segments in the heap\<close>

text \<open>\<open>seg h prv p as q\<close>: from \<open>p\<close>, following \<^verbatim>\<open>next\<close>, the heap holds the
  entries \<open>as\<close> and then \<open>q\<close>; their \<^verbatim>\<open>prev\<close> pointers lead back to \<open>prv\<close>.\<close>

primrec seg :: "'s entry_heap \<Rightarrow> addr option \<Rightarrow> addr option \<Rightarrow> addr list \<Rightarrow> addr option \<Rightarrow> bool" where
  "seg h prv p [] q \<longleftrightarrow> p = q"
| "seg h prv p (a # as) q \<longleftrightarrow>
     p = Some a \<and> (\<exists>e. h a = Some e \<and> e_prev e = prv \<and> seg h (Some a) (e_next e) as q)"

definition last_or :: "addr option \<Rightarrow> addr list \<Rightarrow> addr option" where
  "last_or prv as = (if as = [] then prv else Some (last as))"

definition hd_or :: "addr list \<Rightarrow> addr option \<Rightarrow> addr option" where
  "hd_or as q = (if as = [] then q else Some (hd as))"

lemma last_or_simps [simp]: "last_or prv [] = prv" "last_or prv (a # as) = last_or (Some a) as"
  by (simp_all add: last_or_def)

lemma last_or_append [simp]: "last_or prv (as @ bs) = last_or (last_or prv as) bs"
  by (induction as arbitrary: prv) simp_all

lemma hd_or_simps [simp]: "hd_or [] q = q" "hd_or (a # as) q = Some a"
  by (simp_all add: hd_or_def)

lemma hd_or_append [simp]: "hd_or (as @ bs) q = hd_or as (hd_or bs q)"
  by (cases as) simp_all

lemma last_or_mem: "last_or None as = Some b \<Longrightarrow> b \<in> set as"
  by (auto simp: last_or_def split: if_splits)

lemma hd_or_mem: "hd_or as None = Some b \<Longrightarrow> b \<in> set as"
  by (auto simp: hd_or_def split: if_splits)

lemma seg_append: "seg h prv p (as @ bs) q \<longleftrightarrow> (\<exists>r. seg h prv p as r \<and> seg h (last_or prv as) r bs q)"
  by (induction as arbitrary: prv p) auto

lemma seg_start: "seg h prv p as q \<Longrightarrow> p = hd_or as q"
  by (cases as) auto

lemma seg_frame: "a \<notin> set as \<Longrightarrow> seg (h(a := v)) prv p as q = seg h prv p as q"
  by (induction as arbitrary: prv p) auto

lemma seg_heap: "seg h prv p as q \<Longrightarrow> a \<in> set as \<Longrightarrow> \<exists>e. h a = Some e"
  by (induction as arbitrary: prv p) auto

lemma assign_other [simp]: "p \<noteq> Some a \<Longrightarrow> assign h p f a = h a"
  by (auto simp: assign_def split: option.splits)

lemma assign_same [simp]: "assign h (Some a) f a = map_option f (h a)"
  by (simp add: assign_def)

lemma assign_None [simp]: "assign h None f = h"
  by (simp add: assign_def)

lemma dom_assign [simp]: "dom (assign h p f) = dom h"
  by (auto simp: assign_def dom_def split: option.splits if_splits)

lemma seg_assign_frame: "(\<And>a. p' = Some a \<Longrightarrow> a \<notin> set as) \<Longrightarrow> seg (assign h p' f) prv p as q = seg h prv p as q"
  by (cases p') (simp_all add: assign_def seg_frame)

text \<open>Redirecting the end of a segment, and its start.\<close>

lemma seg_set_next:
  "seg h prv p as q \<Longrightarrow> distinct as \<Longrightarrow> as \<noteq> [] \<Longrightarrow>
     seg (assign h (Some (last as)) (\<lambda>x. x\<lparr>e_next := q'\<rparr>)) prv p as q'"
proof (induction as arbitrary: prv p)
  case (Cons a as)
  show ?case
  proof (cases "as = []")
    case True
    with Cons.prems show ?thesis by (auto simp: assign_def)
  next
    case False
    with Cons.prems have "last as \<noteq> a" by auto
    with Cons False show ?thesis by auto
  qed
qed simp

lemma seg_set_prev:
  "seg h prv p as q \<Longrightarrow> distinct as \<Longrightarrow>
     seg (assign h (hd_or as None) (\<lambda>x. x\<lparr>e_prev := prv'\<rparr>)) prv' p as q"
proof (cases as)
  case (Cons b bs)
  assume "seg h prv p as q" and "distinct as"
  with Cons show ?thesis
    using seg_assign_frame [of "Some b" bs h "\<lambda>x. x\<lparr>e_prev := prv'\<rparr>"] by auto
qed simp

section \<open>The abstract cache\<close>

text \<open>Pairs of SQL text and statement, most recently used first.\<close>

definition lru_get :: "(string \<times> 's) list \<Rightarrow> string \<Rightarrow> 's option \<times> (string \<times> 's) list" where
  "lru_get xs k =
     (case map_of xs k of
        None \<Rightarrow> (None, xs)
      | Some s \<Rightarrow> (Some s, (k, s) # filter (\<lambda>e. fst e \<noteq> k) xs))"

definition lru_trim :: "nat \<Rightarrow> (string \<times> 's) list \<Rightarrow> (string \<times> 's) list" where
  "lru_trim cap xs = (if cap \<le> length xs then butlast xs else xs)"

definition lru_remove :: "(string \<times> 's) list \<Rightarrow> string \<Rightarrow> (string \<times> 's) list" where
  "lru_remove xs k = filter (\<lambda>e. fst e \<noteq> k) xs"

definition lru_put :: "nat \<Rightarrow> (string \<times> 's) list \<Rightarrow> string \<Rightarrow> 's \<Rightarrow> (string \<times> 's) list \<times> 's list" where
  "lru_put cap xs k s =
     (case map_of xs k of
        None \<Rightarrow> ((k, s) # lru_trim cap xs, if cap \<le> length xs then [snd (last xs)] else [])
      | Some s' \<Rightarrow> (snd (lru_get xs k), []))"

section \<open>The abstraction relation\<close>

definition entry_of :: "'s entry_heap \<Rightarrow> addr \<Rightarrow> string \<times> 's" where
  "entry_of h a = (e_sql (the (h a)), e_stmt (the (h a)))"

text \<open>The cache holds exactly the entries \<open>as\<close>, linked in that order: the list is complete (every
  entry of the heap is reachable), its keys are distinct, and its length is the recorded size.\<close>

definition cache_at :: "'s corm_stmt_cache_t \<Rightarrow> addr list \<Rightarrow> bool" where
  "cache_at c as \<longleftrightarrow>
     distinct as \<and> seg (heap c) None (head c) as None \<and> tail c = last_or None as \<and>
     csize c = length as \<and> dom (heap c) = set as \<and> (\<forall>a\<in>set as. a < fresh c) \<and>
     distinct (map (\<lambda>a. fst (entry_of (heap c) a)) as) \<and> length as \<le> capacity c \<and> 0 < capacity c"

definition cache_rel :: "'s corm_stmt_cache_t \<Rightarrow> (string \<times> 's) list \<Rightarrow> bool" where
  "cache_rel c xs \<longleftrightarrow> (\<exists>as. cache_at c as \<and> xs = map (entry_of (heap c)) as)"

lemma cache_rel_bounds: "cache_rel c xs \<Longrightarrow> csize c = length xs \<and> length xs \<le> capacity c \<and> distinct (map fst xs)"
  by (auto simp: cache_rel_def cache_at_def comp_def)

lemma find_entry_seg:
  "seg h prv p as None \<Longrightarrow> find_entry h p k = Some (List.find (\<lambda>a. fst (entry_of h a) = k) as)"
proof (induction as arbitrary: prv p)
  case Nil
  then show ?case by (simp add: find_entry.simps)
next
  case (Cons a as)
  then obtain e where "p = Some a" "h a = Some e" "seg h (Some a) (e_next e) as None" by auto
  with Cons.IH [of "Some a" "e_next e"] show ?case
    by (subst find_entry.simps) (simp add: entry_of_def)
qed

text \<open>Where the key is found, the list of entries splits.\<close>

lemma cache_find_cases:
  assumes "cache_at c as"
  obtains (absent) "find_entry (heap c) (head c) k = Some None"
      "k \<notin> fst ` set (map (entry_of (heap c)) as)"
  | (present) xs a ys e where "find_entry (heap c) (head c) k = Some (Some a)" "as = xs @ a # ys"
      "heap c a = Some e" "entry_of (heap c) a = (k, e_stmt e)"
proof (cases "List.find (\<lambda>a. fst (entry_of (heap c) a) = k) as")
  case None
  with absent find_entry_seg [of "heap c" None "head c" as k] assms show ?thesis
    by (auto simp: cache_at_def find_None_iff)
next
  case (Some a)
  then obtain xs ys where as: "as = xs @ a # ys" "fst (entry_of (heap c) a) = k"
    using find_index_least by fastforce
  moreover from assms as obtain e where "heap c a = Some e"
    using seg_heap [of "heap c" None "head c" as None a] by (auto simp: cache_at_def)
  ultimately show ?thesis
    using Some assms find_entry_seg [of "heap c" None "head c" as k]
    by (intro present [of a xs ys e]) (auto simp: cache_at_def entry_of_def)
qed

lemma entry_of_assign:
  "(\<And>x. e_sql (f x) = e_sql x \<and> e_stmt (f x) = e_stmt x) \<Longrightarrow> b \<in> dom h \<Longrightarrow> entry_of (assign h p f) b = entry_of h b"
  by (cases "p = Some b") (auto simp: entry_of_def)

lemma unlink_seg:
  assumes s: "seg h None p (xs @ a # ys) None" and d: "distinct (xs @ a # ys)" and e: "h a = Some e"
  shows "e_prev e = last_or None xs" and "e_next e = hd_or ys None"
    and "seg (unlink h e) None (hd_or (xs @ ys) None) (xs @ ys) None"
    and "unlink h e a = Some e" and "dom (unlink h e) = dom h"
    and "b \<in> dom h \<Longrightarrow> entry_of (unlink h e) b = entry_of h b"
proof -
  from s e have x: "seg h None p xs (Some a)" and pv: "e_prev e = last_or None xs"
    and y: "seg h (Some a) (e_next e) ys None" by (auto simp: seg_append)
  from y have nx: "e_next e = hd_or ys None" by (rule seg_start)
  show "e_prev e = last_or None xs" "e_next e = hd_or ys None" using pv nx by auto
  have px: "p = hd_or xs (Some a)" using x by (rule seg_start)
  let ?h1 = "assign h (e_prev e) (\<lambda>x. x\<lparr>e_next := e_next e\<rparr>)"
  have x1: "seg ?h1 None (hd_or xs (e_next e)) xs (e_next e)"
  proof (cases "xs = []")
    case False
    then have "e_prev e = Some (last xs)" by (simp add: pv last_or_def)
    with seg_set_next [OF x _ False, of "e_next e"] d False px show ?thesis by (simp add: hd_or_def)
  qed simp
  have dis: "last_or None xs = Some b \<Longrightarrow> b \<notin> set ys \<and> b \<noteq> a"
    "hd_or ys None = Some b \<Longrightarrow> b \<notin> set xs \<and> b \<noteq> a" for b
    using d last_or_mem [of xs b] hd_or_mem [of ys b] by auto
  have "seg ?h1 (Some a) (e_next e) ys None = seg h (Some a) (e_next e) ys None"
    by (rule seg_assign_frame) (use dis(1) pv in auto)
  with y have y1: "seg ?h1 (Some a) (e_next e) ys None" by simp
  have "seg (unlink h e) None (hd_or xs (e_next e)) xs (e_next e) = seg ?h1 None (hd_or xs (e_next e)) xs (e_next e)"
    unfolding unlink_def Let_def by (rule seg_assign_frame) (use dis(2) nx in auto)
  with x1 have x2: "seg (unlink h e) None (hd_or xs (e_next e)) xs (e_next e)" by simp
  have y2: "seg (unlink h e) (last_or None xs) (e_next e) ys None"
    using seg_set_prev [OF y1, of "e_prev e"] d nx pv by (simp add: unlink_def)
  from x2 y2 nx show "seg (unlink h e) None (hd_or (xs @ ys) None) (xs @ ys) None"
    by (auto simp: seg_append)
  show "unlink h e a = Some e"
    using dis nx pv e unfolding unlink_def Let_def by (metis assign_other)
  show "dom (unlink h e) = dom h" by (simp add: unlink_def)
  show "b \<in> dom h \<Longrightarrow> entry_of (unlink h e) b = entry_of h b"
    by (simp add: unlink_def entry_of_assign)
qed

text \<open>Linking an entry in front of a list.\<close>

lemma push_seg:
  assumes s: "seg h None p as None" and a: "a \<notin> set as" and d: "distinct as"
    and h': "h' = assign (h(a \<mapsto> e)) p (\<lambda>x. x\<lparr>e_prev := Some a\<rparr>)"
    and e: "e_prev e = None" "e_next e = p"
  shows "seg h' None (Some a) (a # as) None" and "dom h' = insert a (dom h)"
    and "entry_of h' a = (e_sql e, e_stmt e)"
    and "b \<in> dom h \<Longrightarrow> b \<noteq> a \<Longrightarrow> entry_of h' b = entry_of h b"
proof -
  from s have p: "p = hd_or as None" by (rule seg_start)
  then have pa: "p \<noteq> Some a" using a by (auto simp: hd_or_def split: if_splits)
  have "seg (h(a \<mapsto> e)) None p as None" using s a by (simp add: seg_frame)
  then have "seg h' (Some a) p as None"
    using seg_set_prev [of "h(a \<mapsto> e)" None p as None "Some a"] d p h' by simp
  with pa e show "seg h' None (Some a) (a # as) None" by (simp add: h')
  show "dom h' = insert a (dom h)" by (simp add: h')
  show "entry_of h' a = (e_sql e, e_stmt e)" using pa by (simp add: h' entry_of_def)
  show "b \<in> dom h \<Longrightarrow> b \<noteq> a \<Longrightarrow> entry_of h' b = entry_of h b"
    by (auto simp: h' entry_of_assign) (simp add: entry_of_def)
qed

lemma map_of_split:
  assumes "distinct (map fst (xs @ (k, s) # ys))"
  shows "map_of (xs @ (k, s) # ys) k = Some s" and "filter (\<lambda>e. fst e \<noteq> k) (xs @ (k, s) # ys) = xs @ ys"
proof -
  from assms have k: "k \<notin> fst ` set xs" "k \<notin> fst ` set ys" by auto
  then have "map_of xs k = None" by (simp add: map_of_eq_None_iff)
  then show "map_of (xs @ (k, s) # ys) k = Some s" by (simp add: map_add_def)
  from k have "filter (\<lambda>e. fst e \<noteq> k) xs = xs" "filter (\<lambda>e. fst e \<noteq> k) ys = ys"
    by (auto intro!: filter_True)
  then show "filter (\<lambda>e. fst e \<noteq> k) (xs @ (k, s) # ys) = xs @ ys" by simp
qed

section \<open>Refinement\<close>

lemma cache_at_relI: "cache_at c as \<Longrightarrow> cache_rel c (map (entry_of (heap c)) as)"
  by (auto simp: cache_rel_def)

text \<open>Moving an entry to the front, as the hit path of the lookup does.\<close>

lemma move_front:
  assumes c: "cache_at c (xs @ a # ys)" and e: "heap c a = Some e" and hd: "Some a \<noteq> head c"
    and h2: "h2 = unlink (heap c) e"
    and h3: "h3 = assign h2 (Some a) (\<lambda>x. x\<lparr>e_next := head c, e_prev := None\<rparr>)"
    and h4: "h4 = assign h3 (head c) (\<lambda>x. x\<lparr>e_prev := Some a\<rparr>)"
    and c': "c' = c\<lparr>heap := h4, tail := (if Some a = tail c then e_prev e else tail c), head := Some a\<rparr>"
  shows "cache_at c' (a # xs @ ys)" and "b \<in> set (xs @ a # ys) \<Longrightarrow> entry_of (heap c') b = entry_of (heap c) b"
proof -
  from c have s: "seg (heap c) None (head c) (xs @ a # ys) None" and d: "distinct (xs @ a # ys)"
    and dm: "dom (heap c) = set (xs @ a # ys)" and tl: "tail c = last_or None (xs @ a # ys)"
    by (auto simp: cache_at_def)
  note u = unlink_seg [OF s d e, folded h2]
  from s hd have ne: "xs \<noteq> []" by (cases xs) auto
  with s have "head c = hd_or (xs @ ys) None" by (simp add: seg_start [OF s] hd_or_def)
  with u(3) have s2: "seg h2 None (head c) (xs @ ys) None" by simp
  have h3': "h3 = h2(a \<mapsto> e\<lparr>e_next := head c, e_prev := None\<rparr>)"
    using u(4) by (simp add: h3 assign_def)
  from d have a: "a \<notin> set (xs @ ys)" and d': "distinct (xs @ ys)" by auto
  note p = push_seg [OF s2 a d', of h4 "e\<lparr>e_next := head c, e_prev := None\<rparr>"]
  from h4 h3' have p1: "seg h4 None (Some a) (a # xs @ ys) None" and p2: "dom h4 = insert a (dom h2)"
    and p3: "entry_of h4 a = (e_sql e, e_stmt e)"
    and p4: "\<And>b. b \<in> dom h2 \<Longrightarrow> b \<noteq> a \<Longrightarrow> entry_of h4 b = entry_of h2 b"
    using p by auto
  have ent: "entry_of h4 b = entry_of (heap c) b" if "b \<in> set (xs @ a # ys)" for b
  proof (cases "b = a")
    case True
    with p3 e show ?thesis by (simp add: entry_of_def)
  next
    case False
    with that dm u(5) u(6) [of b] p4 [of b] show ?thesis by auto
  qed
  then show "b \<in> set (xs @ a # ys) \<Longrightarrow> entry_of (heap c') b = entry_of (heap c) b" for b by (simp add: c')
  have keys: "distinct (map (\<lambda>b. fst (entry_of h4 b)) (a # xs @ ys))"
    by (rule distinct_map_sub [of "\<lambda>b. fst (entry_of (heap c) b)" "xs @ a # ys"])
      (use c ent d in \<open>auto simp: cache_at_def\<close>)
  have "tail c' = last_or None (a # xs @ ys)"
  proof (cases "ys = []")
    case True
    with tl u(1) ne d show ?thesis by (simp add: c' last_or_def)
  next
    case False
    with tl d have "tail c \<noteq> Some a" by (auto simp: last_or_def)
    with False tl show ?thesis by (simp add: c' last_or_def)
  qed
  moreover have "dom h4 = set (a # xs @ ys)" using p2 u(5) dm by auto
  ultimately show "cache_at c' (a # xs @ ys)"
    using c p1 keys d by (simp add: cache_at_def c')
qed

lemma get_refines:
  assumes "cache_rel c xs"
  shows "\<exists>c'. corm_stmt_cache_get_unlocked c k = Some (fst (lru_get xs k), c') \<and>
    cache_rel c' (snd (lru_get xs k)) \<and> capacity c' = capacity c \<and> entry_destroy_fn c' = entry_destroy_fn c"
proof -
  from assms obtain as where c: "cache_at c as" and xs: "xs = map (entry_of (heap c)) as"
    by (auto simp: cache_rel_def)
  from c show ?thesis
  proof (cases rule: cache_find_cases [where k = k])
    case absent
    with xs assms have "map_of xs k = None" by (simp add: map_of_eq_None_iff)
    with absent assms show ?thesis by (simp add: corm_stmt_cache_get_unlocked_def lru_get_def)
  next
    case (present l a r e)
    have dk: "distinct (map fst xs)" using cache_rel_bounds [OF assms] by simp
    have sp: "xs = map (entry_of (heap c)) l @ (k, e_stmt e) # map (entry_of (heap c)) r"
      using present xs by simp
    have lg: "lru_get xs k = (Some (e_stmt e), (k, e_stmt e) # map (entry_of (heap c)) (l @ r))"
      using map_of_split [OF dk [unfolded sp]] sp by (simp add: lru_get_def)
    show ?thesis
    proof (cases "Some a = head c")
      case True
      with c present(2) have "l = []"
        by (cases l) (auto simp: cache_at_def)
      with True [symmetric] present lg assms sp show ?thesis
        by (simp add: corm_stmt_cache_get_unlocked_def)
    next
      case False
      define c' where "c' = c\<lparr>heap := assign (assign (unlink (heap c) e) (Some a) (\<lambda>x. x\<lparr>e_next := head c, e_prev := None\<rparr>))
          (head c) (\<lambda>x. x\<lparr>e_prev := Some a\<rparr>), tail := (if Some a = tail c then e_prev e else tail c), head := Some a\<rparr>"
      note m = move_front [OF c [unfolded present(2)] present(3) False refl refl refl c'_def]
      have "cache_rel c' (map (entry_of (heap c')) (a # l @ r))" using m(1) by (rule cache_at_relI)
      moreover have "map (entry_of (heap c')) (a # l @ r) = (k, e_stmt e) # map (entry_of (heap c)) (l @ r)"
        using m(2) present(4) by simp
      moreover have "corm_stmt_cache_get_unlocked c k = Some (Some (e_stmt e), c')"
        using present False by (simp add: corm_stmt_cache_get_unlocked_def Let_def c'_def)
      moreover have "capacity c' = capacity c \<and> entry_destroy_fn c' = entry_destroy_fn c"
        by (simp add: c'_def)
      ultimately show ?thesis using lg by (metis fst_conv snd_conv)
    qed
  qed
qed

lemma remove_refines:
  assumes "cache_rel c xs"
  shows "\<exists>c'. corm_stmt_cache_remove (Some c) (Some k) = Some (map_of xs k, Some c') \<and> cache_rel c' (lru_remove xs k) \<and>
    capacity c' = capacity c \<and> entry_destroy_fn c' = entry_destroy_fn c"
proof -
  from assms obtain as where c: "cache_at c as" and xs: "xs = map (entry_of (heap c)) as"
    by (auto simp: cache_rel_def)
  from c show ?thesis
  proof (cases rule: cache_find_cases [where k = k])
    case absent
    with xs have "map_of xs k = None" and "lru_remove xs k = xs"
      by (auto simp: map_of_eq_None_iff lru_remove_def intro!: filter_True)
    with absent assms show ?thesis by (simp add: corm_stmt_cache_remove_def)
  next
    case (present l a r e)
    have dk: "distinct (map fst xs)" using cache_rel_bounds [OF assms] by simp
    have sp: "xs = map (entry_of (heap c)) l @ (k, e_stmt e) # map (entry_of (heap c)) r"
      using present xs by simp
    note mo = map_of_split [OF dk [unfolded sp], folded sp]
    from c present(2) have s: "seg (heap c) None (head c) (l @ a # r) None" and d: "distinct (l @ a # r)"
      and dm: "dom (heap c) = set (l @ a # r)" and tl: "tail c = last_or None (l @ a # r)"
      by (auto simp: cache_at_def)
    note u = unlink_seg [OF s d present(3)]
    define c' where "c' = c\<lparr>heap := (unlink (heap c) e)(a := None),
        head := (if Some a = head c then e_next e else head c),
        tail := (if Some a = tail c then e_prev e else tail c), csize := csize c - 1\<rparr>"
    have ent: "entry_of (heap c') b = entry_of (heap c) b" if "b \<in> set (l @ r)" for b
      using that d dm u(6) [of b] by (auto simp: c'_def entry_of_def)
    have hd': "head c' = hd_or (l @ r) None"
      using seg_start [OF s] u(2) d by (cases l) (simp_all add: c'_def)
    have tl': "tail c' = last_or None (l @ r)"
    proof (cases "r = []")
      case True
      with tl u(1) show ?thesis by (simp add: c'_def)
    next
      case False
      with tl d have "tail c \<noteq> Some a" by (auto simp: last_or_def)
      with False tl show ?thesis by (simp add: c'_def last_or_def)
    qed
    have "seg (heap c') None (head c') (l @ r) None"
      using u(3) d hd' by (simp add: c'_def seg_frame)
    moreover have "distinct (map (\<lambda>b. fst (entry_of (heap c') b)) (l @ r))"
      by (rule distinct_map_sub [of "\<lambda>b. fst (entry_of (heap c) b)" "l @ a # r"])
        (use c ent d present(2) in \<open>auto simp: cache_at_def\<close>)
    moreover have "dom (heap c') = set (l @ r)" using dm d u(5) by (auto simp: c'_def)
    moreover have "csize c' = length (l @ r)" "\<forall>b\<in>set (l @ r). b < fresh c'" "length (l @ r) \<le> capacity c'"
      "0 < capacity c'" using c present(2) by (auto simp: c'_def cache_at_def)
    ultimately have "cache_at c' (l @ r)"
      using tl' d by (simp add: cache_at_def)
    then have "cache_rel c' (map (entry_of (heap c')) (l @ r))" by (rule cache_at_relI)
    moreover have "map (entry_of (heap c')) (l @ r) = lru_remove xs k"
      using ent mo(2) by (simp add: lru_remove_def)
    moreover have "corm_stmt_cache_remove (Some c) (Some k) = Some (map_of xs k, Some c')"
      using present mo(1) by (simp add: corm_stmt_cache_remove_def Let_def c'_def)
    moreover have "capacity c' = capacity c" "entry_destroy_fn c' = entry_destroy_fn c" by (simp_all add: c'_def)
    ultimately show ?thesis by auto
  qed
qed

lemma evict_refines:
  assumes "cache_rel c xs" and "xs \<noteq> []"
  shows "\<exists>c'. evict_tail c = Some (if entry_destroy_fn c then [snd (last xs)] else [], c') \<and>
    cache_rel c' (butlast xs) \<and> capacity c' = capacity c \<and> entry_destroy_fn c' = entry_destroy_fn c"
proof -
  from assms obtain as where c: "cache_at c as" and xs: "xs = map (entry_of (heap c)) as"
    by (auto simp: cache_rel_def)
  with assms(2) obtain l t where as: "as = l @ [t]" by (metis map_is_Nil_conv rev_exhaust)
  with c obtain e where e: "heap c t = Some e"
    using seg_heap [of "heap c" None "head c" as None t] by (auto simp: cache_at_def)
  from c as have s: "seg (heap c) None (head c) (l @ t # []) None" and d: "distinct (l @ t # [])"
    and dm: "dom (heap c) = set (l @ [t])" and tl: "tail c = Some t"
    by (auto simp: cache_at_def)
  note u = unlink_seg [OF s d e]
  from u(2) have h1: "assign (heap c) (e_prev e) (\<lambda>x. x\<lparr>e_next := None\<rparr>) = unlink (heap c) e"
    by (simp add: unlink_def)
  define c' where "c' = c\<lparr>heap := (unlink (heap c) e)(t := None), tail := e_prev e,
      head := (if head c = Some t then None else head c), csize := csize c - 1\<rparr>"
  have ent: "entry_of (heap c') b = entry_of (heap c) b" if "b \<in> set l" for b
    using that d dm u(6) [of b] by (auto simp: c'_def entry_of_def)
  have hd': "head c' = hd_or l None"
    using seg_start [OF s] d by (cases l) (auto simp: c'_def)
  have "seg (heap c') None (head c') l None"
    using u(3) d hd' by (simp add: c'_def seg_frame)
  moreover have "distinct (map (\<lambda>b. fst (entry_of (heap c') b)) l)"
    by (rule distinct_map_sub [of "\<lambda>b. fst (entry_of (heap c) b)" "l @ [t]"])
      (use c ent d as in \<open>auto simp: cache_at_def\<close>)
  moreover have "dom (heap c') = set l" using dm d u(5) by (auto simp: c'_def)
  moreover have "csize c' = length l" "\<forall>b\<in>set l. b < fresh c'" "length l \<le> capacity c'"
    "0 < capacity c'" using c as by (auto simp: c'_def cache_at_def)
  moreover have "tail c' = last_or None l" using u(1) by (simp add: c'_def)
  ultimately have "cache_at c' l" using d by (simp add: cache_at_def)
  then have "cache_rel c' (map (entry_of (heap c')) l)" by (rule cache_at_relI)
  moreover have "map (entry_of (heap c')) l = butlast xs" using ent xs as by (simp add: butlast_append)
  moreover have "evict_tail c = Some (if entry_destroy_fn c then [snd (last xs)] else [], c')"
    using tl e h1 xs as by (simp add: evict_tail_def c'_def Let_def entry_of_def)
  moreover have "capacity c' = capacity c" "entry_destroy_fn c' = entry_destroy_fn c" by (simp_all add: c'_def)
  ultimately show ?thesis by metis
qed

lemma insert_refines:
  assumes rel: "cache_rel c xs" and room: "length xs < capacity c" and k: "map_of xs k = None"
    and c': "c' = c\<lparr>heap := assign ((heap c)(fresh c \<mapsto> \<lparr>e_sql = k, e_stmt = s, e_prev = None, e_next = head c\<rparr>))
                  (head c) (\<lambda>x. x\<lparr>e_prev := Some (fresh c)\<rparr>),
        head := Some (fresh c), tail := (if tail c = None then Some (fresh c) else tail c),
        csize := csize c + 1, fresh := fresh c + 1\<rparr>"
  shows "cache_rel c' ((k, s) # xs)"
proof -
  from rel obtain as where c: "cache_at c as" and xs: "xs = map (entry_of (heap c)) as"
    by (auto simp: cache_rel_def)
  let ?a = "fresh c" and ?e = "\<lparr>e_sql = k, e_stmt = s, e_prev = None, e_next = head c\<rparr>"
  from c have sg: "seg (heap c) None (head c) as None" and a: "?a \<notin> set as" and d: "distinct as"
    and dm: "dom (heap c) = set as" by (auto simp: cache_at_def)
  have h': "heap c' = assign ((heap c)(?a \<mapsto> ?e)) (head c) (\<lambda>x. x\<lparr>e_prev := Some ?a\<rparr>)" by (simp add: c')
  note p = push_seg [OF sg a d h']
  have p1: "seg (heap c') None (Some ?a) (?a # as) None" and p2: "dom (heap c') = insert ?a (dom (heap c))"
    and p3: "entry_of (heap c') ?a = (k, s)" using p by auto
  have ent: "entry_of (heap c') b = entry_of (heap c) b" if "b \<in> set as" for b
    using p(4) [of b] that a dm by auto
  have mx: "map (entry_of (heap c')) as = xs" using ent xs by simp
  then have kx: "map (\<lambda>b. fst (entry_of (heap c') b)) as = map fst xs" by auto
  have "distinct (map (\<lambda>b. fst (entry_of (heap c') b)) (?a # as))"
    using kx p3 k cache_rel_bounds [OF rel] by (simp add: map_of_eq_None_iff del: map_eq_conv flip: set_map)
  moreover have "tail c' = last_or None (?a # as)"
    using c by (auto simp: c' cache_at_def last_or_def)
  moreover have "csize c' = length (?a # as)" "\<forall>b\<in>set (?a # as). b < fresh c'" "length (?a # as) \<le> capacity c'"
    "0 < capacity c'" "head c' = Some ?a"
    using c xs room by (auto simp: c' cache_at_def)
  moreover have "distinct (?a # as)" "dom (heap c') = set (?a # as)" using a d p2 dm by auto
  ultimately have "cache_at c' (?a # as)"
    using p1 by (simp only: cache_at_def)
  from cache_at_relI [OF this] p3 mx show ?thesis by simp
qed

text \<open>Storing a statement under a new key: the least recently used entry leaves a full cache and
  is the only one destroyed.\<close>

lemma put_refines_new:
  assumes rel: "cache_rel c xs" and k: "map_of xs k = None"
  shows "\<exists>err c' m'. corm_stmt_cache_put (Some c) (Some k) (Some s) m =
      Some (err, if capacity c \<le> length xs \<and> entry_destroy_fn c then [snd (last xs)] else [], Some c', m') \<and>
    (err = CORM_OK \<and> cache_rel c' ((k, s) # lru_trim (capacity c) xs) \<or>
     err = CORM_ERR_NOMEM \<and> cache_rel c' (lru_trim (capacity c) xs)) \<and> (m = [] \<longrightarrow> err = CORM_OK) \<and>
    capacity c' = capacity c \<and> entry_destroy_fn c' = entry_destroy_fn c"
proof -
  from rel obtain as where at: "cache_at c as" "xs = map (entry_of (heap c)) as" by (auto simp: cache_rel_def)
  have miss: "corm_stmt_cache_get_unlocked c k = Some (None, c)"
    using at(1)
  proof (cases rule: cache_find_cases [where k = k])
    case absent
    then show ?thesis by (simp add: corm_stmt_cache_get_unlocked_def)
  next
    case (present l a r e)
    with at k show ?thesis by (auto simp: map_add_def split: option.splits)
  qed
  from rel have b: "csize c = length xs" "length xs \<le> capacity c" by (auto dest: cache_rel_bounds)
  have cap: "0 < capacity c" using at by (simp add: cache_at_def)
  obtain c2 where ev: "(if csize c \<ge> capacity c then evict_tail c else Some ([], c)) =
        Some (if capacity c \<le> length xs \<and> entry_destroy_fn c then [snd (last xs)] else [], c2)"
    and c2: "cache_rel c2 (lru_trim (capacity c) xs)" "capacity c2 = capacity c" "entry_destroy_fn c2 = entry_destroy_fn c"
  proof (cases "capacity c \<le> length xs")
    case True
    with cap have "xs \<noteq> []" by auto
    with evict_refines [OF rel] True b that show ?thesis by (auto simp: lru_trim_def)
  next
    case False
    with rel b that [of c] show ?thesis by (simp add: lru_trim_def)
  qed
  have room: "length (lru_trim (capacity c) xs) < capacity c2" using b cap c2(2) by (auto simp: lru_trim_def)
  have k2: "map_of (lru_trim (capacity c) xs) k = None"
    using k in_set_butlastD [of _ xs] by (auto simp: lru_trim_def map_of_eq_None_iff)
  note ins = insert_refines [OF c2(1) room k2 refl, of s]
  obtain o1 m1 where m1: "alloc m = (o1, m1)" by fastforce
  obtain o2 m2 where m2: "alloc m1 = (o2, m2)" by fastforce
  have nil: "m = [] \<Longrightarrow> o1 \<and> o2" using m1 m2 by auto
  show ?thesis
  proof (cases "o1 \<and> o2")
    case True
    with miss ev m1 m2 ins c2 show ?thesis
      by (simp add: corm_stmt_cache_put_def Let_def)
  next
    case False
    with miss ev m1 m2 c2 nil show ?thesis
      by (auto simp: corm_stmt_cache_put_def Let_def)
  qed
qed

lemma put_refines_existing:
  assumes "cache_rel c xs" and "map_of xs k = Some s'"
  shows "\<exists>c'. corm_stmt_cache_put (Some c) (Some k) (Some s) m = Some (CORM_OK, [], Some c', m) \<and>
    cache_rel c' (snd (lru_get xs k)) \<and> capacity c' = capacity c \<and> entry_destroy_fn c' = entry_destroy_fn c"
  using get_refines [OF assms(1), of k] assms(2)
  by (auto simp: corm_stmt_cache_put_def lru_get_def)

lemma destroy_walk_seg:
  "seg h prv p as None \<Longrightarrow> distinct as \<Longrightarrow>
     destroy_walk fn h p gone =
       Some (gone @ (if fn then map (\<lambda>a. snd (entry_of h a)) as else []), h |` (- set as))"
proof (induction as arbitrary: prv p h gone)
  case Nil
  then show ?case by (simp add: destroy_walk.simps)
next
  case (Cons a as)
  then obtain e where e: "p = Some a" "h a = Some e" "seg h (Some a) (e_next e) as None" by auto
  let ?h = "h(a := None)"
  from e Cons.prems have s: "seg ?h (Some a) (e_next e) as None" by (simp add: seg_frame)
  from Cons.prems have "distinct as" by simp
  note ih = Cons.IH [OF s this, of "gone @ (if fn then [e_stmt e] else [])"]
  have step: "destroy_walk fn h p gone = destroy_walk fn ?h (e_next e) (gone @ (if fn then [e_stmt e] else []))"
    using e by (subst destroy_walk.simps) simp
  have "map (\<lambda>b. snd (entry_of ?h b)) as = map (\<lambda>b. snd (entry_of h b)) as"
    using Cons.prems by (auto simp: entry_of_def)
  moreover have "?h |` (- set as) = h |` (- set (a # as))" by (auto simp: restrict_map_def fun_eq_iff)
  moreover have "snd (entry_of h a) = e_stmt e" using e by (simp add: entry_of_def)
  ultimately show ?case unfolding step ih by (cases fn) simp_all
qed

section \<open>The interface of a bounded statement store\<close>

text \<open>
  What a driver relies on when it keeps prepared statements: the operations return, a lookup
  gives the statement stored under that SQL text and changes no other answer, and storing a
  statement in a store with memory available makes it found, keeps the size bounded, and hands
  to the destructor only statements that are not found any more.
\<close>

locale stmt_store =
  fixes lookup :: "'c \<Rightarrow> string \<Rightarrow> ('s option \<times> 'c) option"
    and store :: "'c \<Rightarrow> string \<Rightarrow> 's \<Rightarrow> (corm_err_t \<times> 's list \<times> 'c) option"
    and drop_key :: "'c \<Rightarrow> string \<Rightarrow> ('s option \<times> 'c) option"
    and view :: "'c \<Rightarrow> (string \<times> 's) list \<Rightarrow> bool"
    and bound :: "'c \<Rightarrow> nat"
  assumes lookup_ok: "view c xs \<Longrightarrow> \<exists>c'. lookup c k = Some (map_of xs k, c') \<and>
            view c' (snd (lru_get xs k)) \<and> bound c' = bound c"
    and store_ok: "view c xs \<Longrightarrow> \<exists>gone c'. store c k s = Some (CORM_OK, gone, c') \<and>
            view c' (fst (lru_put (bound c) xs k s)) \<and> set gone \<subseteq> set (snd (lru_put (bound c) xs k s)) \<and>
            bound c' = bound c"
    and drop_ok: "view c xs \<Longrightarrow> \<exists>c'. drop_key c k = Some (map_of xs k, c') \<and>
            view c' (lru_remove xs k) \<and> bound c' = bound c"
    and view_keys: "view c xs \<Longrightarrow> distinct (map fst xs) \<and> length xs \<le> bound c \<and> 0 < bound c"
begin

lemma store_then_lookup:
  assumes "view c xs"
  shows "\<exists>gone c' c''. store c k s = Some (CORM_OK, gone, c') \<and>
    lookup c' k = Some (Some (case map_of xs k of None \<Rightarrow> s | Some s' \<Rightarrow> s'), c'')"
proof -
  from store_ok [OF assms, of k s] obtain gone c' where st: "store c k s = Some (CORM_OK, gone, c')"
    and v: "view c' (fst (lru_put (bound c) xs k s))" by blast
  have "map_of (fst (lru_put (bound c) xs k s)) k = Some (case map_of xs k of None \<Rightarrow> s | Some s' \<Rightarrow> s')"
    by (simp add: lru_put_def lru_get_def split: option.split)
  with st lookup_ok [OF v, of k] show ?thesis by auto
qed

fun store_all :: "(string \<times> 's) list \<Rightarrow> 'c \<Rightarrow> 'c option" where
  "store_all [] c = Some c"
| "store_all ((k, s) # ys) c =
     (case store c k s of Some (CORM_OK, gone, c') \<Rightarrow> store_all ys c' | _ \<Rightarrow> None)"

text \<open>New keys no more in number than the bound are all held afterwards, the last stored first.\<close>

lemma store_all_keeps:
  assumes "view c xs" and "distinct (map fst (rev ys @ xs))" and "length ys + length xs \<le> bound c"
  shows "\<exists>c'. store_all ys c = Some c' \<and> view c' (rev ys @ xs) \<and> bound c' = bound c"
  using assms
proof (induction ys arbitrary: c xs)
  case (Cons y ys)
  obtain k s where y: "y = (k, s)" by (cases y)
  from Cons.prems y have "map_of xs k = None" by (auto simp: map_of_eq_None_iff)
  then have "fst (lru_put (bound c) xs k s) = (k, s) # xs"
    using Cons.prems(3) by (simp add: lru_put_def lru_trim_def)
  with store_ok [OF Cons.prems(1), of k s] obtain gone c' where st: "store c k s = Some (CORM_OK, gone, c')"
    and v: "view c' ((k, s) # xs)" "bound c' = bound c" by auto
  from Cons.IH [OF v(1)] Cons.prems(2,3) v(2) y
  have "\<exists>c''. store_all ys c' = Some c'' \<and> view c'' (rev ys @ (k, s) # xs) \<and> bound c'' = bound c'" by simp
  with st y v(2) show ?case by auto
qed simp

end

definition cache_store :: "'s corm_stmt_cache_t \<Rightarrow> string \<Rightarrow> 's \<Rightarrow> (corm_err_t \<times> 's list \<times> 's corm_stmt_cache_t) option" where
  "cache_store c k s =
     (case corm_stmt_cache_put (Some c) (Some k) (Some s) [] of
        Some (err, gone, Some c', m) \<Rightarrow> Some (err, gone, c')
      | _ \<Rightarrow> None)"

definition cache_drop :: "'s corm_stmt_cache_t \<Rightarrow> string \<Rightarrow> ('s option \<times> 's corm_stmt_cache_t) option" where
  "cache_drop c k =
     (case corm_stmt_cache_remove (Some c) (Some k) of Some (r, Some c') \<Rightarrow> Some (r, c') | _ \<Rightarrow> None)"

lemma put_refines:
  assumes "cache_rel c xs"
  shows "\<exists>err c' m'. corm_stmt_cache_put (Some c) (Some k) (Some s) m =
      Some (err, if entry_destroy_fn c then snd (lru_put (capacity c) xs k s) else [], Some c', m') \<and>
    (err = CORM_OK \<and> cache_rel c' (fst (lru_put (capacity c) xs k s)) \<or>
     err = CORM_ERR_NOMEM \<and> map_of xs k = None \<and> cache_rel c' (lru_trim (capacity c) xs)) \<and>
    (m = [] \<longrightarrow> err = CORM_OK) \<and> capacity c' = capacity c \<and> entry_destroy_fn c' = entry_destroy_fn c"
proof (cases "map_of xs k")
  case None
  with put_refines_new [OF assms None, of s m] show ?thesis by (force simp: lru_put_def)
next
  case (Some s')
  with put_refines_existing [OF assms Some, of s m] show ?thesis by (auto simp: lru_put_def)
qed

interpretation sstore: stmt_store corm_stmt_cache_get_unlocked cache_store cache_drop cache_rel capacity
proof unfold_locales
  fix c :: "'s corm_stmt_cache_t" and xs k s
  assume rel: "cache_rel c xs"
  show "\<exists>c'. corm_stmt_cache_get_unlocked c k = Some (map_of xs k, c') \<and> cache_rel c' (snd (lru_get xs k)) \<and>
      capacity c' = capacity c"
    using get_refines [OF rel, of k] by (auto simp: lru_get_def split: option.splits)
  show "\<exists>gone c'. cache_store c k s = Some (CORM_OK, gone, c') \<and>
      cache_rel c' (fst (lru_put (capacity c) xs k s)) \<and>
      set gone \<subseteq> set (snd (lru_put (capacity c) xs k s)) \<and> capacity c' = capacity c"
    using put_refines [OF rel, of k s "[]"] by (auto simp: cache_store_def)
  show "\<exists>c'. cache_drop c k = Some (map_of xs k, c') \<and> cache_rel c' (lru_remove xs k) \<and> capacity c' = capacity c"
    using remove_refines [OF rel, of k] by (auto simp: cache_drop_def)
  show "distinct (map fst xs) \<and> length xs \<le> capacity c \<and> 0 < capacity c"
    using cache_rel_bounds [OF rel] rel by (auto simp: cache_rel_def cache_at_def)
qed

lemma create_rel:
  "corm_stmt_cache_create cap m = (Inr c, m') \<Longrightarrow> cache_rel c [] \<and> capacity c = cap"
  by (auto simp: corm_stmt_cache_create_def cache_rel_def cache_at_def Let_def split: if_splits prod.splits)

lemma destroy_rel:
  assumes "cache_rel c xs"
  shows "corm_stmt_cache_destroy (Some c) = Some (if entry_destroy_fn c then map snd xs else [], Map.empty)"
proof -
  from assms obtain as where c: "cache_at c as" and xs: "xs = map (entry_of (heap c)) as"
    by (auto simp: cache_rel_def)
  from c have "heap c |` (- set as) = Map.empty"
    by (auto simp: cache_at_def restrict_map_def dom_def fun_eq_iff)
  with c xs destroy_walk_seg [of "heap c" None "head c" as "entry_destroy_fn c" "[]"] show ?thesis
    by (simp add: corm_stmt_cache_destroy_def cache_at_def comp_def)
qed

text \<open>Sequences of calls on one cache, as a driver makes them.\<close>

datatype 's cache_op = Get string | Put string 's | Remove string

fun cache_run :: "'s cache_op list \<Rightarrow> 's corm_stmt_cache_t option \<Rightarrow> ('s option list \<times> 's list \<times> 's corm_stmt_cache_t option) option" where
  "cache_run [] c = Some ([], [], c)"
| "cache_run (Get k # ops) c =
     (case corm_stmt_cache_get c (Some k) of
        None \<Rightarrow> None
      | Some (r, c') \<Rightarrow> map_option (\<lambda>(rs, gone, c''). (r # rs, gone, c'')) (cache_run ops c'))"
| "cache_run (Put k s # ops) c =
     (case corm_stmt_cache_put c (Some k) (Some s) [] of
        None \<Rightarrow> None
      | Some (err, g, c', m) \<Rightarrow> map_option (\<lambda>(rs, gone, c''). (rs, g @ gone, c'')) (cache_run ops c'))"
| "cache_run (Remove k # ops) c =
     (case corm_stmt_cache_remove c (Some k) of
        None \<Rightarrow> None
      | Some (r, c') \<Rightarrow> map_option (\<lambda>(rs, gone, c''). (r # rs, gone, c'')) (cache_run ops c'))"

text \<open>The same sequence on the abstract list.\<close>

fun lru_run :: "nat \<Rightarrow> 's cache_op list \<Rightarrow> (string \<times> 's) list \<Rightarrow> 's option list \<times> 's list \<times> (string \<times> 's) list" where
  "lru_run cap [] xs = ([], [], xs)"
| "lru_run cap (Get k # ops) xs =
     (case lru_run cap ops (snd (lru_get xs k)) of (rs, gone, ys) \<Rightarrow> (map_of xs k # rs, gone, ys))"
| "lru_run cap (Put k s # ops) xs =
     (case lru_run cap ops (fst (lru_put cap xs k s)) of (rs, gone, ys) \<Rightarrow> (rs, snd (lru_put cap xs k s) @ gone, ys))"
| "lru_run cap (Remove k # ops) xs =
     (case lru_run cap ops (lru_remove xs k) of (rs, gone, ys) \<Rightarrow> (map_of xs k # rs, gone, ys))"

lemma run_refines:
  assumes "cache_rel c xs" and "entry_destroy_fn c" and "lru_run (capacity c) ops xs = (rs, gone, ys)"
  shows "\<exists>c'. cache_run ops (Some c) = Some (rs, gone, Some c') \<and> cache_rel c' ys \<and>
    capacity c' = capacity c \<and> entry_destroy_fn c'"
  using assms
proof (induction ops arbitrary: c xs rs gone)
  case (Cons op ops)
  show ?case
  proof (cases op)
    case (Get k)
    from get_refines [OF Cons.prems(1), of k] obtain c1 where c1:
      "corm_stmt_cache_get_unlocked c k = Some (map_of xs k, c1)" "cache_rel c1 (snd (lru_get xs k))"
      "capacity c1 = capacity c" "entry_destroy_fn c1" using Cons.prems(2) by (auto simp: lru_get_def split: option.splits)
    obtain rs' gone' where l: "lru_run (capacity c1) ops (snd (lru_get xs k)) = (rs', gone', ys)"
      using Cons.prems(3) Get c1(3) by (auto split: prod.splits)
    from Cons.IH [OF c1(2,4) l] c1 Cons.prems(3) Get l show ?thesis
      by (auto simp: corm_stmt_cache_get_def)
  next
    case (Put k s)
    from put_refines [OF Cons.prems(1), of k s "[]"] obtain c1 m1 where c1:
      "corm_stmt_cache_put (Some c) (Some k) (Some s) [] = Some (CORM_OK, snd (lru_put (capacity c) xs k s), Some c1, m1)"
      "cache_rel c1 (fst (lru_put (capacity c) xs k s))"
      "capacity c1 = capacity c" "entry_destroy_fn c1" using Cons.prems(2) by auto
    obtain rs' gone' where l: "lru_run (capacity c1) ops (fst (lru_put (capacity c) xs k s)) = (rs', gone', ys)"
      using Cons.prems(3) Put c1(3) by (auto split: prod.splits)
    from Cons.IH [OF c1(2,4) l] c1 Cons.prems(3) Put l show ?thesis by auto
  next
    case (Remove k)
    from remove_refines [OF Cons.prems(1), of k] obtain c1 where c1:
      "corm_stmt_cache_remove (Some c) (Some k) = Some (map_of xs k, Some c1)" "cache_rel c1 (lru_remove xs k)"
      "capacity c1 = capacity c" "entry_destroy_fn c1" using Cons.prems(2) by auto
    obtain rs' gone' where l: "lru_run (capacity c1) ops (lru_remove xs k) = (rs', gone', ys)"
      using Cons.prems(3) Remove c1(3) by (auto split: prod.splits)
    from Cons.IH [OF c1(2,4) l] c1 Cons.prems(3) Remove l show ?thesis by auto
  qed
qed simp

section \<open>Properties\<close>

text \<open>(C2) The linked-list cache implements a least-recently-used map. From a newly created cache
  with a destructor installed, any sequence of \<^verbatim>\<open>get\<close>, \<^verbatim>\<open>put\<close> and \<^verbatim>\<open>remove\<close> calls returns (no walk diverges or
  follows a freed node) with exactly the answers, the evicted statements and, in order, the
  contents of the abstract list of (SQL, statement) pairs; at most \<open>capacity\<close> entries are
  held, under distinct keys.\<close>

theorem stmt_cache_implements_lru:
  assumes "corm_stmt_cache_create cap m = (Inr c, m')" and "lru_run cap ops [] = (rs, gone, ys)"
  shows "\<exists>c'. cache_run ops (corm_stmt_cache_set_destroy_fn (Some c) True) = Some (rs, gone, Some c') \<and>
    cache_rel c' ys \<and> csize c' = length ys \<and> length ys \<le> cap \<and> distinct (map fst ys)"
proof -
  let ?c = "c\<lparr>entry_destroy_fn := True\<rparr>"
  from create_rel [OF assms(1)] have "cache_rel ?c []" "capacity ?c = cap"
    by (auto simp: cache_rel_def cache_at_def)
  with run_refines [of ?c "[]" ops rs gone ys] assms(2) obtain c' where
    "cache_run ops (Some ?c) = Some (rs, gone, Some c')" "cache_rel c' ys" "capacity c' = cap" by auto
  with cache_rel_bounds [of c' ys] show ?thesis by (simp add: corm_stmt_cache_set_destroy_fn_def)
qed

theorem stmt_cache_implements_lru_witness:
  "\<exists>c m' c'. corm_stmt_cache_create 2 [] = (Inr c, m') \<and>
     cache_run [Put ''a'' (10::nat), Put ''b'' 20, Get ''a'', Put ''c'' 30, Get ''b'', Remove ''a'']
       (corm_stmt_cache_set_destroy_fn (Some c) True) = Some ([Some 10, None, Some 10], [20], Some c') \<and>
     cache_rel c' [(''c'', 30)]"
proof -
  let ?ops = "[Put ''a'' (10::nat), Put ''b'' 20, Get ''a'', Put ''c'' 30, Get ''b'', Remove ''a'']"
  obtain c :: "nat corm_stmt_cache_t" and m' where c: "corm_stmt_cache_create 2 [] = (Inr c, m')"
    by (simp add: corm_stmt_cache_create_def)
  have l: "lru_run 2 ?ops [] = ([Some 10, None, Some 10], [20], [(''c'', 30)])"
    by (simp add: lru_put_def lru_get_def lru_trim_def lru_remove_def)
  from stmt_cache_implements_lru [OF c l] c show ?thesis by blast
qed

text \<open>Storing a statement under any allocator behaviour: the call returns; an existing entry is
  kept and only becomes the most recent; otherwise the least recently used entry leaves a full
  cache and is the only statement handed to the destructor. When an allocation fails the call
  reports \<open>CORM_ERR_NOMEM\<close>, and the eviction has nevertheless taken place.\<close>

theorem stmt_cache_put_correct:
  assumes "cache_rel c xs"
  shows "\<exists>err c' m'. corm_stmt_cache_put (Some c) (Some k) (Some s) m =
      Some (err, if entry_destroy_fn c then snd (lru_put (capacity c) xs k s) else [], Some c', m') \<and>
    (err = CORM_OK \<and> cache_rel c' (fst (lru_put (capacity c) xs k s)) \<or>
     err = CORM_ERR_NOMEM \<and> map_of xs k = None \<and> cache_rel c' (lru_trim (capacity c) xs)) \<and>
    (m = [] \<longrightarrow> err = CORM_OK)"
  using put_refines [OF assms, of k s m] by blast

theorem stmt_cache_put_correct_witness:
  "\<exists>(c :: nat corm_stmt_cache_t) err c' m'. cache_rel c [] \<and>
     corm_stmt_cache_put (Some c) (Some ''SELECT 1'') (Some 5) [] = Some (err, [], Some c', m') \<and>
     err = CORM_OK \<and> cache_rel c' [(''SELECT 1'', 5)]"
proof -
  obtain c :: "nat corm_stmt_cache_t" and m' where c: "corm_stmt_cache_create 2 [] = (Inr c, m')"
    by (simp add: corm_stmt_cache_create_def)
  from create_rel [OF c] have r: "cache_rel c []" "capacity c = 2" by auto
  from stmt_cache_put_correct [OF r(1), of "''SELECT 1''" 5 "[]"] r show ?thesis
    by (auto simp: lru_put_def lru_trim_def)
qed

text \<open>Destroying the cache returns, hands every statement it still holds to the destructor
  exactly once, in most-recently-used order, and frees every node.\<close>

theorem stmt_cache_destroy_all:
  assumes "cache_rel c xs"
  shows "corm_stmt_cache_destroy (Some c) = Some (if entry_destroy_fn c then map snd xs else [], Map.empty)"
  using assms by (rule destroy_rel)

theorem stmt_cache_destroy_all_witness:
  "\<exists>(c :: nat corm_stmt_cache_t) c'. cache_store c ''a'' 5 = Some (CORM_OK, [], c') \<and>
     corm_stmt_cache_destroy (Some (c'\<lparr>entry_destroy_fn := True\<rparr>)) = Some ([5], Map.empty)"
proof -
  obtain c :: "nat corm_stmt_cache_t" and m' where c: "corm_stmt_cache_create 2 [] = (Inr c, m')"
    by (simp add: corm_stmt_cache_create_def)
  from create_rel [OF c] have r: "cache_rel c []" "capacity c = 2" by auto
  from sstore.store_ok [OF r(1), of "''a''" 5] r(2) obtain c' where
    c': "cache_store c ''a'' 5 = Some (CORM_OK, [], c')" "cache_rel c' [(''a'', 5)]"
    by (auto simp: lru_put_def lru_trim_def)
  then have "cache_rel (c'\<lparr>entry_destroy_fn := True\<rparr>) [(''a'', 5)]"
    by (auto simp: cache_rel_def cache_at_def)
  from stmt_cache_destroy_all [OF this] c'(1) show ?thesis by auto
qed

end
