(* ===== verification/Result.thy ===== *)
theory Result
  imports Struct_Access
begin

text \<open>
  Result sets (\<^verbatim>\<open>src/result.c\<close>, \<^verbatim>\<open>include/corm/result.h\<close>): allocation with its
  unwinding, the row iterator, bounds-checked access, and reference counting. The blocks an object
  consists of are named, and a release runs on the set of live blocks, so that leaks, double frees and
  uses after free can be stated. An access outside the allocated arrays or to a dead block is \<open>None\<close>.
\<close>

section \<open>State\<close>

record corm_result_t =
  column_count :: int
  column_names :: "string option list"
  column_types :: "corm_field_type_t list"
  rows :: "corm_value_t list list option"
  row_count :: int
  current_row :: int
  refcount :: int

text \<open>A zero-filled cell, and \<^verbatim>\<open>calloc\<close> of \<open>n\<close> elements: a negative count becomes a huge
  \<^verbatim>\<open>size_t\<close> and fails.\<close>

definition zero_cell :: corm_value_t where
  "zero_cell = \<lparr>vtype = CORM_INT, is_null = False, uval = VZero\<rparr>"

definition calloc_n :: "int \<Rightarrow> mem \<Rightarrow> bool \<times> mem" where
  "calloc_n n m = (if n < 0 then (False, m) else alloc m)"

section \<open>Life cycle\<close>

text \<open>The heap blocks of a result, named by the pointer that holds them: the object, its three arrays,
  the column names, the rows, and the strings and blobs of the cells. A heap is the set of those that are
  live.\<close>

datatype block = B_Result | B_Names | B_Types | B_Rows | B_Name nat | B_Row nat | B_Cell nat nat

type_synonym heap = "block set"

text \<open>\<^verbatim>\<open>free\<close>: of a block that is not live it is undefined.\<close>

definition free_block :: "block \<Rightarrow> heap \<Rightarrow> heap option" where
  "free_block b h = (if b \<in> h then Some (h - {b}) else None)"

text \<open>Freeing what a pointer in the object refers to, which reads the object.\<close>

definition free_member :: "block \<Rightarrow> heap \<Rightarrow> heap option" where
  "free_member b h = (if B_Result \<in> h then free_block b h else None)"

text \<open>The row loop of the allocation: the rows allocated so far when it stops, and whether it completed.\<close>

fun alloc_rows :: "int \<Rightarrow> nat \<Rightarrow> mem \<Rightarrow> bool \<times> corm_value_t list list \<times> mem" where
  "alloc_rows cols 0 m = (True, [], m)"
| "alloc_rows cols (Suc n) m =
     (case calloc_n cols m of
        (False, m1) \<Rightarrow> (False, [], m1)
      | (True, m1) \<Rightarrow>
          (case alloc_rows cols n m1 of (ok, rs, m2) \<Rightarrow> (ok, replicate (nat cols) zero_cell # rs, m2)))"

text \<open>Result, blocks allocated, blocks freed on the way (both in order), allocator.\<close>

definition corm_result_new :: "int \<Rightarrow> int \<Rightarrow> mem \<Rightarrow> corm_result_t option \<times> block list \<times> block list \<times> mem" where
  "corm_result_new cols nrows m =
     (case alloc m of
        (False, m1) \<Rightarrow> (None, [], [], m1)
      | (True, m1) \<Rightarrow>
     (case calloc_n cols m1 of
        (False, m2) \<Rightarrow> (None, [B_Result], [B_Result], m2)
      | (True, m2) \<Rightarrow>
     (case calloc_n cols m2 of
        (False, m3) \<Rightarrow> (None, [B_Result, B_Names], [B_Names, B_Result], m3)
      | (True, m3) \<Rightarrow>
         let r = \<lparr>column_count = cols, column_names = replicate (nat cols) None,
                  column_types = replicate (nat cols) CORM_INT, rows = None, row_count = nrows,
                  current_row = -1, refcount = 1\<rparr>
         in if nrows > 0 then
              (case calloc_n nrows m3 of
                 (False, m4) \<Rightarrow> (None, [B_Result, B_Names, B_Types], [B_Types, B_Names, B_Result], m4)
               | (True, m4) \<Rightarrow>
                   (case alloc_rows cols (nat nrows) m4 of
                      (True, rs, m5) \<Rightarrow>
                        (Some (r\<lparr>rows := Some rs\<rparr>), [B_Result, B_Names, B_Types, B_Rows] @ map B_Row [0..<length rs], [], m5)
                    | (False, rs, m5) \<Rightarrow>
                        (None, [B_Result, B_Names, B_Types, B_Rows] @ map B_Row [0..<length rs],
                         map B_Row [0..<length rs] @ [B_Rows, B_Types, B_Names, B_Result], m5)))
            else (Some r, [B_Result, B_Names, B_Types], [], m3))))"

text \<open>The counter is an \<^verbatim>\<open>int\<close>: counting past its end is undefined.\<close>

definition corm_result_retain :: "corm_result_t option \<Rightarrow> heap \<Rightarrow> corm_result_t option option" where
  "corm_result_retain res h =
     (case res of
        None \<Rightarrow> Some None
      | Some r \<Rightarrow>
          if B_Result \<notin> h \<or> refcount r = 2 ^ 31 - 1 then None
          else Some (Some (r\<lparr>refcount := refcount r + 1\<rparr>)))"

text \<open>The pointer a cell owns.\<close>

definition owns_block :: "corm_value_t \<Rightarrow> bool" where
  "owns_block c \<longleftrightarrow>
     (case uval c of
        VS (Some s) \<Rightarrow> vtype c = CORM_TEXT \<or> vtype c = CORM_STRING
      | VBlob (Some d) n \<Rightarrow> vtype c = CORM_BLOB
      | _ \<Rightarrow> False)"

text \<open>The loops of the release over the cells of row \<open>i\<close> from column \<open>j\<close>, over the rows and over
  the column names. Each step reads the arrays it goes through.\<close>

fun free_cells :: "nat \<Rightarrow> nat \<Rightarrow> nat \<Rightarrow> corm_value_t list \<Rightarrow> heap \<Rightarrow> heap option" where
  "free_cells i j 0 cs h = Some h"
| "free_cells i j (Suc n) [] h = None"
| "free_cells i j (Suc n) (c # cs) h =
     (if B_Result \<notin> h \<or> B_Rows \<notin> h \<or> B_Row i \<notin> h then None
      else if owns_block c then Option.bind (free_block (B_Cell i j) h) (free_cells i (Suc j) n cs)
      else free_cells i (Suc j) n cs h)"

fun free_rows :: "nat \<Rightarrow> nat \<Rightarrow> nat \<Rightarrow> corm_value_t list list \<Rightarrow> heap \<Rightarrow> heap option" where
  "free_rows i 0 cols rs h = Some h"
| "free_rows i (Suc n) cols [] h = None"
| "free_rows i (Suc n) cols (row # rs) h =
     Option.bind (free_cells i 0 cols row h) (\<lambda>h1.
       if B_Rows \<notin> h1 then None
       else Option.bind (free_member (B_Row i) h1) (free_rows (Suc i) n cols rs))"

fun free_names :: "nat \<Rightarrow> nat \<Rightarrow> string option list \<Rightarrow> heap \<Rightarrow> heap option" where
  "free_names j 0 ns h = Some h"
| "free_names j (Suc n) [] h = None"
| "free_names j (Suc n) (x # ns) h =
     (if B_Names \<notin> h then None
      else Option.bind (case x of None \<Rightarrow> Some h | Some s \<Rightarrow> free_member (B_Name j) h) (free_names (Suc j) n ns))"

definition free_result :: "corm_result_t \<Rightarrow> heap \<Rightarrow> heap option" where
  "free_result r h =
     Option.bind
       (case rows r of
          None \<Rightarrow> Some h
        | Some rs \<Rightarrow> Option.bind (free_rows 0 (nat (row_count r)) (nat (column_count r)) rs h) (free_member B_Rows)) (\<lambda>h1.
     Option.bind (free_names 0 (nat (column_count r)) (column_names r) h1) (\<lambda>h2.
     Option.bind (free_member B_Names h2) (\<lambda>h3.
     Option.bind (free_member B_Types h3) (free_block B_Result))))"

text \<open>Releasing: the object the pointer refers to, which is dead once \<open>B_Result\<close> is, and the heap.\<close>

definition corm_result_release :: "corm_result_t option \<Rightarrow> heap \<Rightarrow> (corm_result_t option \<times> heap) option" where
  "corm_result_release res h =
     (case res of
        None \<Rightarrow> Some (None, h)
      | Some r \<Rightarrow>
          if B_Result \<notin> h \<or> refcount r = - (2 ^ 31) then None
          else
            let r' = r\<lparr>refcount := refcount r - 1\<rparr> in
            if refcount r' > 0 then Some (Some r', h)
            else map_option (\<lambda>h'. (Some r', h')) (free_result r' h))"

section \<open>Access\<close>

definition corm_result_row_count :: "corm_result_t \<Rightarrow> int" where
  "corm_result_row_count r = row_count r"

definition corm_result_col_count :: "corm_result_t \<Rightarrow> int" where
  "corm_result_col_count r = column_count r"

definition nth_opt :: "'a list \<Rightarrow> int \<Rightarrow> 'a option" where
  "nth_opt xs i = (if 0 \<le> i \<and> nat i < length xs then Some (xs ! nat i) else None)"

definition corm_result_col_name :: "corm_result_t \<Rightarrow> int \<Rightarrow> string option option" where
  "corm_result_col_name r col =
     (if col < 0 \<or> col \<ge> column_count r then Some None else nth_opt (column_names r) col)"

definition corm_result_col_type :: "corm_result_t \<Rightarrow> int \<Rightarrow> corm_field_type_t option" where
  "corm_result_col_type r col =
     (if col < 0 \<or> col \<ge> column_count r then Some CORM_TEXT else nth_opt (column_types r) col)"

text \<open>The cell pointer: \<open>Some None\<close> is NULL.\<close>

definition corm_result_value :: "corm_result_t \<Rightarrow> int \<Rightarrow> int \<Rightarrow> corm_value_t option option" where
  "corm_result_value r row col =
     (if row < 0 \<or> row \<ge> row_count r then Some None
      else if col < 0 \<or> col \<ge> column_count r then Some None
      else Option.bind (rows r) (\<lambda>rs. Option.bind (nth_opt rs row) (\<lambda>cs. map_option Some (nth_opt cs col))))"

definition corm_result_next :: "corm_result_t \<Rightarrow> bool \<times> corm_result_t" where
  "corm_result_next r = (current_row r + 1 < row_count r, r\<lparr>current_row := current_row r + 1\<rparr>)"

definition corm_result_reset :: "corm_result_t \<Rightarrow> corm_result_t" where
  "corm_result_reset r = r\<lparr>current_row := -1\<rparr>"

definition corm_result_int :: "corm_result_t \<Rightarrow> int \<Rightarrow> int \<Rightarrow> 64 word option" where
  "corm_result_int r row col =
     Option.bind (corm_result_value r row col) (\<lambda>c. case c of
       None \<Rightarrow> Some 0 | Some x \<Rightarrow> if is_null x then Some 0 else v_i (uval x))"

definition corm_result_double :: "corm_result_t \<Rightarrow> int \<Rightarrow> int \<Rightarrow> 64 word option" where
  "corm_result_double r row col =
     Option.bind (corm_result_value r row col) (\<lambda>c. case c of
       None \<Rightarrow> Some 0 | Some x \<Rightarrow> if is_null x then Some 0 else v_f (uval x))"

definition corm_result_string :: "corm_result_t \<Rightarrow> int \<Rightarrow> int \<Rightarrow> string option option" where
  "corm_result_string r row col =
     Option.bind (corm_result_value r row col) (\<lambda>c. case c of
       None \<Rightarrow> Some None | Some x \<Rightarrow> if is_null x then Some None else v_s (uval x))"

definition corm_result_bool :: "corm_result_t \<Rightarrow> int \<Rightarrow> int \<Rightarrow> bool option" where
  "corm_result_bool r row col =
     Option.bind (corm_result_value r row col) (\<lambda>c. case c of
       None \<Rightarrow> Some False | Some x \<Rightarrow> if is_null x then Some False else v_b (uval x))"

definition corm_result_is_null :: "corm_result_t \<Rightarrow> int \<Rightarrow> int \<Rightarrow> bool option" where
  "corm_result_is_null r row col =
     map_option (\<lambda>c. case c of None \<Rightarrow> True | Some x \<Rightarrow> is_null x) (corm_result_value r row col)"

section \<open>Well-formed results\<close>

text \<open>What \<^verbatim>\<open>corm_result_new\<close> establishes and a driver that fills cells in place keeps.\<close>

definition result_wf :: "corm_result_t \<Rightarrow> bool" where
  "result_wf r \<longleftrightarrow>
     0 \<le> column_count r \<and> length (column_names r) = nat (column_count r) \<and>
     length (column_types r) = nat (column_count r) \<and>
     (case rows r of
        None \<Rightarrow> row_count r \<le> 0
      | Some rs \<Rightarrow> length rs = nat (row_count r) \<and> 0 < row_count r \<and>
                  (\<forall>row\<in>set rs. length row = nat (column_count r)))"

text \<open>The blocks reachable from an object: what a release has to free.\<close>

definition cells_of :: "nat \<Rightarrow> nat \<Rightarrow> corm_value_t list \<Rightarrow> heap" where
  "cells_of i j cs = {B_Cell i (j + k) | k. k < length cs \<and> owns_block (cs ! k)}"

definition rows_of :: "nat \<Rightarrow> corm_value_t list list \<Rightarrow> heap" where
  "rows_of i rs = (\<Union>k<length rs. {B_Row (i + k)} \<union> cells_of (i + k) 0 (rs ! k))"

definition names_of :: "nat \<Rightarrow> string option list \<Rightarrow> heap" where
  "names_of j ns = {B_Name (j + k) | k. k < length ns \<and> ns ! k \<noteq> None}"

definition live_blocks :: "corm_result_t \<Rightarrow> heap" where
  "live_blocks r =
     {B_Result, B_Names, B_Types} \<union> names_of 0 (column_names r) \<union>
     (case rows r of None \<Rightarrow> {} | Some rs \<Rightarrow> insert B_Rows (rows_of 0 rs))"

lemma cells_of_simps:
  "cells_of i j [] = {}" "cells_of i j (c # cs) = (if owns_block c then {B_Cell i j} else {}) \<union> cells_of i (Suc j) cs"
  by (auto simp: cells_of_def less_Suc_eq_0_disj)

lemma rows_of_simps:
  "rows_of i [] = {}" "rows_of i (row # rs) = insert (B_Row i) (cells_of i 0 row \<union> rows_of (Suc i) rs)"
  by (auto simp: rows_of_def lessThan_Suc_eq_insert_0)

lemma names_of_simps:
  "names_of j [] = {}" "names_of j (x # ns) = (if x = None then {} else {B_Name j}) \<union> names_of (Suc j) ns"
  by (auto simp: names_of_def less_Suc_eq_0_disj)

lemma cells_of_kinds: "b \<in> cells_of i j cs \<Longrightarrow> \<exists>k\<ge>j. b = B_Cell i k"
  by (auto simp: cells_of_def)

lemma rows_of_kinds: "b \<in> rows_of i rs \<Longrightarrow> \<exists>k\<ge>i. b = B_Row k \<or> (\<exists>l. b = B_Cell k l)"
  by (fastforce simp: rows_of_def dest: cells_of_kinds)

lemma names_of_kinds: "b \<in> names_of j ns \<Longrightarrow> \<exists>k\<ge>j. b = B_Name k"
  by (auto simp: names_of_def)

lemma free_cells_full:
  "{B_Result, B_Rows, B_Row i} \<subseteq> h \<Longrightarrow> cells_of i j cs \<subseteq> h \<Longrightarrow>
     free_cells i j (length cs) cs h = Some (h - cells_of i j cs)"
proof (induction cs arbitrary: j h)
  case (Cons c cs)
  have "B_Cell i j \<notin> cells_of i (Suc j) cs" using cells_of_kinds by fastforce
  with Cons.IH [of "h - {B_Cell i j}" "Suc j"] Cons.IH [of h "Suc j"] Cons.prems show ?case
    by (auto simp: cells_of_simps free_block_def Diff_insert [symmetric] Diff_insert2 [symmetric])
qed (simp add: cells_of_simps)

lemma free_rows_full:
  "{B_Result, B_Rows} \<subseteq> h \<Longrightarrow> rows_of i rs \<subseteq> h \<Longrightarrow> \<forall>row\<in>set rs. length row = cols \<Longrightarrow>
     free_rows i (length rs) cols rs h = Some (h - rows_of i rs)"
proof (induction rs arbitrary: i h)
  case (Cons row rs)
  let ?h = "h - cells_of i 0 row - {B_Row i}"
  have c: "free_cells i 0 cols row h = Some (h - cells_of i 0 row)"
    using free_cells_full [of i h 0 row] Cons.prems by (auto simp: rows_of_simps)
  have k: "B_Result \<in> h - cells_of i 0 row" "B_Rows \<in> h - cells_of i 0 row" "B_Row i \<in> h - cells_of i 0 row"
    using Cons.prems cells_of_kinds by (fastforce simp: rows_of_simps)+
  have "rows_of (Suc i) rs \<subseteq> ?h" using Cons.prems(2) by (fastforce simp: rows_of_simps dest: cells_of_kinds rows_of_kinds)
  with Cons.IH [of ?h "Suc i"] Cons.prems(3) k have "free_rows (Suc i) (length rs) cols rs ?h = Some (?h - rows_of (Suc i) rs)" by simp
  moreover have "?h - rows_of (Suc i) rs = h - rows_of i (row # rs)" by (auto simp: rows_of_simps)
  ultimately show ?case using c k by (simp add: free_member_def free_block_def)
qed (simp add: rows_of_simps)

lemma free_names_full:
  "{B_Result, B_Names} \<subseteq> h \<Longrightarrow> names_of j ns \<subseteq> h \<Longrightarrow> free_names j (length ns) ns h = Some (h - names_of j ns)"
proof (induction ns arbitrary: j h)
  case (Cons x ns)
  have "B_Name j \<notin> names_of (Suc j) ns" using names_of_kinds by fastforce
  with Cons.IH [of "h - {B_Name j}" "Suc j"] Cons.IH [of h "Suc j"] Cons.prems show ?case
    by (cases x) (auto simp: names_of_simps free_member_def free_block_def Diff_insert2 [symmetric] subset_Diff_insert)
qed (simp add: names_of_simps)

text \<open>Freeing a well-formed object removes exactly its blocks from the heap, each once and each while
  the arrays that lead to it are live.\<close>

lemma free_result_full:
  assumes "result_wf r" and "live_blocks r \<subseteq> h"
  shows "free_result r h = Some (h - live_blocks r)"
proof -
  let ?ns = "names_of 0 (column_names r)"
  let ?rows = "case rows r of None \<Rightarrow> {} | Some rs \<Rightarrow> insert B_Rows (rows_of 0 rs)"
  have live: "B_Result \<in> h" "B_Names \<in> h" "B_Types \<in> h" "?ns \<subseteq> h" "?rows \<subseteq> h"
    using assms(2) by (simp_all add: live_blocks_def)
  have kinds: "B_Result \<notin> ?rows" "B_Names \<notin> ?rows" "B_Types \<notin> ?rows" "?ns \<inter> ?rows = {}"
    "B_Result \<notin> ?ns" "B_Names \<notin> ?ns" "B_Types \<notin> ?ns"
    by (auto split: option.splits dest: rows_of_kinds names_of_kinds)
  have rs: "(case rows r of None \<Rightarrow> Some h
      | Some rs \<Rightarrow> Option.bind (free_rows 0 (nat (row_count r)) (nat (column_count r)) rs h) (free_member B_Rows)) = Some (h - ?rows)"
  proof (cases "rows r")
    case (Some rs)
    with assms(1) have l: "length rs = nat (row_count r)" "\<forall>row\<in>set rs. length row = nat (column_count r)" by (auto simp: result_wf_def)
    have "B_Result \<in> h - rows_of 0 rs" "B_Rows \<in> h - rows_of 0 rs" using live Some by (auto dest: rows_of_kinds)
    with free_rows_full [of h 0 rs, OF _ _ l(2)] l(1) live Some show ?thesis
      by (auto simp: free_member_def free_block_def)
  qed simp
  have "length (column_names r) = nat (column_count r)" using assms(1) by (simp add: result_wf_def)
  with free_names_full [of "h - ?rows" 0 "column_names r"] live kinds
  have ns: "free_names 0 (nat (column_count r)) (column_names r) (h - ?rows) = Some (h - ?rows - ?ns)" by auto
  have "h - live_blocks r = h - ?rows - ?ns - {B_Names} - {B_Types} - {B_Result}" by (auto simp: live_blocks_def)
  with rs ns live kinds show ?thesis by (auto simp: free_result_def free_member_def free_block_def)
qed

lemma alloc_rows_ok:
  "alloc_rows cols n m = (True, rs, m') \<Longrightarrow>
     length rs = n \<and> rs = replicate n (replicate (nat cols) zero_cell)"
  by (induction cols n m arbitrary: rs rule: alloc_rows.induct) (auto split: prod.splits bool.splits)

lemma cells_of_zero: "cells_of i j (replicate n zero_cell) = {}"
  by (simp add: cells_of_def owns_block_def zero_cell_def)

lemma rows_of_zero: "rows_of i (replicate n (replicate k zero_cell)) = B_Row ` {i..<i + n}"
proof -
  have "rows_of i (replicate n (replicate k zero_cell)) = (\<lambda>l. B_Row (i + l)) ` {..<n}" by (auto simp: rows_of_def cells_of_zero)
  also have "\<dots> = B_Row ` plus i ` {0..<n}" by (simp add: image_image atLeast0LessThan)
  finally show ?thesis by (simp add: image_add_atLeastLessThan' add.commute)
qed

lemma names_of_none: "names_of j (replicate n None) = {}"
  by (simp add: names_of_def)

lemma result_new_wf:
  assumes "corm_result_new cols nrows m = (Some r, a, f, m')"
  shows "result_wf r \<and> column_count r = cols \<and> row_count r = nrows \<and> current_row r = -1 \<and> refcount r = 1 \<and>
    f = [] \<and> set a = live_blocks r \<and> distinct a"
proof -
  have "0 \<le> cols" using assms
    by (auto simp: corm_result_new_def calloc_n_def split: prod.splits bool.splits if_splits)
  then show ?thesis
    using assms
    by (auto simp: corm_result_new_def result_wf_def live_blocks_def Let_def names_of_none rows_of_zero distinct_map
        inj_on_def atLeast0LessThan insert_commute simp del: upt_Suc dest!: alloc_rows_ok split: prod.splits bool.splits if_splits)
qed

lemma result_new_fail:
  "corm_result_new cols nrows m = (None, a, f, m') \<Longrightarrow> distinct f \<and> distinct a \<and> set f = set a"
  by (auto simp: corm_result_new_def Let_def distinct_map inj_on_def split: prod.splits bool.splits if_splits)

lemma value_wf_access:
  assumes "result_wf r"
  shows "corm_result_value r row col =
    (if 0 \<le> row \<and> row < row_count r \<and> 0 \<le> col \<and> col < column_count r
     then Some (Some (the (rows r) ! nat row ! nat col)) else Some None)"
proof (cases "0 \<le> row \<and> row < row_count r \<and> 0 \<le> col \<and> col < column_count r")
  case True
  with assms obtain rs where rs: "rows r = Some rs" "length rs = nat (row_count r)"
    "\<forall>x\<in>set rs. length x = nat (column_count r)" by (auto simp: result_wf_def split: option.splits)
  with True have "nat row < length rs" by simp
  moreover from this rs(3) have "length (rs ! nat row) = nat (column_count r)" by simp
  ultimately show ?thesis using True rs(1) by (simp add: corm_result_value_def nth_opt_def)
qed (auto simp: corm_result_value_def)

section \<open>Iteration and sharing\<close>

text \<open>\<^verbatim>\<open>while (corm_result_next(r)) visit(r->current_row);\<close> bounded by \<open>fuel\<close> calls.\<close>

fun iterate :: "nat \<Rightarrow> corm_result_t \<Rightarrow> int list \<times> corm_result_t \<times> bool" where
  "iterate 0 r = ([], r, False)"
| "iterate (Suc n) r =
     (case corm_result_next r of
        (False, r') \<Rightarrow> ([], r', True)
      | (True, r') \<Rightarrow> (case iterate n r' of (vs, r'', fin) \<Rightarrow> (current_row r' # vs, r'', fin)))"

lemma iterate_from:
  assumes "0 \<le> k" and "current_row r + k = row_count r - 1" and "nat k < n"
  shows "iterate n r = ([current_row r + 1..row_count r - 1], r\<lparr>current_row := row_count r\<rparr>, True)"
  using assms
proof (induction n arbitrary: r k)
  case (Suc n)
  show ?case
  proof (cases "k = 0")
    case True
    with Suc.prems show ?thesis by (simp add: corm_result_next_def)
  next
    case False
    let ?r = "r\<lparr>current_row := current_row r + 1\<rparr>"
    have "iterate n ?r = ([current_row ?r + 1..row_count ?r - 1], ?r\<lparr>current_row := row_count ?r\<rparr>, True)"
      using Suc.prems False by (intro Suc.IH [of "k - 1"]) auto
    moreover have "[current_row r + 1..row_count r - 1] = (current_row r + 1) # [current_row r + 1 + 1..row_count r - 1]"
      using Suc.prems False upto_rec1 [of "current_row r + 1" "row_count r - 1"] by simp
    ultimately show ?thesis using Suc.prems False by (simp add: corm_result_next_def)
  qed
qed simp

fun retains :: "nat \<Rightarrow> corm_result_t option \<Rightarrow> heap \<Rightarrow> corm_result_t option option" where
  "retains 0 r h = Some r"
| "retains (Suc n) r h = Option.bind (corm_result_retain r h) (\<lambda>r'. retains n r' h)"

text \<open>A run of releases.\<close>

fun releases :: "nat \<Rightarrow> corm_result_t option \<Rightarrow> heap \<Rightarrow> (corm_result_t option \<times> heap) option" where
  "releases 0 r h = Some (r, h)"
| "releases (Suc n) r h = Option.bind (corm_result_release r h) (\<lambda>(r', h'). releases n r' h')"

lemma retains_Some:
  "B_Result \<in> h \<Longrightarrow> refcount r + int n < 2 ^ 31 \<Longrightarrow> retains n (Some r) h = Some (Some (r\<lparr>refcount := refcount r + int n\<rparr>))"
  by (induction n arbitrary: r) (simp_all add: corm_result_retain_def add.commute add.left_commute)

lemma releases_shared:
  "B_Result \<in> h \<Longrightarrow> int n < refcount r \<Longrightarrow> releases n (Some r) h = Some (Some (r\<lparr>refcount := refcount r - int n\<rparr>), h)"
  by (induction n arbitrary: r) (simp_all add: corm_result_release_def Let_def algebra_simps)

lemma releases_append: "releases (n + k) r h = Option.bind (releases n r h) (\<lambda>(r', h'). releases k r' h')"
  by (induction n arbitrary: r h) (simp_all add: case_prod_unfold)

lemma live_blocks_refcount [simp]: "live_blocks (r\<lparr>refcount := k\<rparr>) = live_blocks r" "result_wf (r\<lparr>refcount := k\<rparr>) = result_wf r"
  by (simp_all add: live_blocks_def result_wf_def split: option.split)

lemma release_last:
  assumes "result_wf r" and "refcount r = 1" and "live_blocks r \<subseteq> h"
  shows "corm_result_release (Some r) h = Some (Some (r\<lparr>refcount := 0\<rparr>), h - live_blocks r)"
  using assms free_result_full [of "r\<lparr>refcount := 0\<rparr>" h] by (auto simp: corm_result_release_def live_blocks_def)

section \<open>Properties\<close>

text \<open>Allocating a result either gives a well-formed object with its rows and columns zeroed,
  the iterator before the first row and one reference, holding exactly the blocks that its release
  will free; or it returns NULL having freed every block it had allocated once, whichever allocation
  failed.\<close>

theorem result_new_no_leak:
  assumes "corm_result_new cols nrows m = (res, allocated, freed, m')"
  shows "case res of
      Some r \<Rightarrow> result_wf r \<and> column_count r = cols \<and> row_count r = nrows \<and> current_row r = -1 \<and> refcount r = 1 \<and>
        freed = [] \<and> (\<exists>r'. corm_result_release res (set allocated) = Some (r', {}))
    | None \<Rightarrow> distinct freed \<and> distinct allocated \<and> set freed = set allocated"
proof (cases res)
  case None
  with assms result_new_fail show ?thesis by simp
next
  case (Some r)
  with assms result_new_wf [of cols nrows m r] release_last [of r "set allocated"] show ?thesis by simp
qed

theorem result_new_no_leak_witness:
  "\<exists>a f. corm_result_new 2 3 [True, True, True, True, True, False] = (None, a, f, []) \<and> B_Row 0 \<in> set a \<and> set f = set a"
proof -
  obtain a f where r: "corm_result_new 2 3 [True, True, True, True, True, False] = (None, a, f, [])" "B_Row 0 \<in> set a"
    by (simp add: corm_result_new_def calloc_n_def eval_nat_numeral)
  from result_new_no_leak [OF r(1)] r show ?thesis by simp
qed

text \<open>Access is bounds checked: on a well-formed result a cell is returned exactly for a row and a
  column in range, NULL otherwise, and no access leaves the arrays; the scalar helpers then return
  their zero value, and a cell out of range counts as SQL NULL.\<close>

theorem result_access_bounds:
  assumes "result_wf r"
  shows "corm_result_value r row col =
      (if 0 \<le> row \<and> row < row_count r \<and> 0 \<le> col \<and> col < column_count r
       then Some (Some (the (rows r) ! nat row ! nat col)) else Some None) \<and>
    (\<not> (0 \<le> row \<and> row < row_count r \<and> 0 \<le> col \<and> col < column_count r) \<longrightarrow>
       corm_result_int r row col = Some 0 \<and> corm_result_double r row col = Some 0 \<and>
       corm_result_string r row col = Some None \<and> corm_result_bool r row col = Some False \<and>
       corm_result_is_null r row col = Some True)"
  using value_wf_access [OF assms, of row col]
  by (auto simp: corm_result_int_def corm_result_double_def corm_result_string_def corm_result_bool_def
      corm_result_is_null_def)

theorem result_access_bounds_witness:
  "\<exists>r a f m'. corm_result_new 2 1 [] = (Some r, a, f, m') \<and> corm_result_value r 0 1 = Some (Some zero_cell) \<and>
     corm_result_value r 1 0 = Some None"
proof -
  obtain r a f m' where n: "corm_result_new 2 1 [] = (Some r, a, f, m')" and rs: "rows r = Some [[zero_cell, zero_cell]]"
    by (auto simp: corm_result_new_def calloc_n_def Let_def eval_nat_numeral)
  from result_new_wf [OF n] have w: "result_wf r" "row_count r = 1" "column_count r = 2" by auto
  from result_access_bounds [OF w(1), of 0 1] result_access_bounds [OF w(1), of 1 0] w rs n show ?thesis by simp
qed

text \<open>The row iterator visits every row exactly once and in order: after a reset, the loop over
  \<^verbatim>\<open>corm_result_next\<close> terminates after one call per row and a last one, having seen
  \<open>0, ..., row_count - 1\<close>.\<close>

theorem result_iteration:
  assumes "0 \<le> row_count r" and "nat (row_count r) < n"
  shows "iterate n (corm_result_reset r) = ([0..row_count r - 1], r\<lparr>current_row := row_count r\<rparr>, True)"
  using iterate_from [of "row_count r" "corm_result_reset r" n] assms by (simp add: corm_result_reset_def)

theorem result_iteration_witness:
  "\<exists>r a f m'. corm_result_new 1 3 [] = (Some r, a, f, m') \<and> fst (iterate 4 (corm_result_reset r)) = [0, 1, 2]"
proof -
  obtain r a f m' where n: "corm_result_new 1 3 [] = (Some r, a, f, m')"
    by (simp add: corm_result_new_def calloc_n_def Let_def eval_nat_numeral)
  from result_new_wf [OF n] have "row_count r = 3" by simp
  with result_iteration [of r 4] n show ?thesis by (simp add: upto_rec1)
qed

text \<open>(C27) Shared ownership: after \<open>n\<close> retains of a well-formed result with one reference (fewer
  than the counter can hold), the first \<open>n\<close> releases count down and free nothing; the next one frees
  exactly the blocks reachable from the object -- every string and blob of a cell, every row, every
  column name, the arrays and the object --, each once, none before a block is read through it, and
  nothing else on the heap; one release more is a use after free.\<close>

theorem result_refcount_exact:
  assumes "result_wf r" and "refcount r = 1" and "int n < 2 ^ 31 - 1" and "live_blocks r \<subseteq> h"
  shows "\<exists>r'. retains n (Some r) h = Some r' \<and>
    (\<forall>k\<le>n. releases k r' h = Some (Some (r\<lparr>refcount := int (n + 1 - k)\<rparr>), h)) \<and>
    (\<exists>r2. releases (n + 1) r' h = Some (r2, h - live_blocks r) \<and> corm_result_release r2 (h - live_blocks r) = None)"
proof -
  let ?r = "r\<lparr>refcount := 1 + int n\<rparr>"
  have live: "B_Result \<in> h" "B_Result \<in> live_blocks r" using assms(4) by (auto simp: live_blocks_def)
  have keep: "retains n (Some r) h = Some (Some ?r)" using retains_Some [OF live(1), of r n] assms(2,3) by simp
  have down: "releases k (Some ?r) h = Some (Some (r\<lparr>refcount := int (n + 1 - k)\<rparr>), h)" if "k \<le> n" for k
    using releases_shared [OF live(1), of k ?r] that by (simp add: of_nat_diff)
  have "releases (n + 1) (Some ?r) h = corm_result_release (Some (r\<lparr>refcount := 1\<rparr>)) h"
    using down [of n] unfolding releases_append by (cases "corm_result_release (Some (r\<lparr>refcount := 1\<rparr>)) h") auto
  also have "\<dots> = Some (Some (r\<lparr>refcount := 0\<rparr>), h - live_blocks r)"
    using release_last [of "r\<lparr>refcount := 1\<rparr>" h] assms by simp
  finally have last: "releases (n + 1) (Some ?r) h = Some (Some (r\<lparr>refcount := 0\<rparr>), h - live_blocks r)" .
  have "corm_result_release (Some (r\<lparr>refcount := 0\<rparr>)) (h - live_blocks r) = None" using live(2) by (simp add: corm_result_release_def)
  with keep down last show ?thesis by blast
qed

text \<open>A result with a name, a text and a number, shared with one other holder.\<close>

definition shared_result :: corm_result_t where
  "shared_result = \<lparr>column_count = 2, column_names = [Some ''id'', None], column_types = [CORM_INT64, CORM_TEXT],
     rows = Some [[\<lparr>vtype = CORM_INT64, is_null = False, uval = VI 7\<rparr>, \<lparr>vtype = CORM_TEXT, is_null = False, uval = VS (Some ''ann'')\<rparr>]],
     row_count = 1, current_row = -1, refcount = 1\<rparr>"

lemma shared_blocks:
  "live_blocks shared_result = {B_Result, B_Names, B_Types, B_Rows, B_Name 0, B_Row 0, B_Cell 0 1}"
  by (simp add: live_blocks_def shared_result_def names_of_simps rows_of_simps cells_of_simps owns_block_def insert_commute)

theorem result_refcount_exact_witness:
  "\<exists>r' r2. retains 1 (Some shared_result) {B_Result, B_Names, B_Types, B_Rows, B_Name 0, B_Row 0, B_Cell 0 1} = Some r' \<and>
     releases 2 r' {B_Result, B_Names, B_Types, B_Rows, B_Name 0, B_Row 0, B_Cell 0 1} = Some (r2, {}) \<and>
     corm_result_release r2 {} = None"
proof -
  have "result_wf shared_result" "refcount shared_result = 1" by (simp_all add: result_wf_def shared_result_def)
  from result_refcount_exact [OF this, of 1 "live_blocks shared_result"] show ?thesis
    unfolding shared_blocks [symmetric] one_add_one by (simp del: releases.simps retains.simps) blast
qed

end
