(* ===== verification/Backend.thy ===== *)
theory Backend
  imports Stmt_Cache Result
begin

text \<open>
  The backend interface (\<^verbatim>\<open>include/corm/backend.h\<close>) and the global backend registry
  (\<^verbatim>\<open>src/backend/backend.c\<close>). A backend is a record of functions on the part of
  \<^verbatim>\<open>struct corm\<close> that drivers read and write; \<open>'c\<close> is the driver's connection (with the
  database behind it) and \<open>'s\<close> its prepared statements.
\<close>

section \<open>The driver-visible part of a connection\<close>

text \<open>\<open>calls\<close> records the calls the library made through the function table, in order. It is not
  part of the C struct and no operation reads it; it lets the theorems speak about what was sent to
  the database.\<close>

datatype backend_call =
    Ev_Ping corm_err_t | Ev_Begin corm_err_t | Ev_Commit corm_err_t | Ev_Rollback corm_err_t
  | Ev_Exec string "corm_value_t list" corm_err_t
  | Ev_Query string "corm_value_t list" corm_err_t
  | Ev_Describe string corm_err_t

record ('c, 's) conn_core =
  conn :: "'c option"
  err_msg :: string
  last_insert_id_val :: "64 word"
  rows_affected_val :: int
  stmt_cache :: "'s corm_stmt_cache_t option"
  calls :: "backend_call list"

record corm_column_info_t =
  cname :: "string option"
  type_name :: "string option"
  col_not_null :: int
  is_pk :: int
  col_default :: "string option"

text \<open>The function table. \<open>b_open\<close> and \<open>b_describe_table\<close> may be NULL, as their callers check.\<close>

record ('c, 's) corm_backend_t =
  bname :: string
  btype :: corm_backend_type_t
  b_open :: "(('c, 's) conn_core \<Rightarrow> string \<Rightarrow> mem \<Rightarrow> corm_err_t \<times> ('c, 's) conn_core \<times> mem) option"
  b_close :: "('c, 's) conn_core \<Rightarrow> corm_err_t \<times> ('c, 's) conn_core"
  b_ping :: "('c, 's) conn_core \<Rightarrow> mem \<Rightarrow> corm_err_t \<times> ('c, 's) conn_core \<times> mem"
  b_exec :: "('c, 's) conn_core \<Rightarrow> string \<Rightarrow> corm_value_t list \<Rightarrow> mem \<Rightarrow> corm_err_t \<times> ('c, 's) conn_core \<times> mem"
  b_query :: "('c, 's) conn_core \<Rightarrow> string \<Rightarrow> corm_value_t list \<Rightarrow> mem \<Rightarrow>
                (corm_err_t \<times> corm_result_t option) \<times> ('c, 's) conn_core \<times> mem"
  b_begin :: "('c, 's) conn_core \<Rightarrow> mem \<Rightarrow> corm_err_t \<times> ('c, 's) conn_core \<times> mem"
  b_commit :: "('c, 's) conn_core \<Rightarrow> mem \<Rightarrow> corm_err_t \<times> ('c, 's) conn_core \<times> mem"
  b_rollback :: "('c, 's) conn_core \<Rightarrow> mem \<Rightarrow> corm_err_t \<times> ('c, 's) conn_core \<times> mem"
  b_escape_string :: "('c, 's) conn_core \<Rightarrow> string \<Rightarrow> string"
  b_last_insert_id :: "('c, 's) conn_core \<Rightarrow> 64 word"
  b_rows_affected :: "('c, 's) conn_core \<Rightarrow> int"
  b_describe_table :: "(('c, 's) conn_core \<Rightarrow> string \<Rightarrow> mem \<Rightarrow>
                (corm_err_t \<times> corm_column_info_t list option) \<times> ('c, 's) conn_core \<times> mem) option"

text \<open>The drivers are partial: a call whose C code has undefined behaviour gives \<open>None\<close>. In the table
  its answer is unspecified; only the script of the allocator, which is not the driver's, stays.\<close>

definition answered :: "('a \<times> 'd \<times> mem) option \<Rightarrow> mem \<Rightarrow> 'a \<times> 'd \<times> mem" where
  "answered r m = (case r of Some x \<Rightarrow> x | None \<Rightarrow> (undefined, undefined, m))"

lemma answered_simps [simp]: "answered (Some x) m = x" "snd (snd (answered None m)) = m"
  by (simp_all add: answered_def)

lemma answered_mem: "(\<And>a d m'. r = Some (a, d, m') \<Longrightarrow> m' = []) \<Longrightarrow> snd (snd (answered r [])) = []"
  by (cases r) auto

section \<open>Calls through the table\<close>

definition logged :: "('c, 's) conn_core \<Rightarrow> backend_call \<Rightarrow> ('c, 's) conn_core \<Rightarrow> ('c, 's) conn_core" where
  "logged c ev c' = c'\<lparr>calls := calls c @ [ev]\<rparr>"

definition call_simple ::
  "(corm_err_t \<Rightarrow> backend_call) \<Rightarrow> (('c, 's) conn_core \<Rightarrow> mem \<Rightarrow> corm_err_t \<times> ('c, 's) conn_core \<times> mem) \<Rightarrow>
     ('c, 's) conn_core \<Rightarrow> mem \<Rightarrow> corm_err_t \<times> ('c, 's) conn_core \<times> mem" where
  "call_simple ev f c m = (case f c m of (err, c', m') \<Rightarrow> (err, logged c (ev err) c', m'))"

definition call_exec ::
  "('c, 's) corm_backend_t \<Rightarrow> ('c, 's) conn_core \<Rightarrow> string \<Rightarrow> corm_value_t list \<Rightarrow> mem \<Rightarrow>
     corm_err_t \<times> ('c, 's) conn_core \<times> mem" where
  "call_exec b c sql ps m = (case b_exec b c sql ps m of (err, c', m') \<Rightarrow> (err, logged c (Ev_Exec sql ps err) c', m'))"

definition call_query ::
  "('c, 's) corm_backend_t \<Rightarrow> ('c, 's) conn_core \<Rightarrow> string \<Rightarrow> corm_value_t list \<Rightarrow> mem \<Rightarrow>
     (corm_err_t \<times> corm_result_t option) \<times> ('c, 's) conn_core \<times> mem" where
  "call_query b c sql ps m =
     (case b_query b c sql ps m of ((err, res), c', m') \<Rightarrow> ((err, res), logged c (Ev_Query sql ps err) c', m'))"

lemma calls_logged [simp]: "calls (logged c ev c') = calls c @ [ev]"
  by (simp add: logged_def)

lemma call_simple_calls:
  "call_simple ev f c m = (err, c', m') \<Longrightarrow> calls c' = calls c @ [ev err]"
  by (auto simp: call_simple_def split: prod.splits)

lemma call_exec_calls:
  "call_exec b c sql ps m = (err, c', m') \<Longrightarrow> calls c' = calls c @ [Ev_Exec sql ps err]"
  by (auto simp: call_exec_def split: prod.splits)

lemma call_query_calls:
  "call_query b c sql ps m = ((err, res), c', m') \<Longrightarrow> calls c' = calls c @ [Ev_Query sql ps err]"
  by (auto simp: call_query_def split: prod.splits)

text \<open>The backend does not use up the memory of the library.\<close>

definition keeps_mem :: "('c, 's) corm_backend_t \<Rightarrow> bool" where
  "keeps_mem b \<longleftrightarrow> (\<forall>c s ps. snd (snd (b_exec b c s ps [])) = []) \<and> (\<forall>c. snd (snd (b_begin b c [])) = []) \<and>
     (\<forall>d c s. b_describe_table b = Some d \<longrightarrow> snd (snd (d c s [])) = [])"

text \<open>The contract the batch operations and the migration rely on. Each driver provides it.\<close>

locale steady_backend =
  fixes b :: "('c, 's) corm_backend_t"
  assumes steady: "keeps_mem b"
begin

lemma steady_exec: "call_exec b c sql ps [] = (err, c', m') \<Longrightarrow> m' = []"
  using steady by (auto simp: call_exec_def keeps_mem_def split: prod.splits) (metis snd_conv)

lemma steady_begin: "call_simple ev (b_begin b) c [] = (err, c', m') \<Longrightarrow> m' = []"
  using steady by (auto simp: call_simple_def keeps_mem_def split: prod.splits) (metis snd_conv)

end

section \<open>The registry\<close>

text \<open>The global array, its used part; a slot is replaced in place for a type that is present.\<close>

definition CORM_MAX_BACKENDS :: nat where "CORM_MAX_BACKENDS = 8"

fun replace_backend ::
  "('c, 's) corm_backend_t list \<Rightarrow> corm_backend_type_t \<Rightarrow> ('c, 's) corm_backend_t \<Rightarrow> ('c, 's) corm_backend_t list option" where
  "replace_backend [] type b = None"
| "replace_backend (g # gs) type b =
     (if btype g = type then Some (b # gs) else map_option (\<lambda>gs'. g # gs') (replace_backend gs type b))"

definition corm_register_backend ::
  "('c, 's) corm_backend_t list \<Rightarrow> corm_backend_type_t \<Rightarrow> ('c, 's) corm_backend_t \<Rightarrow>
     corm_err_t \<times> ('c, 's) corm_backend_t list" where
  "corm_register_backend gs type b =
     (if length gs \<ge> CORM_MAX_BACKENDS then (CORM_ERR_GENERIC, gs)
      else (case replace_backend gs type b of
              Some gs' \<Rightarrow> (CORM_OK, gs')
            | None \<Rightarrow> (CORM_OK, gs @ [b])))"

definition corm_get_backend ::
  "('c, 's) corm_backend_t list \<Rightarrow> corm_backend_type_t \<Rightarrow> ('c, 's) corm_backend_t option" where
  "corm_get_backend gs type = List.find (\<lambda>g. btype g = type) gs"

text \<open>Freeing column descriptions: the blocks released.\<close>

definition column_blocks :: "corm_column_info_t \<Rightarrow> nat" where
  "column_blocks c = length (filter (\<lambda>p. p \<noteq> None) [cname c, type_name c, col_default c])"

definition corm_column_info_free :: "corm_column_info_t list option \<Rightarrow> int \<Rightarrow> nat" where
  "corm_column_info_free cols count =
     (case cols of
        None \<Rightarrow> 0
      | Some cs \<Rightarrow> sum_list (map column_blocks (take (nat count) cs)) + 1)"

section \<open>Lemmas\<close>

lemma replace_backend_None: "replace_backend gs t b = None \<longleftrightarrow> t \<notin> btype ` set gs"
  by (induction gs t b rule: replace_backend.induct) auto

lemma replace_backend_Some:
  "replace_backend gs t b = Some gs' \<Longrightarrow> btype b = t \<Longrightarrow>
     map btype gs' = map btype gs \<and> length gs' = length gs \<and>
     (\<forall>u. corm_get_backend gs' u = (if u = t then Some b else corm_get_backend gs u))"
proof (induction gs t b arbitrary: gs' rule: replace_backend.induct)
  case (2 g gs t b)
  show ?case
  proof (cases "btype g = t")
    case True
    with 2 show ?thesis by (auto simp: corm_get_backend_def)
  next
    case False
    with "2.prems" obtain gs1 where gs1: "replace_backend gs t b = Some gs1" "gs' = g # gs1" by auto
    from "2.IH" [OF False gs1(1) "2.prems"(2)] gs1(2) False show ?thesis by (auto simp: corm_get_backend_def)
  qed
qed simp

lemma get_backend_append:
  "btype b = t \<Longrightarrow> t \<notin> btype ` set gs \<Longrightarrow>
     corm_get_backend (gs @ [b]) u = (if u = t then Some b else corm_get_backend gs u)"
  by (induction gs) (auto simp: corm_get_backend_def)

lemma register_backend_cases:
  assumes "btype b = t" and "distinct (map btype gs)" and "corm_register_backend gs t b = (err, gs')"
  shows "err = CORM_ERR_GENERIC \<and> CORM_MAX_BACKENDS \<le> length gs \<and> gs' = gs \<or>
    err = CORM_OK \<and> distinct (map btype gs') \<and> length gs' \<le> CORM_MAX_BACKENDS \<and>
      (\<forall>u. corm_get_backend gs' u = (if u = t then Some b else corm_get_backend gs u))"
proof (cases "length gs \<ge> CORM_MAX_BACKENDS")
  case True
  with assms(3) show ?thesis by (simp add: corm_register_backend_def)
next
  case False
  show ?thesis
  proof (cases "replace_backend gs t b")
    case None
    then have t: "t \<notin> btype ` set gs" by (simp add: replace_backend_None)
    from None False assms(3) have "err = CORM_OK" "gs' = gs @ [b]" by (auto simp: corm_register_backend_def)
    with t assms(1,2) False get_backend_append [OF assms(1) t] show ?thesis by auto
  next
    case (Some gs1)
    with False assms(3) have "err = CORM_OK" "gs' = gs1" by (auto simp: corm_register_backend_def)
    with replace_backend_Some [OF Some assms(1)] assms(2) False show ?thesis by auto
  qed
qed

text \<open>Three types exist, so the table of eight never fills up.\<close>

lemma distinct_types_length: "distinct (map btype gs) \<Longrightarrow> length gs \<le> 3"
proof -
  assume d: "distinct (map btype gs)"
  have "set (map btype gs) \<subseteq> {CORM_BACKEND_SQLITE, CORM_BACKEND_MYSQL, CORM_BACKEND_POSTGRES}"
    using corm_backend_type_t.exhaust by blast
  then have "card (set (map btype gs)) \<le> card {CORM_BACKEND_SQLITE, CORM_BACKEND_MYSQL, CORM_BACKEND_POSTGRES}"
    by (intro card_mono) auto
  with distinct_card [OF d] show ?thesis by simp
qed

section \<open>Properties\<close>

text \<open>Backend registration: as long as each backend is registered under its own type, the table
  holds one backend per type, registration always succeeds, and a lookup gives the backend registered
  last for the type and every other type as before.\<close>

theorem register_backend_get:
  assumes "btype b = t" and "distinct (map btype gs)" and "corm_register_backend gs t b = (err, gs')"
  shows "err = CORM_OK \<and> distinct (map btype gs') \<and> length gs' \<le> 3 \<and>
    (\<forall>u. corm_get_backend gs' u = (if u = t then Some b else corm_get_backend gs u))"
  using register_backend_cases [OF assms] distinct_types_length [OF assms(2)] distinct_types_length [of gs']
  by (auto simp: CORM_MAX_BACKENDS_def)

definition null_backend :: "corm_backend_type_t \<Rightarrow> (unit, unit) corm_backend_t" where
  "null_backend t = \<lparr>bname = [], btype = t, b_open = None, b_close = (\<lambda>c. (CORM_OK, c)), b_ping = (\<lambda>c m. (CORM_OK, c, m)),
     b_exec = (\<lambda>c s p m. (CORM_OK, c, m)), b_query = (\<lambda>c s p m. ((CORM_OK, None), c, m)), b_begin = (\<lambda>c m. (CORM_OK, c, m)),
     b_commit = (\<lambda>c m. (CORM_OK, c, m)), b_rollback = (\<lambda>c m. (CORM_OK, c, m)), b_escape_string = (\<lambda>c s. s),
     b_last_insert_id = (\<lambda>c. 0), b_rows_affected = (\<lambda>c. 0), b_describe_table = None\<rparr>"

lemma null_keeps_mem: "keeps_mem (null_backend t)"
  by (simp add: keeps_mem_def null_backend_def)

theorem register_backend_get_witness:
  "\<exists>gs'. corm_register_backend [] CORM_BACKEND_MYSQL (null_backend CORM_BACKEND_MYSQL) = (CORM_OK, gs') \<and>
     corm_get_backend gs' CORM_BACKEND_MYSQL = Some (null_backend CORM_BACKEND_MYSQL) \<and>
     corm_get_backend gs' CORM_BACKEND_SQLITE = None"
proof -
  have t: "btype (null_backend CORM_BACKEND_MYSQL) = CORM_BACKEND_MYSQL" by (simp add: null_backend_def)
  obtain err gs' where r: "corm_register_backend [] CORM_BACKEND_MYSQL (null_backend CORM_BACKEND_MYSQL) = (err, gs')"
    by fastforce
  from register_backend_get [OF t _ r] r show ?thesis by (auto simp: corm_get_backend_def)
qed

end
