(* ===== verification/Connection.thy ===== *)
theory Connection
  imports Backend Model_Registry
begin

text \<open>
  Connections (\<^verbatim>\<open>src/corm.c\<close>, \<^verbatim>\<open>struct corm\<close> of
  \<^verbatim>\<open>src/internal/corm_internal.h\<close>, \<^verbatim>\<open>include/corm/config.h\<close>): opening and
  closing, transactions, savepoints, raw SQL with its error and log bookkeeping. A NULL connection
  is \<open>None\<close>; the clock is an argument, and the elapsed time passed to the logger is left out.
\<close>

section \<open>State\<close>

datatype corm_log_level_t = CORM_LOG_DEBUG | CORM_LOG_INFO | CORM_LOG_WARN | CORM_LOG_ERROR

record corm_config_t =
  max_open_conns :: int
  max_idle_conns :: int
  conn_max_lifetime_ms :: int
  timeout_ms :: int
  verbose_logging :: bool
  stmt_cache_size :: int

definition CORM_DEFAULT_CONFIG :: corm_config_t where
  "CORM_DEFAULT_CONFIG = \<lparr>max_open_conns = 0, max_idle_conns = 2, conn_max_lifetime_ms = 0, timeout_ms = 30000,
     verbose_logging = False, stmt_cache_size = 0\<rparr>"

text \<open>\<open>logger\<close> says whether a callback is installed, \<open>logs\<close> what it has been called with.\<close>

record ('c, 's, 'm) corm_t =
  backend :: "('c, 's) corm_backend_t option"
  core :: "('c, 's) conn_core"
  config :: corm_config_t
  registry :: "'m corm_registry_t"
  last_err :: corm_err_t
  err_sql :: string
  logger :: bool
  logs :: "(corm_log_level_t \<times> string) list"
  created_at_ms :: int

definition truncated :: "nat \<Rightarrow> string \<Rightarrow> string" where
  "truncated n s = (if length s \<ge> n then take (n - 4) (snprintf_buf n s) @ ''...'' else snprintf_buf n s)"

definition corm_set_err_msg :: "('c, 's) conn_core \<Rightarrow> string \<Rightarrow> ('c, 's) conn_core" where
  "corm_set_err_msg c s = c\<lparr>err_msg := truncated 512 s\<rparr>"

definition corm_set_err_sql :: "('c, 's, 'm) corm_t \<Rightarrow> string \<Rightarrow> ('c, 's, 'm) corm_t" where
  "corm_set_err_sql db sql = db\<lparr>err_sql := truncated 1024 sql\<rparr>"

section \<open>Data source names\<close>

definition corm_dsn_parse :: "string option \<Rightarrow> corm_err_t + corm_backend_type_t \<times> string" where
  "corm_dsn_parse src =
     (case src of
        None \<Rightarrow> Inl CORM_ERR_NULL
      | Some dsn \<Rightarrow>
          if take 10 dsn = ''sqlite3://'' then Inr (CORM_BACKEND_SQLITE, drop 10 dsn)
          else if take 9 dsn = ''sqlite://'' then Inr (CORM_BACKEND_SQLITE, drop 9 dsn)
          else if take 8 dsn = ''mysql://'' then Inr (CORM_BACKEND_MYSQL, drop 8 dsn)
          else if take 11 dsn = ''postgres://'' then Inr (CORM_BACKEND_POSTGRES, drop 11 dsn)
          else if take 13 dsn = ''postgresql://'' then Inr (CORM_BACKEND_POSTGRES, drop 13 dsn)
          else Inr (CORM_BACKEND_SQLITE, dsn))"

section \<open>Opening and closing\<close>

text \<open>The result, the connection, the statement caches that stay allocated although the connection is
  gone, and the allocator. \<open>gs\<close> is the backend table, \<open>now\<close> the clock in milliseconds.\<close>

definition corm_open_with_config ::
  "('c, 's) corm_backend_t list \<Rightarrow> int \<Rightarrow> string option \<Rightarrow> corm_config_t \<Rightarrow> mem \<Rightarrow>
     corm_err_t \<times> ('c, 's, 'm) corm_t option \<times> 's corm_stmt_cache_t list \<times> mem" where
  "corm_open_with_config gs now dsn cfg m =
     (case dsn of
        None \<Rightarrow> (CORM_ERR_NULL, None, [], m)
      | Some d \<Rightarrow>
     (case alloc m of
        (False, m1) \<Rightarrow> (CORM_ERR_NOMEM, None, [], m1)
      | (True, m1) \<Rightarrow>
     (case corm_model_registry_init m1 of
        (Inl err, m2) \<Rightarrow> (err, None, [], m2)
      | (Inr reg, m2) \<Rightarrow>
          let cache_size = (if stmt_cache_size cfg > 0 then nat (stmt_cache_size cfg) else 64) in
     (case corm_stmt_cache_create cache_size m2 of
        (cr, m3) \<Rightarrow>
          let cache = (case cr of Inl e \<Rightarrow> None | Inr c \<Rightarrow> Some c);
              left_over = (case cache of None \<Rightarrow> [] | Some c \<Rightarrow> [c]);
              c0 = \<lparr>conn = None, err_msg = [], last_insert_id_val = 0, rows_affected_val = 0, stmt_cache = cache, calls = []\<rparr>
          in
     (case corm_dsn_parse dsn of
        Inl err \<Rightarrow> (err, None, left_over, m3)
      | Inr (bt, body) \<Rightarrow>
     (case corm_get_backend gs bt of
        None \<Rightarrow> (CORM_ERR_NOTFOUND, None, left_over, m3)
      | Some b \<Rightarrow>
     (case b_open b of
        None \<Rightarrow> (CORM_ERR_BACKEND, None, left_over, m3)
      | Some opn \<Rightarrow>
     (case opn c0 body m3 of
        (err, c1, m4) \<Rightarrow>
          if err \<noteq> CORM_OK then (err, None, left_over, m4)
          else (CORM_OK,
                Some \<lparr>backend = Some b, core = c1, config = cfg, registry = reg, last_err = CORM_OK, err_sql = [],
                      logger = False, logs = [], created_at_ms = now\<rparr>, [], m4)))))))))"

definition corm_open ::
  "('c, 's) corm_backend_t list \<Rightarrow> int \<Rightarrow> string option \<Rightarrow> mem \<Rightarrow>
     corm_err_t \<times> ('c, 's, 'm) corm_t option \<times> 's corm_stmt_cache_t list \<times> mem" where
  "corm_open gs now dsn m = corm_open_with_config gs now dsn CORM_DEFAULT_CONFIG m"

text \<open>Closing: the code, the statements handed to the cache's destructor, the connection state the
  driver's close function leaves (when it is called), and the registry keys freed. \<open>None\<close> if the
  cache walk does not return. During the driver's close the C field still points to the freed cache;
  here it is already absent.\<close>

definition corm_close ::
  "('c, 's, 'm) corm_t option \<Rightarrow> (corm_err_t \<times> 's list \<times> ('c, 's) conn_core option \<times> string list) option" where
  "corm_close dbp =
     (case dbp of
        None \<Rightarrow> Some (CORM_ERR_NULL, [], None, [])
      | Some db \<Rightarrow>
          (case corm_stmt_cache_destroy (stmt_cache (core db)) of
             None \<Rightarrow> None
           | Some (gone, h) \<Rightarrow>
               let closed = (case (backend db, conn (core db)) of
                               (Some b, Some x) \<Rightarrow> Some (snd (b_close b ((core db)\<lparr>stmt_cache := None\<rparr>)))
                             | _ \<Rightarrow> None)
               in Some (CORM_OK, gone, closed, snd (corm_model_registry_free (registry db)))))"

section \<open>Calls through the backend\<close>

definition with_backend ::
  "(('c, 's) corm_backend_t \<Rightarrow> ('c, 's, 'm) corm_t \<Rightarrow> mem \<Rightarrow> corm_err_t \<times> ('c, 's, 'm) corm_t \<times> mem) \<Rightarrow>
     ('c, 's, 'm) corm_t option \<Rightarrow> mem \<Rightarrow> corm_err_t \<times> ('c, 's, 'm) corm_t option \<times> mem" where
  "with_backend f dbp m =
     (case dbp of
        None \<Rightarrow> (CORM_ERR_NULL, None, m)
      | Some db \<Rightarrow>
          (case backend db of
             None \<Rightarrow> (CORM_ERR_NULL, dbp, m)
           | Some b \<Rightarrow> (case f b db m of (err, db', m') \<Rightarrow> (err, Some db', m'))))"

definition on_core ::
  "(('c, 's) conn_core \<Rightarrow> mem \<Rightarrow> corm_err_t \<times> ('c, 's) conn_core \<times> mem) \<Rightarrow> ('c, 's, 'm) corm_t \<Rightarrow> mem \<Rightarrow>
     corm_err_t \<times> ('c, 's, 'm) corm_t \<times> mem" where
  "on_core f db m = (case f (core db) m of (err, c, m') \<Rightarrow> (err, db\<lparr>core := c\<rparr>, m'))"

definition corm_ping :: "('c, 's, 'm) corm_t option \<Rightarrow> mem \<Rightarrow> corm_err_t \<times> ('c, 's, 'm) corm_t option \<times> mem" where
  "corm_ping dbp m = with_backend (\<lambda>b. on_core (call_simple Ev_Ping (b_ping b))) dbp m"

definition corm_begin :: "('c, 's, 'm) corm_t option \<Rightarrow> mem \<Rightarrow> corm_err_t \<times> ('c, 's, 'm) corm_t option \<times> mem" where
  "corm_begin dbp m = with_backend (\<lambda>b. on_core (call_simple Ev_Begin (b_begin b))) dbp m"

definition corm_commit :: "('c, 's, 'm) corm_t option \<Rightarrow> mem \<Rightarrow> corm_err_t \<times> ('c, 's, 'm) corm_t option \<times> mem" where
  "corm_commit dbp m = with_backend (\<lambda>b. on_core (call_simple Ev_Commit (b_commit b))) dbp m"

definition corm_rollback :: "('c, 's, 'm) corm_t option \<Rightarrow> mem \<Rightarrow> corm_err_t \<times> ('c, 's, 'm) corm_t option \<times> mem" where
  "corm_rollback dbp m = with_backend (\<lambda>b. on_core (call_simple Ev_Rollback (b_rollback b))) dbp m"

text \<open>The transaction body is a function of the connection and the allocator.\<close>

definition corm_transaction ::
  "('c, 's, 'm) corm_t option \<Rightarrow>
   (('c, 's, 'm) corm_t option \<Rightarrow> mem \<Rightarrow> corm_err_t \<times> ('c, 's, 'm) corm_t option \<times> mem) option \<Rightarrow> mem \<Rightarrow>
     corm_err_t \<times> ('c, 's, 'm) corm_t option \<times> mem" where
  "corm_transaction dbp fn m =
     (case (dbp, fn) of
        (Some db, Some f) \<Rightarrow>
          (case corm_begin dbp m of
             (err, db1, m1) \<Rightarrow>
               if err \<noteq> CORM_OK then (err, db1, m1)
               else (case f db1 m1 of
                 (err2, db2, m2) \<Rightarrow>
                   if err2 = CORM_OK then
                     (case corm_commit db2 m2 of (cerr, db3, m3) \<Rightarrow> (if cerr \<noteq> CORM_OK then cerr else CORM_OK, db3, m3))
                   else (case corm_rollback db2 m2 of (rerr, db3, m3) \<Rightarrow> (err2, db3, m3))))
      | _ \<Rightarrow> (CORM_ERR_NULL, dbp, m))"

section \<open>Raw SQL\<close>

definition corm_set_logger :: "('c, 's, 'm) corm_t option \<Rightarrow> bool \<Rightarrow> ('c, 's, 'm) corm_t option" where
  "corm_set_logger dbp lg = map_option (\<lambda>db. db\<lparr>logger := lg\<rparr>) dbp"

text \<open>What the three raw functions do after the call: last error, failing SQL, logger.\<close>

definition after_call :: "string \<Rightarrow> corm_err_t \<Rightarrow> ('c, 's, 'm) corm_t \<Rightarrow> ('c, 's, 'm) corm_t" where
  "after_call sql err db =
     (let db1 = db\<lparr>last_err := err\<rparr>;
          db2 = (if err \<noteq> CORM_OK then corm_set_err_sql db1 sql else db1)
      in if logger db2 then
           db2\<lparr>logs := logs db2 @ [(if err \<noteq> CORM_OK then CORM_LOG_ERROR else CORM_LOG_INFO, sql)]\<rparr>
         else db2)"

definition corm_exec_params ::
  "('c, 's, 'm) corm_t option \<Rightarrow> string \<Rightarrow> corm_value_t list \<Rightarrow> mem \<Rightarrow> corm_err_t \<times> ('c, 's, 'm) corm_t option \<times> mem" where
  "corm_exec_params dbp sql ps m =
     with_backend (\<lambda>b db m.
       case on_core (\<lambda>c m. call_exec b c sql ps m) db m of
         (err, db1, m1) \<Rightarrow> (err, after_call sql err db1, m1)) dbp m"

definition corm_exec ::
  "('c, 's, 'm) corm_t option \<Rightarrow> string \<Rightarrow> mem \<Rightarrow> corm_err_t \<times> ('c, 's, 'm) corm_t option \<times> mem" where
  "corm_exec dbp sql m =
     with_backend (\<lambda>b db m.
       case on_core (\<lambda>c m. call_exec b c sql [] m) db m of
         (err, db1, m1) \<Rightarrow> (err, after_call sql err db1, m1)) dbp m"

definition corm_raw ::
  "('c, 's, 'm) corm_t option \<Rightarrow> string \<Rightarrow> mem \<Rightarrow> corm_err_t \<times> corm_result_t option \<times> ('c, 's, 'm) corm_t option \<times> mem" where
  "corm_raw dbp sql m =
     (case dbp of
        None \<Rightarrow> (CORM_ERR_NULL, None, None, m)
      | Some db \<Rightarrow>
          (case backend db of
             None \<Rightarrow> (CORM_ERR_NULL, None, dbp, m)
           | Some b \<Rightarrow>
               (case call_query b (core db) sql [] m of
                  ((err, res), c, m1) \<Rightarrow> (err, res, Some (after_call sql err (db\<lparr>core := c\<rparr>)), m1))))"

definition isolation_level_sql :: "corm_isolation_level_t \<Rightarrow> string" where
  "isolation_level_sql level =
     (case level of
        CORM_ISOLATION_READ_UNCOMMITTED \<Rightarrow> ''READ UNCOMMITTED''
      | CORM_ISOLATION_READ_COMMITTED \<Rightarrow> ''READ COMMITTED''
      | CORM_ISOLATION_REPEATABLE_READ \<Rightarrow> ''REPEATABLE READ''
      | CORM_ISOLATION_SERIALIZABLE \<Rightarrow> ''SERIALIZABLE'')"

definition corm_set_isolation ::
  "('c, 's, 'm) corm_t option \<Rightarrow> corm_isolation_level_t \<Rightarrow> mem \<Rightarrow> corm_err_t \<times> ('c, 's, 'm) corm_t option \<times> mem" where
  "corm_set_isolation dbp level m =
     (if (case dbp of None \<Rightarrow> True | Some db \<Rightarrow> backend db = None) then (CORM_ERR_NULL, dbp, m)
      else corm_exec dbp (snprintf_buf 256 (''SET TRANSACTION ISOLATION LEVEL '' @ isolation_level_sql level)) m)"

section \<open>Savepoints\<close>

definition savepoint_char :: "char \<Rightarrow> bool" where
  "savepoint_char c \<longleftrightarrow>
     (CHR ''a'' \<le> c \<and> c \<le> CHR ''z'') \<or> (CHR ''A'' \<le> c \<and> c \<le> CHR ''Z'') \<or>
     (CHR ''0'' \<le> c \<and> c \<le> CHR ''9'') \<or> c = CHR ''_'' \<or> c = CHR ''-''"

definition is_valid_savepoint_name :: "string \<Rightarrow> bool" where
  "is_valid_savepoint_name name \<longleftrightarrow> name \<noteq> [] \<and> list_all savepoint_char name"

text \<open>The three savepoint functions differ in the command word.\<close>

definition savepoint_command ::
  "string \<Rightarrow> ('c, 's, 'm) corm_t option \<Rightarrow> string option \<Rightarrow> mem \<Rightarrow> corm_err_t \<times> ('c, 's, 'm) corm_t option \<times> mem" where
  "savepoint_command cmd dbp name m =
     (case (dbp, name) of
        (Some db, Some n) \<Rightarrow>
          if \<not> is_valid_savepoint_name n then
            (CORM_ERR_NULL,
             Some (db\<lparr>core := corm_set_err_msg (core db) (''Invalid savepoint name: '' @ [CHR 0x27] @ n @ [CHR 0x27])\<rparr>), m)
          else corm_exec dbp (snprintf_buf 256 (cmd @ n)) m
      | _ \<Rightarrow> (CORM_ERR_NULL, dbp, m))"

definition corm_savepoint :: "('c, 's, 'm) corm_t option \<Rightarrow> string option \<Rightarrow> mem \<Rightarrow> corm_err_t \<times> ('c, 's, 'm) corm_t option \<times> mem" where
  "corm_savepoint dbp name m = savepoint_command ''SAVEPOINT '' dbp name m"

definition corm_rollback_to :: "('c, 's, 'm) corm_t option \<Rightarrow> string option \<Rightarrow> mem \<Rightarrow> corm_err_t \<times> ('c, 's, 'm) corm_t option \<times> mem" where
  "corm_rollback_to dbp name m = savepoint_command ''ROLLBACK TO SAVEPOINT '' dbp name m"

definition corm_release_savepoint :: "('c, 's, 'm) corm_t option \<Rightarrow> string option \<Rightarrow> mem \<Rightarrow> corm_err_t \<times> ('c, 's, 'm) corm_t option \<times> mem" where
  "corm_release_savepoint dbp name m = savepoint_command ''RELEASE SAVEPOINT '' dbp name m"

section \<open>Errors and initialisation\<close>

definition corm_err_string :: "corm_err_t \<Rightarrow> string" where
  "corm_err_string err =
     (case err of
        CORM_OK \<Rightarrow> ''OK''
      | CORM_ERR_GENERIC \<Rightarrow> ''Generic error''
      | CORM_ERR_NOMEM \<Rightarrow> ''Out of memory''
      | CORM_ERR_NOTFOUND \<Rightarrow> ''Not found''
      | CORM_ERR_DUP \<Rightarrow> ''Duplicate entry''
      | CORM_ERR_BACKEND \<Rightarrow> ''Backend error''
      | CORM_ERR_TYPE \<Rightarrow> ''Type mismatch''
      | CORM_ERR_NULL \<Rightarrow> ''Null pointer''
      | CORM_ERR_BOUNDS \<Rightarrow> ''Out of bounds''
      | CORM_ERR_MISMATCH \<Rightarrow> ''Mismatch'')"

text \<open>\<open>bufsz\<close> is \<open>None\<close> for a NULL buffer; the string is what the buffer holds afterwards.\<close>

definition corm_last_error :: "('c, 's, 'm) corm_t option \<Rightarrow> nat option \<Rightarrow> corm_err_t \<times> string option" where
  "corm_last_error dbp bufsz =
     (case (dbp, bufsz) of
        (Some db, Some n) \<Rightarrow>
          (last_err db,
           Some (snprintf_buf n (corm_err_string (last_err db) @ '': '' @
             (if err_msg (core db) \<noteq> [] then err_msg (core db) else ''no details'') @ '' (SQL: '' @
             (if err_sql db \<noteq> [] then err_sql db else ''none'') @ '')'')))
      | _ \<Rightarrow> (CORM_ERR_NULL, None))"

text \<open>The three drivers' registrations, in order.\<close>

definition corm_init ::
  "('c, 's) corm_backend_t list \<Rightarrow> ('c, 's) corm_backend_t \<Rightarrow> ('c, 's) corm_backend_t \<Rightarrow> ('c, 's) corm_backend_t \<Rightarrow>
     corm_err_t \<times> ('c, 's) corm_backend_t list" where
  "corm_init gs sqlite mysql postgres =
     (case corm_register_backend gs CORM_BACKEND_SQLITE sqlite of
        (err, gs1) \<Rightarrow> if err \<noteq> CORM_OK then (err, gs1)
          else (case corm_register_backend gs1 CORM_BACKEND_MYSQL mysql of
            (err2, gs2) \<Rightarrow> if err2 \<noteq> CORM_OK then (err2, gs2)
              else (case corm_register_backend gs2 CORM_BACKEND_POSTGRES postgres of
                (err3, gs3) \<Rightarrow> if err3 \<noteq> CORM_OK then (err3, gs3) else (CORM_OK, gs3))))"

section \<open>Lemmas\<close>

lemma length_truncated: "4 \<le> n \<Longrightarrow> length (truncated n s) < n"
  by (auto simp: truncated_def snprintf_buf_def)

lemma truncated_id: "length s < n \<Longrightarrow> truncated n s = s"
  by (simp add: truncated_def snprintf_buf_def)

lemma exec_effect:
  assumes "backend db = Some b" and "corm_exec_params (Some db) sql ps m = (err, dbp, m')"
  shows "\<exists>db'. dbp = Some db' \<and> backend db' = Some b \<and> last_err db' = err \<and>
    calls (core db') = calls (core db) @ [Ev_Exec sql ps err] \<and>
    err_sql db' = (if err = CORM_OK then err_sql db else truncated 1024 sql) \<and>
    logs db' = logs db @ (if logger db then [(if err = CORM_OK then CORM_LOG_INFO else CORM_LOG_ERROR, sql)] else [])"
proof -
  obtain c m1 where c: "call_exec b (core db) sql ps m = (err, c, m1)" and dbp: "dbp = Some (after_call sql err (db\<lparr>core := c\<rparr>))"
    using assms by (auto simp: corm_exec_params_def with_backend_def on_core_def split: prod.splits)
  from call_exec_calls [OF c] dbp assms(1) show ?thesis
    by (auto simp: after_call_def Let_def corm_set_err_sql_def)
qed

lemma corm_exec_eq: "corm_exec dbp sql m = corm_exec_params dbp sql [] m"
  by (simp add: corm_exec_def corm_exec_params_def)

lemma with_backend_calls:
  assumes "backend db = Some b" and "with_backend (\<lambda>b. on_core (call_simple ev (f b))) (Some db) m = (err, dbp, m')"
  shows "\<exists>db'. dbp = Some db' \<and> backend db' = Some b \<and> calls (core db') = calls (core db) @ [ev err]"
  using assms call_simple_calls [of ev "f b" "core db" m]
  by (auto simp: with_backend_def on_core_def split: prod.splits)

lemmas tx_calls = with_backend_calls [where ev = Ev_Begin and f = b_begin, folded corm_begin_def]
  with_backend_calls [where ev = Ev_Commit and f = b_commit, folded corm_commit_def]
  with_backend_calls [where ev = Ev_Rollback and f = b_rollback, folded corm_rollback_def]

lemma dsn_schemes:
  "corm_dsn_parse (Some (''sqlite3://'' @ p)) = Inr (CORM_BACKEND_SQLITE, p)"
  "corm_dsn_parse (Some (''sqlite://'' @ p)) = Inr (CORM_BACKEND_SQLITE, p)"
  "corm_dsn_parse (Some (''mysql://'' @ p)) = Inr (CORM_BACKEND_MYSQL, p)"
  "corm_dsn_parse (Some (''postgres://'' @ p)) = Inr (CORM_BACKEND_POSTGRES, p)"
  "corm_dsn_parse (Some (''postgresql://'' @ p)) = Inr (CORM_BACKEND_POSTGRES, p)"
  by (simp_all add: corm_dsn_parse_def)

lemma take_append_drop_eq: "take n xs = p \<Longrightarrow> xs = p @ drop n xs"
  by (metis append_take_drop_id)

lemma dsn_inverse:
  "corm_dsn_parse (Some d) = Inr (bt, body) \<Longrightarrow>
     (\<exists>scheme\<in>{''sqlite3://'', ''sqlite://'', ''mysql://'', ''postgres://'', ''postgresql://'', []}. d = scheme @ body)"
  by (auto simp: corm_dsn_parse_def split: if_splits dest!: take_append_drop_eq)

lemma valid_savepoint_chars:
  "is_valid_savepoint_name n \<Longrightarrow> c \<in> set n \<Longrightarrow> c \<notin> {CHR '';'', CHR 0x22, CHR 0x27, CHR 0x60, CHR '' '', NUL, CHR ''(''}"
  by (auto simp: is_valid_savepoint_name_def list_all_iff savepoint_char_def less_eq_char_def)

section \<open>Properties\<close>

text \<open>Data source names: every scheme prefix selects its backend and leaves the rest as the
  body, any other name is a SQLite path taken whole, and in all cases the name is the prefix followed
  by the body: nothing is lost.\<close>

theorem dsn_parse_correct:
  "corm_dsn_parse (Some (''sqlite3://'' @ p)) = Inr (CORM_BACKEND_SQLITE, p) \<and>
   corm_dsn_parse (Some (''sqlite://'' @ p)) = Inr (CORM_BACKEND_SQLITE, p) \<and>
   corm_dsn_parse (Some (''mysql://'' @ p)) = Inr (CORM_BACKEND_MYSQL, p) \<and>
   corm_dsn_parse (Some (''postgres://'' @ p)) = Inr (CORM_BACKEND_POSTGRES, p) \<and>
   corm_dsn_parse (Some (''postgresql://'' @ p)) = Inr (CORM_BACKEND_POSTGRES, p) \<and>
   (\<exists>bt body scheme. corm_dsn_parse (Some d) = Inr (bt, body) \<and> d = scheme @ body \<and>
      scheme \<in> {''sqlite3://'', ''sqlite://'', ''mysql://'', ''postgres://'', ''postgresql://'', []})"
proof -
  obtain bt body where p: "corm_dsn_parse (Some d) = Inr (bt, body)" by (cases "corm_dsn_parse (Some d)") (auto simp: corm_dsn_parse_def split: if_splits)
  from dsn_inverse [OF p] obtain scheme where
    "scheme \<in> {''sqlite3://'', ''sqlite://'', ''mysql://'', ''postgres://'', ''postgresql://'', []}" "d = scheme @ body"
    by blast
  with p show ?thesis by (intro conjI dsn_schemes exI) assumption+
qed

text \<open>(C40) Transactions are bracketed: when \<^verbatim>\<open>corm_begin\<close> succeeds, the body runs on the
  connection it leaves, and afterwards exactly one call closes the transaction -- a commit if the body
  returned \<open>CORM_OK\<close>, whose error is then the result, and otherwise a rollback, the body's own
  error being the result whatever the rollback returns. When it fails nothing else is called.\<close>

theorem transaction_bracketed:
  assumes "backend db = Some b" and "corm_begin (Some db) m = (err, Some db1, m1)"
    and "f (Some db1) m1 = (err2, Some db2, m2)" and "backend db2 = Some b2"
    and "corm_transaction (Some db) (Some f) m = (r, dbp, m')"
  shows "(err \<noteq> CORM_OK \<longrightarrow> r = err \<and> dbp = Some db1 \<and> calls (core db1) = calls (core db) @ [Ev_Begin err]) \<and>
    (err = CORM_OK \<longrightarrow> (\<exists>db3 e. dbp = Some db3 \<and>
       (err2 = CORM_OK \<longrightarrow> r = e \<and> calls (core db3) = calls (core db2) @ [Ev_Commit e]) \<and>
       (err2 \<noteq> CORM_OK \<longrightarrow> r = err2 \<and> calls (core db3) = calls (core db2) @ [Ev_Rollback e])))"
proof (cases "err = CORM_OK")
  case False
  with assms(2,5) tx_calls(1) [OF assms(1,2)] show ?thesis by (auto simp: corm_transaction_def)
next
  case ok: True
  show ?thesis
  proof (cases "err2 = CORM_OK")
    case True
    obtain e dbp3 m3 where c: "corm_commit (Some db2) m2 = (e, dbp3, m3)" by (metis prod_cases3)
    from tx_calls(2) [OF assms(4) c] obtain db3 where
      "dbp3 = Some db3" "calls (core db3) = calls (core db2) @ [Ev_Commit e]" by blast
    with ok True assms(2,3,5) c show ?thesis by (auto simp: corm_transaction_def)
  next
    case False
    obtain e dbp3 m3 where c: "corm_rollback (Some db2) m2 = (e, dbp3, m3)" by (metis prod_cases3)
    from tx_calls(3) [OF assms(4) c] obtain db3 where
      "dbp3 = Some db3" "calls (core db3) = calls (core db2) @ [Ev_Rollback e]" by blast
    with ok False assms(2,3,5) c show ?thesis by (auto simp: corm_transaction_def)
  qed
qed

definition sample_db :: "(unit, unit, unit) corm_t" where
  "sample_db = \<lparr>backend = Some (null_backend CORM_BACKEND_SQLITE),
     core = \<lparr>conn = Some (), err_msg = [], last_insert_id_val = 0, rows_affected_val = 0, stmt_cache = None, calls = []\<rparr>,
     config = CORM_DEFAULT_CONFIG,
     registry = \<lparr>models_by_table = \<lparr>buckets = replicate 32 [], hsize = 32, hcount = 0\<rparr>,
                 models_by_name = \<lparr>buckets = replicate 32 [], hsize = 32, hcount = 0\<rparr>\<rparr>,
     last_err = CORM_OK, err_sql = [], logger = True, logs = [], created_at_ms = 0\<rparr>"

theorem transaction_bracketed_witness:
  "\<exists>db3 m'. corm_transaction (Some sample_db) (Some (\<lambda>db m. (CORM_ERR_DUP, db, m))) [] = (CORM_ERR_DUP, Some db3, m') \<and>
     calls (core db3) = [Ev_Begin CORM_OK, Ev_Rollback CORM_OK]"
proof -
  let ?f = "\<lambda>(db :: (unit, unit, unit) corm_t option) (m :: mem). (CORM_ERR_DUP, db, m)"
  have s: "backend sample_db = Some (null_backend CORM_BACKEND_SQLITE)" by (simp add: sample_db_def)
  obtain db1 m1 where b: "corm_begin (Some sample_db) [] = (CORM_OK, Some db1, m1)"
    and b1: "backend db1 = Some (null_backend CORM_BACKEND_SQLITE)" and c1: "calls (core db1) = [Ev_Begin CORM_OK]"
    by (simp add: corm_begin_def with_backend_def on_core_def call_simple_def sample_db_def null_backend_def logged_def)
  obtain r dbp m' where t: "corm_transaction (Some sample_db) (Some ?f) [] = (r, dbp, m')" by (metis prod_cases3)
  from transaction_bracketed [OF s b refl b1 t] c1 obtain db3 e where
    r: "r = CORM_ERR_DUP" "dbp = Some db3" "calls (core db3) = [Ev_Begin CORM_OK, Ev_Rollback e]" by auto
  moreover have "e = CORM_OK"
    using t b r by (auto simp: corm_transaction_def corm_rollback_def with_backend_def on_core_def call_simple_def b1
        null_backend_def logged_def)
  ultimately show ?thesis using t by auto
qed

text \<open>Executing SQL keeps the error state and the log true to what happened: exactly one statement
  is sent with exactly the given text and parameters, the returned code is the last error, on failure
  the statement is remembered (cut to 1023 characters with a mark), and an installed logger is called
  once with the matching severity.\<close>

theorem exec_bookkeeping:
  assumes "backend db = Some b" and "corm_exec_params (Some db) sql ps m = (err, dbp, m')"
  shows "\<exists>db'. dbp = Some db' \<and> last_err db' = err \<and>
    calls (core db') = calls (core db) @ [Ev_Exec sql ps err] \<and>
    err_sql db' = (if err = CORM_OK then err_sql db else truncated 1024 sql) \<and> length (truncated 1024 sql) < 1024 \<and>
    logs db' = logs db @ (if logger db then [(if err = CORM_OK then CORM_LOG_INFO else CORM_LOG_ERROR, sql)] else [])"
  using exec_effect [OF assms] length_truncated [of 1024 sql] by auto

theorem exec_bookkeeping_witness:
  "\<exists>db' m'. corm_exec_params (Some sample_db) ''DROP TABLE t'' [] [] = (CORM_OK, Some db', m') \<and>
     logs db' = [(CORM_LOG_INFO, ''DROP TABLE t'')] \<and> calls (core db') = [Ev_Exec ''DROP TABLE t'' [] CORM_OK]"
proof -
  have s: "backend sample_db = Some (null_backend CORM_BACKEND_SQLITE)" "logger sample_db" "logs sample_db = []"
    "calls (core sample_db) = []" by (simp_all add: sample_db_def)
  obtain err dbp m' where e: "corm_exec_params (Some sample_db) ''DROP TABLE t'' [] [] = (err, dbp, m')" by (metis prod_cases3)
  have "err = CORM_OK" using e s(1)
    by (auto simp: corm_exec_params_def with_backend_def on_core_def call_exec_def null_backend_def)
  with exec_bookkeeping [OF s(1) e] e s(2-4) show ?thesis by auto
qed

text \<open>Savepoint names cannot inject SQL: a name with any character outside
  \<^verbatim>\<open>[a-zA-Z0-9_-]\<close>, or an empty one, is refused without a call to the database; an accepted
  name of at most 245 characters is sent unchanged in exactly one statement, and every character sent
  after the command word is one of those. Longer names are cut off at the 255-character buffer.\<close>

theorem savepoint_safe:
  assumes "backend db = Some b" and "corm_savepoint (Some db) (Some n) m = (err, dbp, m')"
  shows "(\<not> is_valid_savepoint_name n \<longrightarrow> err = CORM_ERR_NULL \<and> map_option (\<lambda>d. calls (core d)) dbp = Some (calls (core db))) \<and>
    (is_valid_savepoint_name n \<longrightarrow>
       map_option (\<lambda>d. calls (core d)) dbp = Some (calls (core db) @ [Ev_Exec (take 255 (''SAVEPOINT '' @ n)) [] err]) \<and>
       (length n \<le> 245 \<longrightarrow> take 255 (''SAVEPOINT '' @ n) = ''SAVEPOINT '' @ n) \<and> (\<forall>c\<in>set n. savepoint_char c))"
proof (cases "is_valid_savepoint_name n")
  case True
  with assms(2) have e: "corm_exec_params (Some db) (take 255 (''SAVEPOINT '' @ n)) [] m = (err, dbp, m')"
    by (simp add: corm_savepoint_def savepoint_command_def corm_exec_eq snprintf_buf_def)
  from exec_effect [OF assms(1) e] True show ?thesis
    by (auto simp: is_valid_savepoint_name_def list_all_iff)
next
  case False
  with assms show ?thesis by (auto simp: corm_savepoint_def savepoint_command_def corm_set_err_msg_def)
qed

theorem savepoint_safe_witness:
  "\<exists>err dbp m'. corm_savepoint (Some sample_db) (Some ''a; DROP TABLE t'') [] = (err, dbp, m') \<and> err = CORM_ERR_NULL \<and>
     map_option (\<lambda>d. calls (core d)) dbp = Some []"
proof -
  obtain err dbp m' where e: "corm_savepoint (Some sample_db) (Some ''a; DROP TABLE t'') [] = (err, dbp, m')" by (metis prod_cases3)
  have "\<not> is_valid_savepoint_name ''a; DROP TABLE t''"
    by (simp add: is_valid_savepoint_name_def savepoint_char_def less_eq_char_def)
  with savepoint_safe [OF _ e, of "null_backend CORM_BACKEND_SQLITE"] e show ?thesis by (simp add: sample_db_def)
qed

text \<open>Opening a connection: on success the connection uses the backend of its DSN, starts without
  an error, and its statement cache is the only one allocated; but every failure after the cache is
  created -- unknown backend, missing open function, refused connection -- leaves that cache allocated
  and unreachable.\<close>

theorem open_failure_leaks_cache:
  assumes "corm_open_with_config gs now (Some d) cfg (True # True # True # True # m) = (err, dbp, lost, m')"
    and "corm_dsn_parse (Some d) = Inr (bt, body)"
  shows "(err = CORM_OK \<longrightarrow> lost = [] \<and> (\<exists>db b. dbp = Some db \<and> corm_get_backend gs bt = Some b \<and> backend db = Some b \<and> last_err db = CORM_OK)) \<and>
    (err \<noteq> CORM_OK \<longrightarrow> dbp = None \<and> length lost = 1)"
  using assms
  by (auto simp: corm_open_with_config_def corm_model_registry_init_def corm_hash_init_def corm_stmt_cache_create_def
      Let_def split: option.splits prod.splits if_splits)

theorem open_failure_leaks_cache_witness:
  "\<exists>lost m'. corm_open_with_config ([] :: (unit, unit) corm_backend_t list) 0 (Some ''mysql://h'') CORM_DEFAULT_CONFIG [True, True, True, True] =
     (CORM_ERR_NOTFOUND, None :: (unit, unit, unit) corm_t option, lost, m') \<and> length lost = 1"
proof -
  obtain err lost m' and dbp :: "(unit, unit, unit) corm_t option" where
    o: "corm_open_with_config ([] :: (unit, unit) corm_backend_t list) 0 (Some ''mysql://h'') CORM_DEFAULT_CONFIG [True, True, True, True] =
      (err, dbp, lost, m')" by (metis prod_cases4)
  have p: "corm_dsn_parse (Some ''mysql://h'') = Inr (CORM_BACKEND_MYSQL, ''h'')" by (simp add: corm_dsn_parse_def)
  have "err = CORM_ERR_NOTFOUND" using o p
    by (simp add: corm_open_with_config_def corm_model_registry_init_def corm_hash_init_def corm_stmt_cache_create_def
        corm_get_backend_def CORM_DEFAULT_CONFIG_def Let_def)
  with open_failure_leaks_cache [OF o p] o show ?thesis by auto
qed

end
