(* ===== verification/Query_Exec.thy ===== *)
theory Query_Exec
  imports Sql_Builder Connection
begin

text \<open>
  Execution of queries: the second half of \<^verbatim>\<open>src/query.c\<close>. The connection of a query is
  passed as its backend table and its driver-visible state; records are C structs with their heap. A
  value \<open>None\<close> of an operation means that the C code would access memory outside its objects (a
  missing column name, a cell or record out of range, a value that cannot be copied). Results and queries
  that a function releases before it returns are dropped here; what their release frees is the subject of
  \<open>Result\<close> and \<open>Query\<close>.
\<close>

section \<open>Hooks and helpers\<close>

type_synonym ('c, 's) hook =
  "('c, 's) conn_core \<Rightarrow> c_struct option \<Rightarrow> mem \<Rightarrow> corm_err_t \<times> ('c, 's) conn_core \<times> c_struct option \<times> mem"

type_synonym ('c, 's) model = "('c, 's) hook corm_model_t"
type_synonym ('c, 's) query = "('c, 's) hook corm_query_t"

definition run_hook ::
  "('c, 's) hook option \<Rightarrow> ('c, 's) conn_core \<Rightarrow> c_struct option \<Rightarrow> mem \<Rightarrow>
     corm_err_t \<times> ('c, 's) conn_core \<times> c_struct option \<times> mem" where
  "run_hook h c rec m = (case h of None \<Rightarrow> (CORM_OK, c, rec, m) | Some f \<Rightarrow> f c rec m)"

definition param_values :: "'h corm_query_t \<Rightarrow> corm_value_t list" where
  "param_values q = map pval (params q)"

text \<open>\<^verbatim>\<open>query_exec\<close>: the statement of a query, built in a fresh buffer.\<close>

definition query_exec :: "'h corm_query_t \<Rightarrow> mem \<Rightarrow> corm_err_t \<times> bstate" where
  "query_exec q m = corm_build_sql q (corm_strbuf_init, m) (query_bt q)"

definition soft_delete_field :: "('h, 'z) corm_model_t_scheme \<Rightarrow> corm_field_t option" where
  "soft_delete_field md = List.find (\<lambda>f. has_flag f CORM_FLAG_SOFT_DELETE) (model_fields md)"

definition primary_field :: "('h, 'z) corm_model_t_scheme \<Rightarrow> corm_field_t option" where
  "primary_field md = List.find (\<lambda>f. has_flag f CORM_FLAG_PRIMARY) (model_fields md)"

section \<open>Reading\<close>

definition soft_delete_filter :: "'h corm_query_t \<Rightarrow> mem \<Rightarrow> 'h corm_query_t \<times> mem" where
  "soft_delete_filter q m =
     (if unscoped q then (q, m)
      else (case soft_delete_field (qmodel q) of
              None \<Rightarrow> (q, m)
            | Some f \<Rightarrow> where_null_body (fname f) q m))"

definition corm_find ::
  "('c, 's) corm_backend_t \<Rightarrow> ('c, 's) conn_core \<Rightarrow> 'h corm_query_t \<Rightarrow> mem \<Rightarrow>
     (corm_err_t \<times> corm_result_t option) \<times> ('c, 's) conn_core \<times> 'h corm_query_t \<times> mem" where
  "corm_find b c q m =
     (case soft_delete_filter q m of
        (q1, m1) \<Rightarrow>
          let q2 = q1\<lparr>qop := CORM_OP_SELECT\<rparr> in
          (case query_exec q2 m1 of
             (err, sql, m2) \<Rightarrow>
               if err \<noteq> CORM_OK then ((err, None), c, q2, m2)
               else (case call_query b c (corm_strbuf_cstr sql) (param_values q2) m2 of
                       (r, c', m3) \<Rightarrow> (r, c', q2, m3))))"

text \<open>The inner loop over the column names; a NULL name stops with \<open>None\<close>.\<close>

fun find_col :: "string option list \<Rightarrow> string \<Rightarrow> nat \<Rightarrow> nat option option" where
  "find_col [] n j = Some None"
| "find_col (x # xs) n j =
     (case x of None \<Rightarrow> None | Some s \<Rightarrow> if s = n then Some (Some j) else find_col xs n (Suc j))"

text \<open>Addresses \<^verbatim>\<open>strdup\<close> will return for text members; 0 when they run out.\<close>

definition next_addr :: "corm_field_t \<Rightarrow> 64 word list \<Rightarrow> 64 word \<times> 64 word list" where
  "next_addr f as =
     (if ftype f = CORM_TEXT then (case as of [] \<Rightarrow> (0, []) | a # as' \<Rightarrow> (a, as')) else (0, as))"

fun map_row ::
  "corm_field_t list \<Rightarrow> corm_result_t \<Rightarrow> nat \<Rightarrow> c_struct \<Rightarrow> 64 word list \<Rightarrow> (c_struct \<times> 64 word list) option" where
  "map_row [] res r rec as = Some (rec, as)"
| "map_row (f # fs) res r rec as =
     (case find_col (take (nat (column_count res)) (column_names res)) (field_name f) 0 of
        None \<Rightarrow> None
      | Some None \<Rightarrow> map_row fs res r rec as
      | Some (Some j) \<Rightarrow>
          (case corm_result_value res (int r) (int j) of
             Some (Some cell) \<Rightarrow>
               (case next_addr f as of
                  (a, as') \<Rightarrow>
                    (case corm_field_set_value rec f cell a of
                       None \<Rightarrow> None
                     | Some rec' \<Rightarrow> map_row fs res r rec' as'))
           | _ \<Rightarrow> None))"

definition corm_first ::
  "('c, 's) corm_backend_t \<Rightarrow> ('c, 's) conn_core \<Rightarrow> ('c, 's) query \<Rightarrow> c_struct \<Rightarrow> 64 word list \<Rightarrow> mem \<Rightarrow>
     (corm_err_t \<times> c_struct \<times> ('c, 's) conn_core \<times> ('c, 's) query \<times> mem) option" where
  "corm_first b c q rec as m =
     (case corm_find b c (q\<lparr>limit := 1, offset := 0\<rparr>) m of
        ((err, res), c1, q1, m1) \<Rightarrow>
          if err \<noteq> CORM_OK then Some (err, rec, c1, q1, m1)
          else (case res of
                  None \<Rightarrow> Some (CORM_ERR_NOTFOUND, rec, c1, q1, m1)
                | Some r \<Rightarrow>
                    if row_count r = 0 then Some (CORM_ERR_NOTFOUND, rec, c1, q1, m1)
                    else (case map_row (model_fields (qmodel q1)) r 0 rec as of
                            None \<Rightarrow> None
                          | Some (rec1, as1) \<Rightarrow>
                              (case run_hook (after_find (qmodel q1)) c1 (Some rec1) m1 of
                                 (e, c2, rec2, m2) \<Rightarrow>
                                   Some (CORM_OK, case rec2 of Some x \<Rightarrow> x | None \<Rightarrow> rec1, c2, q1, m2)))))"

section \<open>Writing\<close>

text \<open>The bind loops: the values of the record's members, in field order.\<close>

fun bind_fields :: "corm_field_t list \<Rightarrow> c_struct \<Rightarrow> 'h corm_query_t \<Rightarrow> mem \<Rightarrow> ('h corm_query_t \<times> mem) option" where
  "bind_fields [] rec q m = Some (q, m)"
| "bind_fields (f # fs) rec q m =
     (if has_flag f CORM_FLAG_AUTOINC then bind_fields fs rec q m
      else (case corm_field_get_value rec f of
              None \<Rightarrow> None
            | Some x \<Rightarrow> (case bind_param x q m of None \<Rightarrow> None | Some (q', m') \<Rightarrow> bind_fields fs rec q' m')))"

text \<open>The result also holds the id stored through \<^verbatim>\<open>insert_id\<close>, when it is requested and
  the insertion succeeded.\<close>

definition corm_create ::
  "('c, 's) corm_backend_t \<Rightarrow> ('c, 's) conn_core \<Rightarrow> ('c, 's) query \<Rightarrow> c_struct \<Rightarrow> bool \<Rightarrow> mem \<Rightarrow>
     (corm_err_t \<times> 64 word option \<times> c_struct \<times> ('c, 's) conn_core \<times> ('c, 's) query \<times> mem) option" where
  "corm_create b c q rec want_id m =
     (case run_hook (before_create (qmodel q)) c (Some rec) m of
        (herr, c1, rec1', m1) \<Rightarrow>
          let rec1 = (case rec1' of Some x \<Rightarrow> x | None \<Rightarrow> rec) in
          if herr \<noteq> CORM_OK then Some (herr, None, rec1, c1, q, m1)
          else
            let q1 = q\<lparr>qop := CORM_OP_INSERT\<rparr> in
            (case query_exec q1 m1 of
               (err, sql, m2) \<Rightarrow>
                 if err \<noteq> CORM_OK then Some (err, None, rec1, c1, q1, m2)
                 else (case bind_fields (model_fields (qmodel q1)) rec1 q1 m2 of
                         None \<Rightarrow> None
                       | Some (q2, m3) \<Rightarrow>
                           (case call_exec b c1 (corm_strbuf_cstr sql) (param_values q2) m3 of
                              (err2, c2, m4) \<Rightarrow>
                                if err2 = CORM_OK then
                                  let id = (if want_id then Some (b_last_insert_id b c2) else None) in
                                  (case run_hook (after_create (qmodel q2)) c2 (Some rec1) m4 of
                                     (e, c3, rec3, m5) \<Rightarrow>
                                       Some (err2, id, case rec3 of Some x \<Rightarrow> x | None \<Rightarrow> rec1, c3, q2, m5))
                                else Some (err2, None, rec1, c2, q2, m4)))))"

text \<open>Statement execution with the affected-row count, shared by update and delete.\<close>

definition run_write ::
  "('c, 's) corm_backend_t \<Rightarrow> ('c, 's) conn_core \<Rightarrow> ('c, 's) query \<Rightarrow> ('c, 's) hook option \<Rightarrow> c_struct option \<Rightarrow> bool \<Rightarrow> mem \<Rightarrow>
     corm_err_t \<times> int option \<times> c_struct option \<times> ('c, 's) conn_core \<times> ('c, 's) query \<times> mem" where
  "run_write b c q after rec want_aff m =
     (case query_exec q m of
        (err, sql, m2) \<Rightarrow>
          if err \<noteq> CORM_OK then (err, None, rec, c, q, m2)
          else (case call_exec b c (corm_strbuf_cstr sql) (param_values q) m2 of
                  (err2, c2, m3) \<Rightarrow>
                    if err2 = CORM_OK then
                      let aff = (if want_aff then Some (b_rows_affected b c2) else None) in
                      (case run_hook after c2 rec m3 of (e, c3, rec3, m4) \<Rightarrow> (err2, aff, rec3, c3, q, m4))
                    else (err2, None, rec, c2, q, m3)))"

definition corm_update_internal ::
  "('c, 's) corm_backend_t \<Rightarrow> ('c, 's) conn_core \<Rightarrow> ('c, 's) query \<Rightarrow> bool \<Rightarrow> c_struct option \<Rightarrow> mem \<Rightarrow>
     corm_err_t \<times> int option \<times> c_struct option \<times> ('c, 's) conn_core \<times> ('c, 's) query \<times> mem" where
  "corm_update_internal b c q want_aff rec m =
     (case run_hook (before_update (qmodel q)) c rec m of
        (herr, c1, rec1, m1) \<Rightarrow>
          if herr \<noteq> CORM_OK then (herr, None, rec1, c1, q, m1)
          else run_write b c1 (q\<lparr>qop := CORM_OP_UPDATE\<rparr>) (after_update (qmodel q)) rec1 want_aff m1)"

definition corm_update ::
  "('c, 's) corm_backend_t \<Rightarrow> ('c, 's) conn_core \<Rightarrow> ('c, 's) query \<Rightarrow> bool \<Rightarrow> mem \<Rightarrow>
     corm_err_t \<times> int option \<times> c_struct option \<times> ('c, 's) conn_core \<times> ('c, 's) query \<times> mem" where
  "corm_update b c q want_aff m = corm_update_internal b c q want_aff None m"

definition deleted_mark :: corm_value_t where
  "deleted_mark = \<lparr>vtype = CORM_STRING, is_null = False, uval = VS (Some ''deleted'')\<rparr>"

definition corm_delete_internal ::
  "('c, 's) corm_backend_t \<Rightarrow> ('c, 's) conn_core \<Rightarrow> ('c, 's) query \<Rightarrow> bool \<Rightarrow> c_struct option \<Rightarrow> mem \<Rightarrow>
     (corm_err_t \<times> int option \<times> c_struct option \<times> ('c, 's) conn_core \<times> ('c, 's) query \<times> mem) option" where
  "corm_delete_internal b c q want_aff rec m =
     (case soft_delete_field (qmodel q) of
        Some f \<Rightarrow>
          (case set_field (fname f) deleted_mark q m of
             None \<Rightarrow> None
           | Some (q1, m1) \<Rightarrow> Some (corm_update_internal b c q1 want_aff rec m1))
      | None \<Rightarrow>
          (case run_hook (before_delete (qmodel q)) c rec m of
             (herr, c1, rec1, m1) \<Rightarrow>
               Some (if herr \<noteq> CORM_OK then (herr, None, rec1, c1, q, m1)
                     else run_write b c1 (q\<lparr>qop := CORM_OP_DELETE\<rparr>) (after_delete (qmodel q)) rec1 want_aff m1)))"

definition corm_delete ::
  "('c, 's) corm_backend_t \<Rightarrow> ('c, 's) conn_core \<Rightarrow> ('c, 's) query \<Rightarrow> bool \<Rightarrow> mem \<Rightarrow>
     (corm_err_t \<times> int option \<times> c_struct option \<times> ('c, 's) conn_core \<times> ('c, 's) query \<times> mem) option" where
  "corm_delete b c q want_aff m = corm_delete_internal b c q want_aff None m"

section \<open>Convenience functions\<close>

text \<open>A new query for a connection and a model, with an optional condition.\<close>

definition query_for ::
  "('c, 's) corm_backend_t \<Rightarrow> ('c, 's) model \<Rightarrow> mem \<Rightarrow> ('c, 's) query option \<times> mem" where
  "query_for b md m = corm_query_new (Some (btype b)) md m"

definition opt_where :: "string option \<Rightarrow> 'h corm_query_t \<Rightarrow> mem \<Rightarrow> 'h corm_query_t \<times> mem" where
  "opt_where w q m = (case w of None \<Rightarrow> (q, m) | Some s \<Rightarrow> corm_query_where q s m)"

text \<open>The copy loop of \<^verbatim>\<open>corm_find_all\<close> over the rows; \<open>recs\<close> is the caller's array, and a
  row beyond its end is \<open>None\<close>: the code computes the address of the record, and passes it to the hook,
  even when no column of the answer belongs to a member and nothing would be written.\<close>

fun copy_rows ::
  "('c, 's) model \<Rightarrow> corm_result_t \<Rightarrow> nat \<Rightarrow> nat \<Rightarrow> c_struct list \<Rightarrow> 64 word list \<Rightarrow> ('c, 's) conn_core \<Rightarrow> mem \<Rightarrow>
     (c_struct list \<times> ('c, 's) conn_core \<times> mem) option" where
  "copy_rows md res r 0 recs as c m = Some (recs, c, m)"
| "copy_rows md res r (Suc n) recs as c m =
     (if r \<ge> length recs then None
      else (case map_row (model_fields md) res r (recs ! r) as of
              None \<Rightarrow> None
            | Some (rec1, as1) \<Rightarrow>
                (case run_hook (after_find md) c (Some rec1) m of
                   (e, c1, rec2, m1) \<Rightarrow>
                     copy_rows md res (Suc r) n (recs[r := (case rec2 of Some x \<Rightarrow> x | None \<Rightarrow> rec1)]) as1 c1 m1)))"

definition corm_find_all ::
  "('c, 's) corm_backend_t \<Rightarrow> ('c, 's) conn_core \<Rightarrow> ('c, 's) model \<Rightarrow> string option \<Rightarrow> c_struct list option \<Rightarrow> int option \<Rightarrow>
     64 word list \<Rightarrow> mem \<Rightarrow>
     (corm_err_t \<times> c_struct list option \<times> int option \<times> ('c, 's) conn_core \<times> mem) option" where
  "corm_find_all b c md w records count as m =
     (case query_for b md m of
        (None, m1) \<Rightarrow> Some (CORM_ERR_NOMEM, records, count, c, m1)
      | (Some q, m1) \<Rightarrow>
     (case opt_where w q m1 of
        (q1, m2) \<Rightarrow>
     (case corm_find b c q1 m2 of
        ((err, res), c1, q2, m3) \<Rightarrow>
          if err \<noteq> CORM_OK then Some (err, records, count, c1, m3)
          else
            let max_capacity = (case count of Some n \<Rightarrow> if n > 0 then n else -1 | None \<Rightarrow> -1);
                total_rows = (case res of Some r \<Rightarrow> row_count r | None \<Rightarrow> 0);
                copy_count = (if max_capacity > 0 \<and> total_rows > max_capacity then max_capacity else total_rows);
                count' = (if res \<noteq> None then map_option (\<lambda>_. copy_count) count else count)
            in (case (res, records) of
                  (Some r, Some recs) \<Rightarrow>
                    (case copy_rows md r 0 (nat copy_count) recs as c1 m3 of
                       None \<Rightarrow> None
                     | Some (recs', c2, m4) \<Rightarrow> Some (CORM_OK, Some recs', count', c2, m4))
                | _ \<Rightarrow> Some (CORM_OK, records, count', c1, m3)))))"

definition corm_create_one ::
  "('c, 's) corm_backend_t \<Rightarrow> ('c, 's) conn_core \<Rightarrow> ('c, 's) model \<Rightarrow> c_struct \<Rightarrow> bool \<Rightarrow> mem \<Rightarrow>
     (corm_err_t \<times> 64 word option \<times> c_struct \<times> ('c, 's) conn_core \<times> mem) option" where
  "corm_create_one b c md rec want_id m =
     (case query_for b md m of
        (None, m1) \<Rightarrow> Some (CORM_ERR_NOMEM, None, rec, c, m1)
      | (Some q, m1) \<Rightarrow>
          map_option (\<lambda>(err, id, rec', c', q', m'). (err, id, rec', c', m')) (corm_create b c q rec want_id m1))"

definition corm_find_one ::
  "('c, 's) corm_backend_t \<Rightarrow> ('c, 's) conn_core \<Rightarrow> ('c, 's) model \<Rightarrow> string option \<Rightarrow> c_struct \<Rightarrow> 64 word list \<Rightarrow> mem \<Rightarrow>
     (corm_err_t \<times> c_struct \<times> ('c, 's) conn_core \<times> mem) option" where
  "corm_find_one b c md w rec as m =
     (case query_for b md m of
        (None, m1) \<Rightarrow> Some (CORM_ERR_NOMEM, rec, c, m1)
      | (Some q, m1) \<Rightarrow>
          (case opt_where w q m1 of
             (q1, m2) \<Rightarrow>
               map_option (\<lambda>(err, rec', c', q', m'). (err, rec', c', m')) (corm_first b c q1 rec as m2)))"

definition int_of_word :: "64 word \<Rightarrow> int" where
  "int_of_word w = sint (signed_take_bit 31 w)"

text \<open>The first cell of the first row, read as an integer.\<close>

definition first_int :: "corm_result_t \<Rightarrow> 64 word option" where
  "first_int r =
     (case corm_result_value r 0 0 of Some (Some cell) \<Rightarrow> v_i (uval cell) | _ \<Rightarrow> None)"

definition corm_count ::
  "('c, 's) corm_backend_t \<Rightarrow> ('c, 's) conn_core \<Rightarrow> ('c, 's) model \<Rightarrow> string option \<Rightarrow> bool \<Rightarrow> mem \<Rightarrow>
     (corm_err_t \<times> int option \<times> ('c, 's) conn_core \<times> mem) option" where
  "corm_count b c md w want m =
     (let count0 = (if want then Some 0 else None) in
      case query_for b md m of
        (None, m1) \<Rightarrow> Some (CORM_ERR_NOMEM, count0, c, m1)
      | (Some q, m1) \<Rightarrow>
     (case corm_query_select q ''COUNT(*)'' m1 of
        (q1, m2) \<Rightarrow>
     (case opt_where w q1 m2 of
        (q2, m3) \<Rightarrow>
     (case corm_find b c q2 m3 of
        ((err, res), c1, q3, m4) \<Rightarrow>
          if err \<noteq> CORM_OK then Some (err, count0, c1, m4)
          else (case res of
                  Some r \<Rightarrow>
                    if row_count r > 0 \<and> want then
                      map_option (\<lambda>w. (CORM_OK, Some (int_of_word w), c1, m4)) (first_int r)
                    else Some (CORM_OK, count0, c1, m4)
                | None \<Rightarrow> Some (CORM_OK, count0, c1, m4))))))"

definition corm_query_count ::
  "('c, 's) corm_backend_t \<Rightarrow> ('c, 's) conn_core \<Rightarrow> ('c, 's) query option \<Rightarrow> bool \<Rightarrow> mem \<Rightarrow>
     (corm_err_t \<times> 64 word option \<times> ('c, 's) conn_core \<times> ('c, 's) query option \<times> mem) option" where
  "corm_query_count b c query want m =
     (case query of
        None \<Rightarrow> Some (CORM_ERR_NULL, None, c, None, m)
      | Some q \<Rightarrow>
          if qdb q = None \<or> \<not> want then Some (CORM_ERR_NULL, None, c, query, m)
          else
            let old_cols = select_cols q in
     (case sb_app corm_strbuf_init ''COUNT(*)'' m of
        (cols, m1) \<Rightarrow>
     (case corm_find b c (q\<lparr>select_cols := cols\<rparr>) m1 of
        ((err, res), c1, q1, m2) \<Rightarrow>
          let q2 = Some (q1\<lparr>select_cols := old_cols\<rparr>) in
          if err \<noteq> CORM_OK then Some (err, None, c1, q2, m2)
          else (case res of
                  None \<Rightarrow> Some (CORM_OK, Some 0, c1, q2, m2)
                | Some r \<Rightarrow>
                    if row_count r = 0 then Some (CORM_OK, Some 0, c1, q2, m2)
                    else map_option (\<lambda>w. (CORM_OK, Some w, c1, q2, m2)) (first_int r)))))"

section \<open>What is sent to the database\<close>

lemma query_exec_full:
  assumes "query_wf q" and "names_ok (qmodel q)"
  shows "\<exists>sb. query_exec q [] = (CORM_OK, sb, []) \<and> corm_strbuf_cstr sb = sql_of (query_bt q) q"
proof -
  from build_sql_full [OF assms ready_init, of "query_bt q"] obtain st where
    st: "corm_build_sql q (corm_strbuf_init, []) (query_bt q) = (CORM_OK, st)" "emits (corm_strbuf_init, []) st (sql_of (query_bt q) q)"
    by blast
  then have "sb_wf (fst st)" "snd st = []" "btext st = sql_of (query_bt q) q" by (simp_all add: emits_def ready_def)
  with st(1) show ?thesis by (cases st) (simp add: query_exec_def sb_cstr_text)
qed

lemma query_wf_op [simp]: "query_wf (q\<lparr>qop := x\<rparr>) = query_wf q"
  by (simp add: query_wf_def)

lemma query_bt_op [simp]: "query_bt (q\<lparr>qop := x\<rparr>) = query_bt q"
  by (simp add: query_bt_def)

text \<open>The condition \<^verbatim>\<open>corm_find\<close> adds for a model with a soft-delete field.\<close>

definition filter_text :: "'h corm_query_t \<Rightarrow> string" where
  "filter_text q =
     (if unscoped q then []
      else (case soft_delete_field (qmodel q) of
              None \<Rightarrow> []
            | Some f \<Rightarrow> sep_if '' AND '' (wtext q) @ field_name f @ '' IS NULL''))"

lemma soft_delete_in: "soft_delete_field md = Some f \<Longrightarrow> f \<in> set (model_fields md)"
  unfolding soft_delete_field_def by (auto dest: find_index_least)

lemma valid_field_Some:
  assumes "valid_model md" and "f \<in> set (model_fields md)"
  shows "fname f = Some (field_name f)" and "corm_is_valid_identifier (fname f)"
proof -
  from assms have "corm_is_valid_identifier (fname f)" by (auto simp: valid_model_def)
  then show "fname f = Some (field_name f)" "corm_is_valid_identifier (fname f)"
    by (cases "fname f"; simp add: field_name_def)+
qed

lemma soft_delete_filter_full:
  assumes "query_wf q" and "valid_model (qmodel q)"
  shows "\<exists>w. soft_delete_filter q [] = (q\<lparr>where_c := w\<rparr>, []) \<and> query_wf (q\<lparr>where_c := w\<rparr>) \<and> sb_text w = wtext q @ filter_text q"
proof (cases "unscoped q \<or> soft_delete_field (qmodel q) = None")
  case True
  with assms show ?thesis
    by (intro exI [of _ "where_c q"]) (auto simp: soft_delete_filter_def filter_text_def split: option.split)
next
  case False
  then obtain f where f: "soft_delete_field (qmodel q) = Some f" and u: "\<not> unscoped q" by auto
  note v = valid_field_Some [OF assms(2) soft_delete_in [OF f]]
  have "cstring (field_name f)" using v valid_identifier_cstring by metis
  from where_add_full [OF assms(1), of "'' AND ''" "[field_name f, '' IS NULL'']"] this obtain w where
    "where_add '' AND '' [field_name f, '' IS NULL''] q [] = (q\<lparr>where_c := w\<rparr>, [])" "query_wf (q\<lparr>where_c := w\<rparr>)"
    "sb_text w = wtext q @ sep_if '' AND '' (wtext q) @ field_name f @ '' IS NULL''" by auto
  with f u v show ?thesis by (auto simp: soft_delete_filter_def where_null_body_def filter_text_def)
qed

text \<open>The query a find leaves behind, and the find in terms of the driver's answer to its statement.\<close>

definition find_query :: "'h corm_query_t \<Rightarrow> 'h corm_query_t" where
  "find_query q = (fst (soft_delete_filter q []))\<lparr>qop := CORM_OP_SELECT\<rparr>"

lemma find_query_full:
  assumes "query_wf q" and "valid_model (qmodel q)"
  shows "\<exists>w. soft_delete_filter q [] = (q\<lparr>where_c := w\<rparr>, []) \<and> find_query q = q\<lparr>where_c := w, qop := CORM_OP_SELECT\<rparr> \<and>
    sb_text w = wtext q @ filter_text q \<and> query_wf (find_query q)"
  using soft_delete_filter_full [OF assms] by (auto simp: find_query_def)

lemma find_through:
  assumes "query_wf q" and "valid_model (qmodel q)" and "names_ok (qmodel q)"
    and "b_query b c (sql_of (query_bt q) (find_query q)) (param_values q) [] = ((err, res), c', m')"
  shows "corm_find b c q [] =
    ((err, res), logged c (Ev_Query (sql_of (query_bt q) (find_query q)) (param_values q) err) c', find_query q, m')"
proof -
  from find_query_full [OF assms(1,2)] obtain w where w: "soft_delete_filter q [] = (q\<lparr>where_c := w\<rparr>, [])"
    "find_query q = q\<lparr>where_c := w, qop := CORM_OP_SELECT\<rparr>" "query_wf (find_query q)" by blast
  then have same: "query_bt (find_query q) = query_bt q" "param_values (find_query q) = param_values q" "names_ok (qmodel (find_query q))"
    using assms(3) by (simp_all add: query_bt_def param_values_def)
  from query_exec_full [OF w(3) same(3)] same(1) obtain sb where sb: "query_exec (find_query q) [] = (CORM_OK, sb, [])"
    "corm_strbuf_cstr sb = sql_of (query_bt q) (find_query q)" by auto
  from w(1,2) sb assms(4) same(2) show ?thesis by (simp add: corm_find_def call_query_def Let_def)
qed

lemma find_full:
  assumes "query_wf q" and "valid_model (qmodel q)" and "names_ok (qmodel q)"
  shows "\<exists>w err res c' m'. corm_find b c q [] = ((err, res), c', q\<lparr>where_c := w, qop := CORM_OP_SELECT\<rparr>, m') \<and>
    sb_text w = wtext q @ filter_text q \<and> query_wf (q\<lparr>where_c := w, qop := CORM_OP_SELECT\<rparr>) \<and>
    calls c' = calls c @ [Ev_Query (sql_of (query_bt q) (q\<lparr>where_c := w, qop := CORM_OP_SELECT\<rparr>)) (param_values q) err]"
proof -
  obtain err res c' m' where "b_query b c (sql_of (query_bt q) (find_query q)) (param_values q) [] = ((err, res), c', m')"
    by (metis prod.collapse)
  from find_through [OF assms this] find_query_full [OF assms(1,2)] show ?thesis by (metis calls_logged)
qed

lemma bind_fields_full:
  assumes "query_wf q" and "\<forall>f\<in>set fs. \<not> has_flag f CORM_FLAG_AUTOINC \<longrightarrow> (\<exists>x. corm_field_get_value rec f = Some x \<and> value_wf x)"
  shows "\<exists>q'. bind_fields fs rec q [] = Some (q', []) \<and> query_wf q' \<and> qmodel q' = qmodel q \<and> qdb q' = qdb q \<and>
    param_values q' = param_values q @
      map (\<lambda>f. the (corm_field_get_value rec f)) (filter (\<lambda>f. \<not> has_flag f CORM_FLAG_AUTOINC) fs)"
  using assms
proof (induction fs arbitrary: q)
  case (Cons f fs)
  show ?case
  proof (cases "has_flag f CORM_FLAG_AUTOINC")
    case True
    with Cons.IH [OF Cons.prems(1)] Cons.prems(2) show ?thesis by simp
  next
    case False
    with Cons.prems(2) obtain x where x: "corm_field_get_value rec f = Some x" "value_wf x" by auto
    note b = bind_full [OF Cons.prems(1) x(2)]
    from Cons.IH [OF b(3)] Cons.prems(2) obtain q' where
      "bind_fields fs rec (bound x q) [] = Some (q', [])" "query_wf q'" "qmodel q' = qmodel q" "qdb q' = qdb q"
      "param_values q' = param_values (bound x q) @
        map (\<lambda>f. the (corm_field_get_value rec f)) (filter (\<lambda>f. \<not> has_flag f CORM_FLAG_AUTOINC) fs)"
      using Cons.prems(1) x(2) by auto
    with False x b(1) Cons.prems(1) show ?thesis by (auto simp: param_values_def)
  qed
qed (simp add: param_values_def)

text \<open>A value read from a struct has the blob length of its data.\<close>

lemma get_value_wf: "corm_field_get_value rec f = Some x \<Longrightarrow> value_wf x"
  by (auto simp: corm_field_get_value_def mk_value_def value_wf_def load_bytes_def
      split: corm_field_type_t.splits option.splits if_splits)

text \<open>A creation with its hooks: the one before sees the record and may change it or refuse; the one
  after runs on success only.\<close>

lemma create_hooked:
  assumes "query_wf q" and "names_ok (qmodel q)"
    and "run_hook (before_create (qmodel q)) c (Some rec) [] = (herr, c1, Some rec1, [])"
    and "\<forall>f\<in>set (insert_fields (qmodel q)). corm_field_get_value rec1 f \<noteq> None"
  shows "\<exists>err id rec' c' q' m'. corm_create b c q rec True [] = Some (err, id, rec', c', q', m') \<and>
    (if herr \<noteq> CORM_OK then err = herr \<and> id = None \<and> rec' = rec1 \<and> c' = c1 \<and> q' = q
     else \<exists>c2 m2. calls c2 = calls c1 @ [Ev_Exec (sql_of (query_bt q) (q\<lparr>qop := CORM_OP_INSERT\<rparr>))
         (param_values q @ map (\<lambda>f. the (corm_field_get_value rec1 f)) (insert_fields (qmodel q))) err] \<and>
       (if err \<noteq> CORM_OK then id = None \<and> rec' = rec1 \<and> c' = c2
        else id = Some (b_last_insert_id b c2) \<and>
          (\<exists>e r. run_hook (after_create (qmodel q)) c2 (Some rec1) m2 = (e, c', r, m') \<and>
             rec' = (case r of None \<Rightarrow> rec1 | Some x \<Rightarrow> x))))"
proof (cases "herr = CORM_OK")
  case False
  with assms(3) show ?thesis by (simp add: corm_create_def)
next
  case True
  let ?q = "q\<lparr>qop := CORM_OP_INSERT\<rparr>"
  have wf: "query_wf ?q" "names_ok (qmodel ?q)" using assms by simp_all
  from query_exec_full [OF wf] obtain sb where sb: "query_exec ?q [] = (CORM_OK, sb, [])"
    "corm_strbuf_cstr sb = sql_of (query_bt q) ?q" by auto
  have "\<forall>f\<in>set (model_fields (qmodel ?q)). \<not> has_flag f CORM_FLAG_AUTOINC \<longrightarrow>
      (\<exists>x. corm_field_get_value rec1 f = Some x \<and> value_wf x)"
    using assms(4) get_value_wf by (force simp: insert_fields_def)
  from bind_fields_full [OF wf(1) this] obtain q2 where q2: "bind_fields (model_fields (qmodel ?q)) rec1 ?q [] = Some (q2, [])"
    "qmodel q2 = qmodel q" "param_values q2 = param_values q @ map (\<lambda>f. the (corm_field_get_value rec1 f)) (insert_fields (qmodel q))"
    by (auto simp: insert_fields_def param_values_def)
  obtain err c2 m2 where e: "call_exec b c1 (corm_strbuf_cstr sb) (param_values q2) [] = (err, c2, m2)" by (metis prod_cases3)
  obtain e3 c3 r3 m3 where h: "run_hook (after_create (qmodel q)) c2 (Some rec1) m2 = (e3, c3, r3, m3)" by (metis prod_cases4)
  show ?thesis
  proof (cases "err = CORM_OK")
    case ok: True
    from e sb q2 assms(3) True h ok have "corm_create b c q rec True [] =
        Some (CORM_OK, Some (b_last_insert_id b c2), case r3 of None \<Rightarrow> rec1 | Some x \<Rightarrow> x, c3, q2, m3)"
      by (cases r3) (simp_all add: corm_create_def Let_def)
    with call_exec_calls [OF e] sb q2 True h ok show ?thesis by auto
  next
    case False
    with call_exec_calls [OF e] e sb q2 assms(3) True show ?thesis by (auto simp: corm_create_def Let_def)
  qed
qed

lemma create_full:
  assumes "query_wf q" and "names_ok (qmodel q)" and "before_create (qmodel q) = None" and "after_create (qmodel q) = None"
    and "\<forall>f\<in>set (insert_fields (qmodel q)). corm_field_get_value rec f \<noteq> None"
  shows "\<exists>err c' q' m'. corm_create b c q rec True [] =
      Some (err, if err = CORM_OK then Some (b_last_insert_id b c') else None, rec, c', q', m') \<and>
    calls c' = calls c @ [Ev_Exec (sql_of (query_bt q) (q\<lparr>qop := CORM_OP_INSERT\<rparr>))
      (param_values q @ map (\<lambda>f. the (corm_field_get_value rec f)) (insert_fields (qmodel q))) err]"
proof -
  have "run_hook (before_create (qmodel q)) c (Some rec) [] = (CORM_OK, c, Some rec, [])" using assms(3) by (simp add: run_hook_def)
  from create_hooked [OF assms(1,2) this assms(5), of b] assms(4) show ?thesis
    by (auto simp: run_hook_def split: if_splits)
qed

lemma run_write_full:
  assumes "query_wf q" and "names_ok (qmodel q)" and "run_write b c q None rec want [] = (err, aff, rec', c', q', m')"
  shows "calls c' = calls c @ [Ev_Exec (sql_of (query_bt q) q) (param_values q) err] \<and> q' = q \<and> rec' = rec \<and>
    aff = (if err = CORM_OK \<and> want then Some (b_rows_affected b c') else None) \<and>
    m' = snd (snd (b_exec b c (sql_of (query_bt q) q) (param_values q) []))"
proof -
  from query_exec_full [OF assms(1,2)] obtain sb where sb: "query_exec q [] = (CORM_OK, sb, [])"
    "corm_strbuf_cstr sb = sql_of (query_bt q) q" by blast
  obtain e c1 m1 where e: "call_exec b c (corm_strbuf_cstr sb) (param_values q) [] = (e, c1, m1)" by (metis prod_cases3)
  then have "m1 = snd (snd (b_exec b c (sql_of (query_bt q) q) (param_values q) []))"
    using sb(2) by (auto simp: call_exec_def split: prod.splits)
  with call_exec_calls [OF e] e sb assms(3) show ?thesis
    by (auto simp: run_write_def run_hook_def Let_def split: if_splits)
qed

section \<open>Rows into records\<close>

lemma find_col_Some:
  "find_col xs n k = Some (Some j) \<Longrightarrow> k \<le> j \<and> j - k < length xs \<and> xs ! (j - k) = Some n"
proof (induction xs n k rule: find_col.induct)
  case (2 x xs n k)
  then show ?case
    by (cases "x = Some n") (auto simp: nth_Cons' Suc_diff_le less_Suc_eq_le split: option.splits if_splits)
qed simp

lemma find_col_total: "None \<notin> set xs \<Longrightarrow> find_col xs n k \<noteq> None"
proof (induction xs n k rule: find_col.induct)
  case (2 x xs n k)
  then show ?case by (cases x) auto
qed simp

lemma find_col_absent: "find_col xs n k = Some None \<Longrightarrow> Some n \<notin> set xs"
  by (induction xs n k rule: find_col.induct) (auto split: option.splits if_splits)

text \<open>Members without pointers: writing them touches only their own bytes.\<close>

definition untouched :: "corm_field_t \<Rightarrow> c_struct \<Rightarrow> c_struct \<Rightarrow> bool" where
  "untouched g rec rec' \<longleftrightarrow> load_bytes (sbytes rec) (foffset g) (width g) = load_bytes (sbytes rec') (foffset g) (width g) \<and>
     length (sbytes rec') = length (sbytes rec)"

lemma untouched_get:
  "untouched g rec rec' \<Longrightarrow> fits rec g \<Longrightarrow> terminated rec g \<Longrightarrow> ftype g \<noteq> CORM_TEXT \<Longrightarrow>
     corm_field_get_value rec' g = corm_field_get_value rec g"
  unfolding untouched_def by (intro get_local) auto

lemma untouched_fits: "untouched g rec rec' \<Longrightarrow> fits rec g \<Longrightarrow> fits rec' g"
  by (simp add: untouched_def fits_def)

lemma untouched_terminated: "untouched g rec rec' \<Longrightarrow> fits rec g \<Longrightarrow> terminated rec g \<Longrightarrow> terminated rec' g"
  by (auto simp: untouched_def fits_def terminated_def load_bytes_def width_def)

lemma untouched_trans: "untouched g r1 r2 \<Longrightarrow> untouched g r2 r3 \<Longrightarrow> untouched g r1 r3"
  by (simp add: untouched_def)

lemma set_value_untouched:
  assumes "corm_field_set_value rec f val p = Some rec'" and "disjoint_fields f g" and "ftype f \<noteq> CORM_TEXT"
  shows "untouched g rec rec'"
  using assms(1)
proof (cases rule: set_value_cases)
  case same
  then show ?thesis by (simp add: untouched_def)
next
  case (bytes bs)
  from put_bytes_frame [OF bytes assms(2)] show ?thesis by (simp add: untouched_def)
next
  case (ptr h bs)
  with assms(3) show ?thesis by simp
qed

lemma map_row_untouched:
  assumes "map_row fs res r rec as = Some (rec', as')" and "\<forall>f\<in>set fs. disjoint_fields f g \<and> ftype f \<noteq> CORM_TEXT"
  shows "untouched g rec rec'"
  using assms
proof (induction fs arbitrary: rec as)
  case Nil
  then show ?case by (simp add: untouched_def)
next
  case (Cons f fs)
  have step: "untouched g rec rec'" if "corm_field_set_value rec f cell a = Some rec1" and "map_row fs res r rec1 as1 = Some (rec', as')"
    for cell a rec1 as1
    using set_value_untouched [OF that(1)] Cons.IH [OF that(2)] Cons.prems(2) by (auto intro: untouched_trans)
  from Cons.prems Cons.IH step show ?case
    by (fastforce split: option.splits prod.splits)
qed

text \<open>The struct members are laid out apart from each other, inside the record, and hold no
  pointers.\<close>

definition flat_layout :: "corm_field_t list \<Rightarrow> c_struct \<Rightarrow> bool" where
  "flat_layout fs rec \<longleftrightarrow> sorted_wrt disjoint_fields fs \<and> (\<forall>f\<in>set fs. fits rec f \<and> terminated rec f \<and> ftype f \<noteq> CORM_TEXT)"

text \<open>A cell can leave a member as it is: NULL or a null pointer for a string buffer or a blob, and a
  blob that is too long. What the member reads as after the cell was written to it.\<close>

definition leaves :: "corm_field_t \<Rightarrow> corm_union \<Rightarrow> bool" where
  "leaves f u \<longleftrightarrow> ftype f = CORM_STRING \<and> v_s u = Some None \<or>
     ftype f = CORM_BLOB \<and> (\<exists>d n. v_blob u = Some (d, n) \<and> (d = None \<or> fsize f < n))"

definition taken :: "corm_field_t \<Rightarrow> corm_union \<Rightarrow> corm_value_t option \<Rightarrow> corm_value_t option" where
  "taken f u old = (if leaves f u then old else Some (mk_value (ftype f) (kept f u)))"

lemma leaves_same: "leaves f (uval val) \<Longrightarrow> corm_field_set_value rec f val p = Some rec"
  by (auto simp: leaves_def corm_field_set_value_def split: option.split)

lemma value_taken: "value_for f u \<Longrightarrow> taken f u old = Some (mk_value (ftype f) (kept f u))"
  by (cases "(f, u)" rule: value_for.cases) (auto simp: taken_def leaves_def)

text \<open>Row \<open>r\<close> holds, in the columns named like members, values of the members' types or ones that
  leave the member.\<close>

definition row_for :: "corm_field_t list \<Rightarrow> corm_result_t \<Rightarrow> nat \<Rightarrow> bool" where
  "row_for fs res r \<longleftrightarrow> result_wf res \<and> None \<notin> set (column_names res) \<and> distinct (column_names res) \<and> int r < row_count res \<and>
     (\<forall>f\<in>set fs. \<forall>j<nat (column_count res). column_names res ! j = Some (field_name f) \<longrightarrow>
        value_for f (uval (the (rows res) ! r ! j)) \<or> leaves f (uval (the (rows res) ! r ! j)))"

text \<open>The record has taken over the row.\<close>

definition filled :: "corm_field_t list \<Rightarrow> corm_result_t \<Rightarrow> nat \<Rightarrow> c_struct \<Rightarrow> c_struct \<Rightarrow> bool" where
  "filled fs res r rec rec' \<longleftrightarrow> length (sbytes rec') = length (sbytes rec) \<and>
     (\<forall>f\<in>set fs. (\<forall>j<nat (column_count res). column_names res ! j = Some (field_name f) \<longrightarrow>
          corm_field_get_value rec' f = taken f (uval (the (rows res) ! r ! j)) (corm_field_get_value rec f)) \<and>
        (Some (field_name f) \<notin> set (column_names res) \<longrightarrow> corm_field_get_value rec' f = corm_field_get_value rec f))"

lemma flat_layout_tail:
  assumes "flat_layout (f # fs) rec" and "\<forall>g\<in>set fs. untouched g rec rec1"
  shows "flat_layout fs rec1"
  using assms by (auto simp: flat_layout_def intro: untouched_fits untouched_terminated)

lemma next_addr_flat: "ftype f \<noteq> CORM_TEXT \<Longrightarrow> next_addr f as = (0, as)"
  by (simp add: next_addr_def)

lemma disjoint_sym: "disjoint_fields f g \<longleftrightarrow> disjoint_fields g f"
  by (auto simp: disjoint_fields_def)

lemma set_value_terminated:
  assumes "corm_field_get_value rec f = Some x" and "fits rec f" and "ftype f = CORM_STRING"
    and "uval x = VS (Some s)" and "length s < fsize f"
  shows "terminated rec f"
proof -
  let ?ys = "drop (foffset f) (sbytes rec)"
  from assms have z: "0 \<in> set ?ys" and s: "s = map char_of_byte (takeWhile (\<lambda>b. b \<noteq> 0) ?ys)"
    by (auto simp: corm_field_get_value_def c_str_at_def mk_value_def split: if_splits)
  let ?n = "length (takeWhile (\<lambda>b. b \<noteq> 0) ?ys)"
  have "takeWhile (\<lambda>b. b \<noteq> 0) ?ys \<noteq> ?ys" using z by (simp add: takeWhile_eq_all_conv)
  then have "?n \<noteq> length ?ys" by (metis take_all_iff takeWhile_eq_take order.refl)
  with length_takeWhile_le [of "\<lambda>b. b \<noteq> 0" ?ys] have n: "?n < length ?ys" by linarith
  moreover from nth_length_takeWhile [OF n] have "?ys ! ?n = 0" by simp
  moreover have "?n < fsize f" using assms(5) s by simp
  ultimately have "take (fsize f) ?ys ! ?n = 0" "?n < length (take (fsize f) ?ys)" by simp_all
  then show ?thesis unfolding terminated_def by (metis nth_mem)
qed

text \<open>One member: the new record, with every other member as it was.\<close>

lemma set_one:
  assumes "fits rec f" and "value_for f (uval val) \<or> leaves f (uval val)" and "ftype f \<noteq> CORM_TEXT" and "terminated rec f"
  obtains rec1 where "corm_field_set_value rec f val 0 = Some rec1"
    and "corm_field_get_value rec1 f = taken f (uval val) (corm_field_get_value rec f)"
    and "length (sbytes rec1) = length (sbytes rec)" and "terminated rec1 f" and "fits rec1 f"
    and "\<And>g. disjoint_fields f g \<Longrightarrow> untouched g rec rec1"
proof (cases "leaves f (uval val)")
  case True
  from leaves_same [OF this] True assms(1,4) show ?thesis
    by (intro that [of rec]) (simp_all add: taken_def untouched_def)
next
  case False
  with assms(2) have v: "value_for f (uval val)" by simp
  from set_get_flat [OF assms(1) v assms(3)] obtain rec1 where r: "corm_field_set_value rec f val 0 = Some rec1"
    "corm_field_get_value rec1 f = Some (mk_value (ftype f) (kept f (uval val)))"
    "length (sbytes rec1) = length (sbytes rec)" by blast
  have fit: "fits rec1 f" using assms(1) r(3) by (simp add: fits_def)
  have "terminated rec1 f"
  proof (cases "ftype f = CORM_STRING")
    case True
    with v obtain s where s: "uval val = VS (Some s)" by (cases "(f, uval val)" rule: value_for.cases) auto
    have "0 < fsize f" using assms(1) True by (simp add: fits_def width_def)
    with set_value_terminated [OF r(2) fit True, of "take (fsize f - 1) s"] s True show ?thesis
      by (simp add: mk_value_def)
  qed (simp add: terminated_def)
  with r fit set_value_untouched [OF r(1) _ assms(3)] value_taken [OF v] show ?thesis by (intro that) auto
qed

lemma map_row_keeps:
  assumes "flat_layout (f # fs) rec" and "map_row fs res r rec1 as = Some (rec', as')" and "fits rec1 f" and "terminated rec1 f"
  shows "corm_field_get_value rec' f = corm_field_get_value rec1 f"
proof -
  have "untouched f rec1 rec'"
    using map_row_untouched [OF assms(2), of f] assms(1) by (auto simp: flat_layout_def disjoint_sym)
  then show ?thesis using assms(1,3,4) by (intro untouched_get) (simp_all add: flat_layout_def)
qed

lemma filled_absent:
  assumes "filled fs res r rec rec'" and "Some (field_name f) \<notin> set (column_names res)" and "result_wf res"
    and "corm_field_get_value rec' f = corm_field_get_value rec f"
  shows "filled (f # fs) res r rec rec'"
proof -
  have "\<not> (j < nat (column_count res) \<and> column_names res ! j = Some (field_name f))" for j
    using assms(2,3) by (metis nth_mem result_wf_def)
  with assms(1,4) show ?thesis by (auto simp: filled_def)
qed

lemma filled_set:
  assumes "filled fs res r rec1 rec'" and "row_for (f # fs) res r" and "i < nat (column_count res)"
    and "column_names res ! i = Some (field_name f)" and "length (sbytes rec1) = length (sbytes rec)"
    and "corm_field_get_value rec' f = taken f (uval (the (rows res) ! r ! i)) (corm_field_get_value rec f)"
    and "\<forall>g\<in>set fs. corm_field_get_value rec1 g = corm_field_get_value rec g"
  shows "filled (f # fs) res r rec rec'"
proof -
  from assms(2) have len: "length (column_names res) = nat (column_count res)" and d: "distinct (column_names res)"
    by (auto simp: row_for_def result_wf_def)
  have "k = i" if "k < nat (column_count res)" "column_names res ! k = Some (field_name f)" for k
    using that assms(3,4) d len by (simp add: nth_eq_iff_index_eq [symmetric])
  moreover from assms(3,4) len have "Some (field_name f) \<in> set (column_names res)" by (metis nth_mem)
  ultimately show ?thesis using assms(1,5,6,7) by (auto simp: filled_def)
qed

lemma map_row_correct:
  assumes "flat_layout fs rec" and "row_for fs res r"
  shows "\<exists>rec'. map_row fs res r rec as = Some (rec', as) \<and> filled fs res r rec rec'"
  using assms
proof (induction fs arbitrary: rec)
  case Nil
  then show ?case by (simp add: filled_def)
next
  case (Cons f fs)
  let ?names = "column_names res" and ?cc = "nat (column_count res)"
  have res: "result_wf res" "None \<notin> set ?names" "int r < row_count res" "row_for fs res r"
    using Cons.prems(2) by (auto simp: row_for_def)
  then have len: "length ?names = ?cc" by (simp add: result_wf_def)
  have f: "fits rec f" "terminated rec f" "ftype f \<noteq> CORM_TEXT" "\<forall>g\<in>set fs. disjoint_fields f g" "flat_layout fs rec"
    using Cons.prems(1) by (auto simp: flat_layout_def)
  obtain j where j: "find_col ?names (field_name f) 0 = Some j" using find_col_total [OF res(2), of "field_name f" 0] by blast
  show ?case
  proof (cases j)
    case None
    with j have a: "Some (field_name f) \<notin> set ?names" by (simp add: find_col_absent)
    from Cons.IH [OF f(5) res(4)] obtain rec' where r: "map_row fs res r rec as = Some (rec', as)" "filled fs res r rec rec'" by blast
    from filled_absent [OF r(2) a res(1) map_row_keeps [OF Cons.prems(1) r(1) f(1,2)]] r(1) None j len show ?thesis by simp
  next
    case (Some i)
    with find_col_Some [of ?names "field_name f" 0 i] j len have i: "i < ?cc" "?names ! i = Some (field_name f)" by auto
    let ?cell = "the (rows res) ! r ! i"
    have v: "corm_result_value res (int r) (int i) = Some (Some ?cell)" using value_wf_access [OF res(1)] res(3) i(1) by simp
    have "value_for f (uval ?cell) \<or> leaves f (uval ?cell)" using Cons.prems(2) i by (auto simp: row_for_def)
    from set_one [OF f(1) this f(3,2)] obtain rec1 where r1: "corm_field_set_value rec f ?cell 0 = Some rec1"
      "corm_field_get_value rec1 f = taken f (uval ?cell) (corm_field_get_value rec f)" "length (sbytes rec1) = length (sbytes rec)"
      "terminated rec1 f" "fits rec1 f" "\<And>g. disjoint_fields f g \<Longrightarrow> untouched g rec rec1" by blast
    have "flat_layout fs rec1" using flat_layout_tail [OF Cons.prems(1)] r1(6) f(4) by blast
    from Cons.IH [OF this res(4)] obtain rec' where r: "map_row fs res r rec1 as = Some (rec', as)" "filled fs res r rec1 rec'" by blast
    have keep: "\<forall>h\<in>set fs. corm_field_get_value rec1 h = corm_field_get_value rec h"
      using r1(6) f(4,5) by (auto simp: flat_layout_def intro: untouched_get)
    from map_row_keeps [OF Cons.prems(1) r(1) r1(5,4)] r1(2)
    have "filled (f # fs) res r rec rec'" by (intro filled_set [OF r(2) Cons.prems(2) i r1(3) _ keep]) simp
    with r(1) r1(1) Some j len v next_addr_flat [OF f(3)] show ?thesis by simp
  qed
qed

lemma copy_rows_correct:
  assumes "after_find md = None" and "r + n \<le> length recs"
    and "\<forall>i\<in>{r..<r + n}. flat_layout (model_fields md) (recs ! i) \<and> row_for (model_fields md) res i"
  shows "\<exists>recs'. copy_rows md res r n recs as c m = Some (recs', c, m) \<and> length recs' = length recs \<and>
    (\<forall>i<length recs. if i \<in> {r..<r + n} then filled (model_fields md) res i (recs ! i) (recs' ! i) else recs' ! i = recs ! i)"
  using assms(2,3)
proof (induction n arbitrary: r recs)
  case (Suc n)
  let ?fs = "model_fields md"
  from Suc.prems have "flat_layout ?fs (recs ! r)" "row_for ?fs res r" by auto
  from map_row_correct [OF this, of as] obtain rec1 where
    r1: "map_row ?fs res r (recs ! r) as = Some (rec1, as)" "filled ?fs res r (recs ! r) rec1" by blast
  have "\<forall>i\<in>{Suc r..<Suc r + n}. flat_layout ?fs (recs[r := rec1] ! i) \<and> row_for ?fs res i"
    using Suc.prems(2) by simp
  from Suc.IH [OF _ this] Suc.prems(1) obtain recs' where
    s: "copy_rows md res (Suc r) n (recs[r := rec1]) as c m = Some (recs', c, m)" "length recs' = length recs"
    "\<forall>i<length recs. if i \<in> {Suc r..<Suc r + n} then filled ?fs res i (recs[r := rec1] ! i) (recs' ! i) else recs' ! i = recs[r := rec1] ! i"
    by auto
  have "if i \<in> {r..<r + Suc n} then filled ?fs res i (recs ! i) (recs' ! i) else recs' ! i = recs ! i" if "i < length recs" for i
    using s(3) [rule_format, OF that] r1(2) that by (cases "i = r") (auto split: if_splits)
  with s(1,2) r1(1) Suc.prems(1) assms(1) show ?case by (simp add: run_hook_def)
qed simp

lemma copy_rows_overflow: "length recs < r + n \<Longrightarrow> 0 < n \<Longrightarrow> copy_rows md res r n recs as c m = None"
proof (induction n arbitrary: r recs as c m)
  case (Suc n)
  show ?case
  proof (cases "length recs \<le> r")
    case False
    with Suc.prems have "0 < n" "length (recs[r := x]) < Suc r + n" for x by auto
    with Suc.IH [of _ "Suc r"] show ?thesis by (auto split: option.split prod.split)
  qed simp
qed simp

lemma where_add_model [simp]: "qmodel (fst (where_add sep ss q m)) = qmodel q"
  by (simp add: where_add_def split: prod.split)

lemma filter_model: "qmodel (fst (soft_delete_filter q m)) = qmodel q"
  by (simp add: soft_delete_filter_def where_null_body_def split: option.split)

lemma find_keeps_model:
  assumes "corm_find b c q m = (r, c1, q1, m1)" shows "qmodel q1 = qmodel q"
proof -
  obtain q2 m2 where f: "soft_delete_filter q m = (q2, m2)" by fastforce
  with filter_model [of q m] have "qmodel q2 = qmodel q" by simp
  with assms f show ?thesis by (auto simp: corm_find_def Let_def split: prod.splits if_splits)
qed

section \<open>Properties\<close>

text \<open>(C34) A find sends exactly one query to the database: the SELECT the query describes, with the
  soft-delete filter \<^verbatim>\<open>field IS NULL\<close> added to its conditions unless the query is unscoped or the
  model has no such field, and with the bound parameters in order. The filter is added with AND and
  without parentheses, so after \<^verbatim>\<open>corm_query_or_where\<close> it restricts only the last alternative.\<close>

theorem find_sends_filtered_select:
  assumes "query_wf q" and "valid_model (qmodel q)" and "names_ok (qmodel q)"
    and "corm_find b c q [] = ((err, res), c', q', m')"
  shows "calls c' = calls c @ [Ev_Query (sql_of (query_bt q) q') (param_values q) err] \<and>
    qop q' = CORM_OP_SELECT \<and> wtext q' = wtext q @ filter_text q \<and> same_rest (q\<lparr>qop := CORM_OP_SELECT\<rparr>) q' \<and> query_wf q'"
proof -
  from find_full [OF assms(1-3), of b c] assms(4) obtain w where
    "q' = q\<lparr>where_c := w, qop := CORM_OP_SELECT\<rparr>" "sb_text w = wtext q @ filter_text q" "query_wf q'"
    "calls c' = calls c @ [Ev_Query (sql_of (query_bt q) q') (param_values q) err]" by auto
  then show ?thesis by (simp add: same_rest_def)
qed

text \<open>A model with a soft-delete member, and a connection to look at.\<close>

definition soft_field :: corm_field_t where
  "soft_field = \<lparr>fname = Some ''gone'', ftype = CORM_STRING, foffset = 8, fsize = 8, fflags = 16, default_value = None, fk_ref = None\<rparr>"

definition id_field :: corm_field_t where
  "id_field = \<lparr>fname = Some ''id'', ftype = CORM_INT, foffset = 0, fsize = 4, fflags = 3, default_value = None, fk_ref = None\<rparr>"

definition age_field :: corm_field_t where
  "age_field = \<lparr>fname = Some ''age'', ftype = CORM_INT, foffset = 4, fsize = 4, fflags = 0, default_value = None, fk_ref = None\<rparr>"

definition table_of :: "corm_field_t list \<Rightarrow> (unit, unit) model" where
  "table_of fs = \<lparr>table_name = Some ''users'', struct_size = 16, mfields = Some fs, field_count = int (length fs),
     primary_key = Some id_field, before_create = None, after_create = None, before_update = None, after_update = None,
     before_delete = None, after_delete = None, after_find = None\<rparr>"

definition query_on :: "corm_backend_type_t \<Rightarrow> string \<Rightarrow> corm_field_t list \<Rightarrow> (unit, unit) query" where
  "query_on bt w fs = \<lparr>qdb = Some bt, qmodel = table_of fs, qop = CORM_OP_SELECT,
     select_cols = corm_strbuf_init, where_c = sbx [w] corm_strbuf_init, order_c = corm_strbuf_init,
     group_c = corm_strbuf_init, having_c = corm_strbuf_init, joins = corm_strbuf_init, set_clause = corm_strbuf_init,
     params = [], param_cap = 0, limit = 0, offset = 0, unscoped = False, distinct_rows = False, preload_rel = []\<rparr>"

definition fresh_core :: "(unit, unit) conn_core" where
  "fresh_core = \<lparr>conn = Some (), err_msg = [], last_insert_id_val = 0, rows_affected_val = 0, stmt_cache = None, calls = []\<rparr>"

lemmas sample_fields = soft_field_def id_field_def age_field_def

lemma table_of_simps [simp]:
  "model_table (table_of fs) = ''users''" "model_fields (table_of fs) = fs" "after_find (table_of fs) = None"
  "before_create (table_of fs) = None" "after_create (table_of fs) = None" "before_update (table_of fs) = None"
  "after_update (table_of fs) = None" "before_delete (table_of fs) = None" "after_delete (table_of fs) = None"
  "primary_key (table_of fs) = Some id_field" "table_name (table_of fs) = Some ''users''" "mfields (table_of fs) = Some fs"
  "field_count (table_of fs) = int (length fs)" "struct_size (table_of fs) = 16"
  by (simp_all add: table_of_def model_table_def model_fields_def)

lemma table_of_valid:
  "valid_model (table_of [id_field, age_field, soft_field])" "names_ok (table_of [id_field, age_field, soft_field])"
  "valid_model (table_of [id_field, age_field])" "names_ok (table_of [id_field, age_field])"
  by (simp_all add: valid_model_def names_ok_def sample_fields field_name_def ident_char_def less_eq_char_def)

lemma query_on_simps [simp]:
  assumes "cstring w"
  shows "query_wf (query_on bt w fs)" and "wtext (query_on bt w fs) = w"
  using assms by (simp_all add: query_on_def query_wf_def)

lemma query_on_rest [simp]:
  "qmodel (query_on bt w fs) = table_of fs" "query_bt (query_on bt w fs) = bt" "param_values (query_on bt w fs) = []"
  "stext (query_on bt w fs) = []" "\<not> unscoped (query_on bt w fs)" "qop (query_on bt w fs) = CORM_OP_SELECT"
  by (simp_all add: query_on_def query_bt_def param_values_def)

theorem find_sends_filtered_select_witness:
  "\<exists>c' q' m' res. corm_find (null_backend CORM_BACKEND_SQLITE) fresh_core
       (query_on CORM_BACKEND_SQLITE ''age > 3'' [id_field, age_field, soft_field]) [] = ((CORM_OK, res), c', q', m') \<and>
     wtext q' = ''age > 3 AND gone IS NULL'' \<and> length (calls c') = Suc 0"
proof -
  let ?q = "query_on CORM_BACKEND_SQLITE ''age > 3'' [id_field, age_field, soft_field]"
  obtain err res c' q' m' where f: "corm_find (null_backend CORM_BACKEND_SQLITE) fresh_core ?q [] = ((err, res), c', q', m')"
    by (metis prod.collapse)
  have s: "soft_delete_field (table_of [id_field, age_field, soft_field]) = Some soft_field"
    by (simp add: soft_delete_field_def sample_fields has_flag_def CORM_FLAG_SOFT_DELETE_def)
  have wf: "query_wf ?q" by simp
  from find_full [OF wf, of "null_backend CORM_BACKEND_SQLITE" fresh_core] f table_of_valid have "err = CORM_OK"
    by (auto simp: corm_find_def call_query_def null_backend_def Let_def split: prod.splits if_splits)
  with find_sends_filtered_select [OF _ _ _ f] f s table_of_valid show ?thesis
    by (auto simp: filter_text_def sep_if_def soft_field_def field_name_def fresh_core_def)
qed

text \<open>Creating a record (no hooks, memory available) sends exactly one INSERT: the statement of the
  model, with the values of the record's non-auto-increment members in column order after whatever was
  bound to the query before; the generated key is read only when the insertion succeeded, and the
  record is untouched. On a query that carries no parameters the values are exactly one per column.\<close>

theorem create_binds_record:
  assumes "query_wf q" and "names_ok (qmodel q)" and "before_create (qmodel q) = None" and "after_create (qmodel q) = None"
    and "\<forall>f\<in>set (insert_fields (qmodel q)). corm_field_get_value rec f \<noteq> None"
  shows "\<exists>err c' q' m'. corm_create b c q rec True [] =
      Some (err, if err = CORM_OK then Some (b_last_insert_id b c') else None, rec, c', q', m') \<and>
    calls c' = calls c @ [Ev_Exec (sql_of (query_bt q) (q\<lparr>qop := CORM_OP_INSERT\<rparr>))
      (param_values q @ map (\<lambda>f. the (corm_field_get_value rec f)) (insert_fields (qmodel q))) err]"
  using assms by (rule create_full)

definition sample_rec :: c_struct where
  "sample_rec = \<lparr>sbytes = [1, 0, 0, 0, 7, 0, 0, 0, 0, 0, 0, 0, 0, 0, 0, 0], sheap = Map.empty\<rparr>"

lemma sample_rec_get:
  "corm_field_get_value sample_rec id_field = Some (mk_value CORM_INT (VI 1))"
  "corm_field_get_value sample_rec age_field = Some (mk_value CORM_INT (VI 7))"
  by (simp_all add: corm_field_get_value_def sample_fields sample_rec_def load_bytes_def)

lemma sample_insert: "insert_fields (table_of [id_field, age_field]) = [age_field]"
  "update_fields (table_of [id_field, age_field]) = [age_field]"
  by (simp_all add: insert_fields_def update_fields_def sample_fields has_flag_def CORM_FLAG_AUTOINC_def CORM_FLAG_PRIMARY_def)

theorem create_binds_record_witness:
  "\<exists>err c' q' m'. corm_create (null_backend CORM_BACKEND_SQLITE) fresh_core
       (query_on CORM_BACKEND_SQLITE [] [id_field, age_field]) sample_rec True [] =
       Some (err, if err = CORM_OK then Some 0 else None, sample_rec, c', q', m') \<and>
     (\<exists>sql. calls c' = [Ev_Exec sql [mk_value CORM_INT (VI 7)] err])"
  using create_binds_record [of "query_on CORM_BACKEND_SQLITE [] [id_field, age_field]" sample_rec
      "null_backend CORM_BACKEND_SQLITE" fresh_core]
  by (auto simp: sample_insert sample_rec_get table_of_valid null_backend_def fresh_core_def)

text \<open>(C35) Creating a record with its hooks (memory available): the hook before gets the record first; an
  error it reports is returned and nothing is sent. Otherwise exactly one INSERT is sent, the statement of
  the model with the values of the record as the hook left it; when it fails, the hook after is not
  called and no key is read; when it succeeds, the key is read and the hook after runs on the connection
  and the record, and its result does not change the code returned.\<close>

theorem create_calls_hooks:
  assumes "query_wf q" and "names_ok (qmodel q)"
    and "run_hook (before_create (qmodel q)) c (Some rec) [] = (herr, c1, Some rec1, [])"
    and "\<forall>f\<in>set (insert_fields (qmodel q)). corm_field_get_value rec1 f \<noteq> None"
  shows "\<exists>err id rec' c' q' m'. corm_create b c q rec True [] = Some (err, id, rec', c', q', m') \<and>
    (if herr \<noteq> CORM_OK then err = herr \<and> id = None \<and> rec' = rec1 \<and> c' = c1 \<and> q' = q
     else \<exists>c2 m2. calls c2 = calls c1 @ [Ev_Exec (sql_of (query_bt q) (q\<lparr>qop := CORM_OP_INSERT\<rparr>))
         (param_values q @ map (\<lambda>f. the (corm_field_get_value rec1 f)) (insert_fields (qmodel q))) err] \<and>
       (if err \<noteq> CORM_OK then id = None \<and> rec' = rec1 \<and> c' = c2
        else id = Some (b_last_insert_id b c2) \<and>
          (\<exists>e r. run_hook (after_create (qmodel q)) c2 (Some rec1) m2 = (e, c', r, m') \<and>
             rec' = (case r of None \<Rightarrow> rec1 | Some x \<Rightarrow> x))))"
  using assms by (rule create_hooked)

text \<open>A model whose hook before sets the age of the record to 9, and whose hook after clears it again and
  reports an error that nobody sees.\<close>

definition aged :: "8 word \<Rightarrow> c_struct" where
  "aged a = sample_rec\<lparr>sbytes := [1, 0, 0, 0, a, 0, 0, 0, 0, 0, 0, 0, 0, 0, 0, 0]\<rparr>"

definition hooked_query :: "(unit, unit) query" where
  "hooked_query = (query_on CORM_BACKEND_SQLITE [] [id_field, age_field])\<lparr>qmodel :=
     (table_of [id_field, age_field])\<lparr>before_create := Some (\<lambda>c r m. (CORM_OK, c, Some (aged 9), m)),
       after_create := Some (\<lambda>c r m. (CORM_ERR_GENERIC, c, Some (aged 0), m))\<rparr>\<rparr>"

lemma hooked_model:
  "model_table (r\<lparr>before_create := x, after_create := y\<rparr>) = model_table r"
  "model_fields (r\<lparr>before_create := x, after_create := y\<rparr>) = model_fields r"
  by (simp_all add: model_table_def model_fields_def)

lemma hooked_simps:
  "query_wf hooked_query" "names_ok (qmodel hooked_query)" "param_values hooked_query = []"
  "insert_fields (qmodel hooked_query) = [age_field]"
  "run_hook (before_create (qmodel hooked_query)) fresh_core (Some sample_rec) [] = (CORM_OK, fresh_core, Some (aged 9), [])"
  "run_hook (after_create (qmodel hooked_query)) c (Some r) m = (CORM_ERR_GENERIC, c, Some (aged 0), m)"
proof -
  let ?q = "query_on CORM_BACKEND_SQLITE [] [id_field, age_field]"
  have "query_wf ?q" by simp
  then show "query_wf hooked_query" "param_values hooked_query = []" by (simp_all add: hooked_query_def query_wf_def param_values_def query_on_def)
  show "names_ok (qmodel hooked_query)" using table_of_valid(4) by (simp add: hooked_query_def names_ok_def hooked_model)
  show "insert_fields (qmodel hooked_query) = [age_field]"
    using sample_insert(1) by (simp add: hooked_query_def insert_fields_def hooked_model)
qed (simp_all add: hooked_query_def run_hook_def)

lemma aged_nine: "corm_field_get_value (aged 9) age_field = Some (mk_value CORM_INT (VI 9))"
  by (simp add: corm_field_get_value_def aged_def sample_fields sample_rec_def load_bytes_def)

theorem create_calls_hooks_witness:
  "\<exists>err id rec' c' q' m' sql. corm_create (null_backend CORM_BACKEND_SQLITE) fresh_core hooked_query sample_rec True [] =
       Some (err, id, rec', c', q', m') \<and> calls c' = [Ev_Exec sql [mk_value CORM_INT (VI 9)] err] \<and>
       rec' = (if err = CORM_OK then aged 0 else aged 9)"
  using create_calls_hooks [OF hooked_simps(1,2,5), of "null_backend CORM_BACKEND_SQLITE"]
  by (auto simp: hooked_simps aged_nine fresh_core_def split: if_splits)

text \<open>\<^verbatim>\<open>corm_first\<close> fills the record from the first row: when the database answers, an
  empty answer is \<open>CORM_ERR_NOTFOUND\<close> and leaves the record alone; otherwise every member
  with a column of its name reads back as what its C type keeps of the cell (a NULL string or blob
  leaves it alone), every other member is
  unchanged, and no write leaves the struct. (Members without pointers, no \<^verbatim>\<open>after_find\<close> hook.)\<close>

theorem first_fills_record:
  assumes "corm_find b c (q\<lparr>limit := 1, offset := 0\<rparr>) m = ((CORM_OK, Some res), c1, q1, m1)"
    and "after_find (qmodel q) = None" and "flat_layout (model_fields (qmodel q)) rec"
    and "row_count res > 0 \<longrightarrow> row_for (model_fields (qmodel q)) res 0" and "row_count res \<ge> 0"
  shows "(row_count res = 0 \<longrightarrow> corm_first b c q rec as m = Some (CORM_ERR_NOTFOUND, rec, c1, q1, m1)) \<and>
    (row_count res > 0 \<longrightarrow> (\<exists>rec'. corm_first b c q rec as m = Some (CORM_OK, rec', c1, q1, m1) \<and>
       filled (model_fields (qmodel q)) res 0 rec rec'))"
proof -
  from find_keeps_model [OF assms(1)] have md: "qmodel q1 = qmodel q" by simp
  show ?thesis
  proof (cases "row_count res = 0")
    case True
    with assms(1) show ?thesis by (simp add: corm_first_def)
  next
    case False
    with assms(4,5) have "row_for (model_fields (qmodel q)) res 0" by simp
    from map_row_correct [OF assms(3) this, of as] False assms(1,2) md show ?thesis
      by (auto simp: corm_first_def run_hook_def)
  qed
qed

definition one_row :: corm_result_t where
  "one_row = \<lparr>column_count = 1, column_names = [Some ''age''], column_types = [CORM_INT],
     rows = Some [[mk_value CORM_INT (VI 9)]], row_count = 1, current_row = -1, refcount = 1\<rparr>"

definition row_backend :: "(unit, unit) corm_backend_t" where
  "row_backend = (null_backend CORM_BACKEND_SQLITE)\<lparr>b_query := (\<lambda>c s p m. ((CORM_OK, Some one_row), c, m))\<rparr>"

lemma sample_flat: "flat_layout [id_field, age_field] sample_rec"
  by (simp add: flat_layout_def sample_fields sample_rec_def disjoint_fields_def width_def fits_def terminated_def)

lemma one_row_for: "row_for [id_field, age_field] one_row 0"
  by (auto simp: row_for_def result_wf_def one_row_def sample_fields field_name_def mk_value_def)

lemma row_backend_find:
  assumes "query_wf q" and "valid_model (qmodel q)" and "names_ok (qmodel q)"
  shows "\<exists>c1 q1. corm_find row_backend c q [] = ((CORM_OK, Some one_row), c1, q1, [])"
  using find_through [OF assms, of row_backend c CORM_OK "Some one_row" c "[]"] by (simp add: row_backend_def)

theorem first_fills_record_witness:
  "\<exists>rec' c' q' m'. corm_first row_backend fresh_core (query_on CORM_BACKEND_SQLITE [] [id_field, age_field]) sample_rec [] [] =
       Some (CORM_OK, rec', c', q', m') \<and>
     corm_field_get_value rec' age_field = Some (mk_value CORM_INT (VI (signed_take_bit 31 9))) \<and>
     corm_field_get_value rec' id_field = Some (mk_value CORM_INT (VI 1))"
proof -
  let ?q = "query_on CORM_BACKEND_SQLITE [] [id_field, age_field]"
  have "query_wf (?q\<lparr>limit := 1, offset := 0\<rparr>)" by (simp add: query_on_def query_wf_def)
  from row_backend_find [OF this, of fresh_core] obtain c1 q1 where
    f: "corm_find row_backend fresh_core (?q\<lparr>limit := 1, offset := 0\<rparr>) [] = ((CORM_OK, Some one_row), c1, q1, [])"
    using table_of_valid(3,4) by auto
  have "row_count one_row = 1" by (simp add: one_row_def)
  with first_fills_record [OF f, of sample_rec "[]"] sample_flat one_row_for obtain rec' where
    r: "corm_first row_backend fresh_core ?q sample_rec [] [] = Some (CORM_OK, rec', c1, q1, [])"
      "filled [id_field, age_field] one_row 0 sample_rec rec'" by auto
  from r(2) have "corm_field_get_value rec' age_field = Some (mk_value CORM_INT (VI (signed_take_bit 31 9)))"
    "corm_field_get_value rec' id_field = corm_field_get_value sample_rec id_field"
    by (auto simp: filled_def taken_def leaves_def one_row_def sample_fields field_name_def mk_value_def)
  with r(1) sample_rec_get(1) show ?thesis by auto
qed

text \<open>(C37) The capacity of \<^verbatim>\<open>corm_find_all\<close>: with a positive count the caller's array is
  written only in its first \<open>min count rows\<close> records, each filled from its row, and the count
  is set to that number. With a count of zero or less there is no bound, and an answer with more rows
  than the array has records is written past its end.\<close>

theorem find_all_bounds:
  assumes "query_for b md m = (Some q, m1)" and "opt_where w q m1 = (q1, m2)"
    and "corm_find b c q1 m2 = ((CORM_OK, Some res), c1, q2, m3)" and "after_find md = None"
  shows "(n > 0 \<and> n \<le> int (length recs) \<and>
      (\<forall>i<nat (min n (row_count res)). flat_layout (model_fields md) (recs ! i) \<and> row_for (model_fields md) res i) \<longrightarrow>
      (\<exists>recs'. corm_find_all b c md w (Some recs) (Some n) as m = Some (CORM_OK, Some recs', Some (min n (row_count res)), c1, m3) \<and>
        length recs' = length recs \<and>
        (\<forall>i<length recs. if i < nat (min n (row_count res)) then filled (model_fields md) res i (recs ! i) (recs' ! i)
           else recs' ! i = recs ! i))) \<and>
    (n \<le> 0 \<and> int (length recs) < row_count res \<longrightarrow> corm_find_all b c md w (Some recs) (Some n) as m = None)"
proof (intro conjI impI)
  assume a: "n > 0 \<and> n \<le> int (length recs) \<and>
    (\<forall>i<nat (min n (row_count res)). flat_layout (model_fields md) (recs ! i) \<and> row_for (model_fields md) res i)"
  let ?k = "nat (min n (row_count res))"
  have "0 + ?k \<le> length recs" "\<forall>i\<in>{0..<0 + ?k}. flat_layout (model_fields md) (recs ! i) \<and> row_for (model_fields md) res i"
    using a by auto
  from copy_rows_correct [OF assms(4) this, of as c1 m3] obtain recs' where
    r: "copy_rows md res 0 ?k recs as c1 m3 = Some (recs', c1, m3)" "length recs' = length recs"
      "\<forall>i<length recs. if i < ?k then filled (model_fields md) res i (recs ! i) (recs' ! i) else recs' ! i = recs ! i" by auto
  have "corm_find_all b c md w (Some recs) (Some n) as m = Some (CORM_OK, Some recs', Some (min n (row_count res)), c1, m3)"
    using r(1) a assms(1-3) by (cases n "row_count res" rule: linorder_cases) (simp_all add: corm_find_all_def Let_def)
  with r(2,3) show "\<exists>recs'. corm_find_all b c md w (Some recs) (Some n) as m = Some (CORM_OK, Some recs', Some (min n (row_count res)), c1, m3) \<and>
        length recs' = length recs \<and>
        (\<forall>i<length recs. if i < ?k then filled (model_fields md) res i (recs ! i) (recs' ! i) else recs' ! i = recs ! i)"
    by blast
next
  assume a: "n \<le> 0 \<and> int (length recs) < row_count res"
  then have "length recs < 0 + nat (row_count res)" "0 < nat (row_count res)" by linarith+
  from copy_rows_overflow [OF this, of md res as c1 m3] a assms(1-3)
  show "corm_find_all b c md w (Some recs) (Some n) as m = None" by (simp add: corm_find_all_def Let_def)
qed

lemma query_for_full:
  obtains q where "query_for b md [] = (Some q, [])" and "query_wf q" and "qmodel q = md" and "params q = []"
    and "query_bt q = btype b" and "wtext q = []" and "stext q = []" and "\<not> unscoped q"
proof -
  obtain q where q: "query_for b md [] = (Some q, [])" by (simp add: query_for_def corm_query_new_def)
  then have "query_wf q" "qmodel q = md" "params q = []" "query_bt q = btype b" "wtext q = []" "stext q = []" "\<not> unscoped q"
    by (auto simp: query_for_def corm_query_new_def query_wf_def query_bt_def)
  with q that show ?thesis by blast
qed

theorem find_all_bounds_witness:
  "\<exists>recs' c1. corm_find_all row_backend fresh_core (table_of [id_field, age_field]) None (Some [sample_rec, sample_rec]) (Some 2) [] [] =
       Some (CORM_OK, Some recs', Some 1, c1, []) \<and> recs' ! 1 = sample_rec \<and>
     corm_find_all row_backend fresh_core (table_of [id_field, age_field]) None (Some []) (Some 0) [] [] = None"
proof -
  obtain q where q: "query_for row_backend (table_of [id_field, age_field]) [] = (Some q, [])" "query_wf q"
    "qmodel q = table_of [id_field, age_field]" by (rule query_for_full)
  have w: "opt_where None q [] = (q, [])" by (simp add: opt_where_def)
  from row_backend_find [OF q(2), of fresh_core] q(3) table_of_valid(3,4) obtain c1 q1 where
    f: "corm_find row_backend fresh_core q [] = ((CORM_OK, Some one_row), c1, q1, [])" by auto
  note p = find_all_bounds [OF q(1) w f]
  have k: "row_count one_row = 1" by (simp add: one_row_def)
  from p [of 2 "[sample_rec, sample_rec]" "[]"] k sample_flat one_row_for obtain recs' where
    "corm_find_all row_backend fresh_core (table_of [id_field, age_field]) None (Some [sample_rec, sample_rec]) (Some 2) [] [] =
       Some (CORM_OK, Some recs', Some 1, c1, [])" "recs' ! 1 = sample_rec" by auto
  moreover from p [of 0 "[]" "[]"] k
  have "corm_find_all row_backend fresh_core (table_of [id_field, age_field]) None (Some []) (Some 0) [] [] = None" by simp
  ultimately show ?thesis by blast
qed

text \<open>Deleting from a soft-delete model with \<^verbatim>\<open>corm_delete\<close> (no hooks, memory available)
  becomes one UPDATE that marks the rows, but the mark is bound after the parameters of the condition
  while its placeholder comes first in the text: on the question-mark dialects the first condition
  parameter is assigned to the mark column and the condition reads the remaining parameters and the
  mark.\<close>

theorem soft_delete_binds_mark_last:
  assumes "query_wf q" and "valid_model (qmodel q)" and "names_ok (qmodel q)" and "soft_delete_field (qmodel q) = Some f"
    and "before_update (qmodel q) = None" and "after_update (qmodel q) = None" and "stext q = []"
    and "query_bt q \<noteq> CORM_BACKEND_POSTGRES" and "corm_delete b c q True [] = Some (err, aff, rec', c', q', m')"
  shows "calls c' = calls c @ [Ev_Exec (''UPDATE '' @ quoted (query_bt q) (model_table (qmodel q)) @ '' SET '' @
      quoted (query_bt q) (field_name f) @ '' = ?'' @ clause '' WHERE '' (wtext q)) (param_values q @ [deleted_mark]) err] \<and>
    aff = (if err = CORM_OK then Some (b_rows_affected b c') else None)"
proof -
  note v = valid_field_Some [OF assms(2) soft_delete_in [OF assms(4)]]
  have mark: "value_wf deleted_mark" by (simp add: deleted_mark_def value_wf_def)
  from set_field_full [OF assms(1) mark, of "field_name f"] v assms(7,8) obtain q1 where
    q1: "set_field (fname f) deleted_mark q [] = Some (q1, [])" "query_wf q1" "qdb q1 = qdb q" "qmodel q1 = qmodel q"
      "where_c q1 = where_c q" "param_values q1 = param_values q @ [deleted_mark]"
      "stext q1 = quoted (query_bt q) (field_name f) @ '' = ?''"
    by (auto simp: param_values_def sep_if_def quoted_def placeholder_qmark)
  let ?q = "q1\<lparr>qop := CORM_OP_UPDATE\<rparr>"
  have bt: "query_bt ?q = query_bt q" using q1(3) by (simp add: query_bt_def)
  from assms(4-6,9) q1(1,4) have w: "run_write b c ?q None None True [] = (err, aff, rec', c', q', m')"
    by (simp add: corm_delete_def corm_delete_internal_def corm_update_internal_def run_hook_def)
  have "query_wf ?q" "names_ok (qmodel ?q)" using q1(2,4) assms(3) by simp_all
  from run_write_full [OF this w] have r: "calls c' = calls c @ [Ev_Exec (sql_of (query_bt q) ?q) (param_values ?q) err]"
    "aff = (if err = CORM_OK then Some (b_rows_affected b c') else None)" using bt by simp_all
  have "sql_of (query_bt q) ?q = ''UPDATE '' @ quoted (query_bt q) (model_table (qmodel q)) @ '' SET '' @
      quoted (query_bt q) (field_name f) @ '' = ?'' @ clause '' WHERE '' (wtext q)"
    using q1 subst_marks_qmark [OF assms(8)] by (simp add: sql_of_def set_text_def Let_def)
  moreover have "param_values ?q = param_values q @ [deleted_mark]" using q1(6) by (simp add: param_values_def)
  ultimately show ?thesis using r by simp
qed

theorem soft_delete_binds_mark_last_witness:
  "\<exists>err aff rec' c' q' m'. corm_delete (null_backend CORM_BACKEND_SQLITE) fresh_core
       (bound (mk_value CORM_INT (VI 5)) (query_on CORM_BACKEND_SQLITE ''id = ?'' [id_field, age_field, soft_field])) True [] =
       Some (err, aff, rec', c', q', m') \<and>
     (\<exists>sql. calls c' = [Ev_Exec sql [mk_value CORM_INT (VI 5), deleted_mark] err])"
proof -
  let ?q = "query_on CORM_BACKEND_SQLITE ''id = ?'' [id_field, age_field, soft_field]" and ?x = "mk_value CORM_INT (VI 5)"
  have wf: "query_wf ?q" "value_wf ?x" by (simp_all add: value_wf_def mk_value_def)
  note b = bind_full(3) [OF wf]
  have s: "soft_delete_field (table_of [id_field, age_field, soft_field]) = Some soft_field"
    by (simp add: soft_delete_field_def sample_fields has_flag_def CORM_FLAG_SOFT_DELETE_def)
  have mark: "value_wf deleted_mark" by (simp add: deleted_mark_def value_wf_def)
  note vf = valid_field_Some [OF table_of_valid(1) soft_delete_in [OF s]]
  from set_field_full [OF b mark, of "field_name soft_field"] vf obtain q1 where
    "set_field (fname soft_field) deleted_mark (bound ?x ?q) [] = Some (q1, [])" by auto
  then have "corm_delete (null_backend CORM_BACKEND_SQLITE) fresh_core (bound ?x ?q) True [] =
      Some (corm_update_internal (null_backend CORM_BACKEND_SQLITE) fresh_core q1 True None [])"
    using s bound_simps(5) [OF wf] by (simp add: corm_delete_def corm_delete_internal_def query_on_def)
  then obtain err aff rec' c' q' m' where
    d: "corm_delete (null_backend CORM_BACKEND_SQLITE) fresh_core (bound ?x ?q) True [] = Some (err, aff, rec', c', q', m')"
    by (metis prod_cases6)
  have bt: "query_bt (bound ?x ?q) = CORM_BACKEND_SQLITE" using bound_simps(4) [OF wf] by (simp add: query_bt_def query_on_def)
  have pv: "param_values (bound ?x ?q) = [?x]" using bound_simps(1) [OF wf] by (simp add: param_values_def query_on_def)
  from soft_delete_binds_mark_last [OF b _ _ _ _ _ _ _ d, of soft_field] d s bt pv bound_simps(3,5) [OF wf] table_of_valid(1,2)
  show ?thesis by (auto simp: fresh_core_def)
qed

end
