(* ===== verification/Batch.thy ===== *)
theory Batch
  imports Query_Exec
begin

text \<open>
  The batch operations of \<^verbatim>\<open>src/query.c\<close> -- \<^verbatim>\<open>corm_create_batch\<close>,
  \<^verbatim>\<open>corm_update_batch\<close> and \<^verbatim>\<open>corm_delete_batch\<close> -- statement by statement on the trace
  of backend calls: which statements each record gives, how the transaction around them is closed, and
  what is counted. The caller's array is only read; what a hook writes into a record is seen by the
  caller and by no later step of the batch, so the array is not part of the results.
\<close>

section \<open>The operations\<close>

text \<open>The records of a batch, read from the caller's array; \<open>None\<close> stands for a read past its
  end.\<close>

definition batch_records :: "c_struct list \<Rightarrow> int \<Rightarrow> c_struct option list" where
  "batch_records recs count = map (\<lambda>i. nth_opt recs (int i)) [0..<nat count]"

fun row_placeholders :: "corm_backend_type_t \<Rightarrow> corm_field_t list \<Rightarrow> nat \<Rightarrow> nat \<Rightarrow> bstate \<Rightarrow> bstate \<times> nat" where
  "row_placeholders bt [] fi idx st = (st, idx)"
| "row_placeholders bt (f # fs) fi idx st =
     (if has_flag f CORM_FLAG_AUTOINC then row_placeholders bt fs fi idx st
      else let st = (if fi > 0 then app '', '' st else st); st = app (placeholder bt idx) st
           in row_placeholders bt fs (fi + 1) (idx + 1) st)"

text \<open>The rows of one statement: placeholders, then the bound values of the record.\<close>

fun batch_rows ::
  "corm_backend_type_t \<Rightarrow> corm_field_t list \<Rightarrow> c_struct option list \<Rightarrow> nat \<Rightarrow> nat \<Rightarrow> bstate \<Rightarrow> 'h corm_query_t \<Rightarrow>
     (bstate \<times> 'h corm_query_t) option" where
  "batch_rows bt fs [] r idx st q = Some (st, q)"
| "batch_rows bt fs (None # rs) r idx st q = None"
| "batch_rows bt fs (Some rec # rs) r idx st q =
     (let st = (if r > 0 then app '', ('' st else app ''('' st) in
      case row_placeholders bt fs 0 idx st of
        (st1, idx1) \<Rightarrow>
          (case app '')'' st1 of
             (sb, m1) \<Rightarrow>
               (case bind_fields fs rec q m1 of
                  None \<Rightarrow> None
                | Some (q1, m2) \<Rightarrow> batch_rows bt fs rs (r + 1) idx1 (sb, m2) q1)))"

definition insert_prefix :: "corm_backend_type_t \<Rightarrow> ('h, 'z) corm_model_t_scheme \<Rightarrow> bstate \<Rightarrow> bstate" where
  "insert_prefix bt md st =
     (let q = corm_dialect_quote bt (model_table md);
          st = appf (''INSERT INTO '' @ q @ model_table md @ q @ '' ('') st;
          st = insert_cols bt (model_fields md) 0 st
      in app '') VALUES '' st)"

text \<open>One statement of \<^verbatim>\<open>corm_create_batch\<close> for the given records.\<close>

definition insert_chunk ::
  "('c, 's) corm_backend_t \<Rightarrow> ('c, 's) conn_core \<Rightarrow> ('c, 's) model \<Rightarrow> c_struct option list \<Rightarrow> mem \<Rightarrow>
     (corm_err_t \<times> ('c, 's) conn_core \<times> mem) option" where
  "insert_chunk b c md recs m =
     (case insert_prefix (btype b) md (corm_strbuf_init, m) of
        (sb, m1) \<Rightarrow>
          (case query_for b md m1 of
             (None, m2) \<Rightarrow> Some (CORM_ERR_NOMEM, c, m2)
           | (Some q, m2) \<Rightarrow>
               (case batch_rows (btype b) (model_fields md) recs 0 0 (sb, m2) q of
                  None \<Rightarrow> None
                | Some ((sb1, m3), q1) \<Rightarrow> Some (call_exec b c (corm_strbuf_cstr sb1) (param_values q1) m3))))"

text \<open>The loop over the groups, on the records that are left. The code computes the end of a group as
  \<^verbatim>\<open>i + batch_size\<close> in \<^verbatim>\<open>int\<close>; the sum is taken to fit, which it does while the count
  rounded up to a multiple of the batch size is below \<open>2 ^ 31\<close>.\<close>

function create_chunks ::
  "('c, 's) corm_backend_t \<Rightarrow> ('c, 's) conn_core \<Rightarrow> ('c, 's) model \<Rightarrow> c_struct option list \<Rightarrow> nat \<Rightarrow> int \<Rightarrow> mem \<Rightarrow>
     (corm_err_t \<times> int \<times> ('c, 's) conn_core \<times> mem) option" where
  "create_chunks b c md recs bs tot m =
     (if recs = [] \<or> bs = 0 then Some (CORM_OK, tot, c, m)
      else (case insert_chunk b c md (take bs recs) m of
              None \<Rightarrow> None
            | Some (err, c1, m1) \<Rightarrow>
                if err \<noteq> CORM_OK then Some (err, tot, c1, m1)
                else create_chunks b c1 md (drop bs recs) bs (tot + int (length (take bs recs))) m1))"
  by pat_completeness auto
termination
  by (relation "measure (\<lambda>(b, c, md, recs, bs, tot, m). length recs)") auto

declare create_chunks.simps [simp del]

text \<open>\<open>conn\<close> is the backend and state of the connection, \<open>None\<close> for NULL; the count is what
  \<^verbatim>\<open>inserted_count\<close> receives.\<close>

definition corm_create_batch ::
  "(('c, 's) corm_backend_t \<times> ('c, 's) conn_core) option \<Rightarrow> ('c, 's) model option \<Rightarrow> c_struct list option \<Rightarrow> int \<Rightarrow> int \<Rightarrow> mem \<Rightarrow>
     (corm_err_t \<times> int option \<times> ('c, 's) conn_core option \<times> mem) option" where
  "corm_create_batch cn md records count batch_size m =
     (case (cn, md, records) of
        (Some (b, c), Some mo, Some recs) \<Rightarrow>
          if count \<le> 0 then Some (CORM_ERR_NULL, None, Some c, m)
          else
            let bs = (if batch_size \<le> 0 then 100 else nat batch_size) in
            if insert_fields mo = [] then Some (CORM_ERR_MISMATCH, None, Some c, m)
            else map_option (\<lambda>(err, n, c', m'). (err, Some n, Some c', m'))
                   (create_chunks b c mo (batch_records recs count) bs 0 m)
      | _ \<Rightarrow> Some (CORM_ERR_NULL, None, map_option snd cn, m))"

fun set_fields :: "corm_field_t list \<Rightarrow> c_struct \<Rightarrow> 'h corm_query_t \<Rightarrow> mem \<Rightarrow> ('h corm_query_t \<times> mem) option" where
  "set_fields [] rec q m = Some (q, m)"
| "set_fields (f # fs) rec q m =
     (if has_flag f CORM_FLAG_PRIMARY then set_fields fs rec q m
      else (case corm_field_get_value rec f of
              None \<Rightarrow> None
            | Some x \<Rightarrow> (case set_field (fname f) x q m of None \<Rightarrow> None | Some (q', m') \<Rightarrow> set_fields fs rec q' m')))"

text \<open>\<^verbatim>\<open>WHERE pk = ?\<close> with the key's value bound.\<close>

definition pk_condition ::
  "corm_field_t \<Rightarrow> c_struct \<Rightarrow> 'h corm_query_t \<Rightarrow> mem \<Rightarrow> ('h corm_query_t \<times> mem) option" where
  "pk_condition pk rec q m =
     (case appf (field_name pk @ '' = ?'') (corm_strbuf_init, m) of
        (sb, m1) \<Rightarrow>
          (case corm_query_where q (corm_strbuf_cstr sb) m1 of
             (q1, m2) \<Rightarrow>
               (case corm_field_get_value rec pk of
                  None \<Rightarrow> None
                | Some x \<Rightarrow> bind_param x q1 m2)))"

text \<open>One record of a batch: the code, the rows affected and the state.\<close>

definition update_record ::
  "('c, 's) corm_backend_t \<Rightarrow> ('c, 's) model \<Rightarrow> corm_field_t \<Rightarrow> ('c, 's) conn_core \<Rightarrow> c_struct \<Rightarrow> mem \<Rightarrow>
     (corm_err_t \<times> int \<times> ('c, 's) conn_core \<times> mem) option" where
  "update_record b md pk c rec m =
     (case query_for b md m of
        (None, m1) \<Rightarrow> Some (CORM_ERR_NOMEM, 0, c, m1)
      | (Some q, m1) \<Rightarrow>
     (case set_fields (model_fields md) rec q m1 of
        None \<Rightarrow> None
      | Some (q1, m2) \<Rightarrow>
     (case pk_condition pk rec q1 m2 of
        None \<Rightarrow> None
      | Some (q2, m3) \<Rightarrow>
     (case corm_update_internal b c q2 True (Some rec) m3 of
        (err, aff, rec', c1, q3, m4) \<Rightarrow> Some (err, case aff of Some n \<Rightarrow> n | None \<Rightarrow> 0, c1, m4)))))"

definition delete_record ::
  "('c, 's) corm_backend_t \<Rightarrow> ('c, 's) model \<Rightarrow> corm_field_t \<Rightarrow> ('c, 's) conn_core \<Rightarrow> c_struct \<Rightarrow> mem \<Rightarrow>
     (corm_err_t \<times> int \<times> ('c, 's) conn_core \<times> mem) option" where
  "delete_record b md pk c rec m =
     (case query_for b md m of
        (None, m1) \<Rightarrow> Some (CORM_ERR_NOMEM, 0, c, m1)
      | (Some q, m1) \<Rightarrow>
     (case (case soft_delete_field md of
              Some f \<Rightarrow> set_field (fname f) deleted_mark q m1
            | None \<Rightarrow> Some (q, m1)) of
        None \<Rightarrow> None
      | Some (q1, m2) \<Rightarrow>
     (case pk_condition pk rec q1 m2 of
        None \<Rightarrow> None
      | Some (q2, m3) \<Rightarrow>
     (case (if soft_delete_field md \<noteq> None then Some (corm_update_internal b c q2 True (Some rec) m3)
            else corm_delete_internal b c q2 True (Some rec) m3) of
        None \<Rightarrow> None
      | Some (err, aff, rec', c1, q3, m4) \<Rightarrow> Some (err, case aff of Some n \<Rightarrow> n | None \<Rightarrow> 0, c1, m4)))))"

text \<open>The loop over the records, stopping at the first error.\<close>

fun batch_each ::
  "(('c, 's) conn_core \<Rightarrow> c_struct \<Rightarrow> mem \<Rightarrow> (corm_err_t \<times> int \<times> ('c, 's) conn_core \<times> mem) option) \<Rightarrow>
     c_struct option list \<Rightarrow> ('c, 's) conn_core \<Rightarrow> int \<Rightarrow> mem \<Rightarrow> (corm_err_t \<times> int \<times> ('c, 's) conn_core \<times> mem) option" where
  "batch_each f [] c tot m = Some (CORM_OK, tot, c, m)"
| "batch_each f (None # rs) c tot m = None"
| "batch_each f (Some rec # rs) c tot m =
     (case f c rec m of
        None \<Rightarrow> None
      | Some (err, aff, c1, m1) \<Rightarrow>
          if err \<noteq> CORM_OK then Some (err, tot + aff, c1, m1) else batch_each f rs c1 (tot + aff) m1)"

text \<open>The transaction around the loop: the results of begin, commit and rollback are dropped.\<close>

definition batch_tx ::
  "('c, 's) corm_backend_t \<Rightarrow>
   (('c, 's) conn_core \<Rightarrow> c_struct \<Rightarrow> mem \<Rightarrow> (corm_err_t \<times> int \<times> ('c, 's) conn_core \<times> mem) option) \<Rightarrow>
     c_struct option list \<Rightarrow> ('c, 's) conn_core \<Rightarrow> mem \<Rightarrow> (corm_err_t \<times> int \<times> ('c, 's) conn_core \<times> mem) option" where
  "batch_tx b f recs c m =
     (case call_simple Ev_Begin (b_begin b) c m of
        (berr, c1, m1) \<Rightarrow>
          (case batch_each f recs c1 0 m1 of
             None \<Rightarrow> None
           | Some (err, n, c2, m2) \<Rightarrow>
               (case (if err \<noteq> CORM_OK then call_simple Ev_Rollback (b_rollback b) c2 m2
                      else call_simple Ev_Commit (b_commit b) c2 m2) of
                  (e, c3, m3) \<Rightarrow> Some (err, n, c3, m3))))"

definition run_batch ::
  "(('c, 's) corm_backend_t \<Rightarrow> ('c, 's) model \<Rightarrow> corm_field_t \<Rightarrow> ('c, 's) conn_core \<Rightarrow> c_struct \<Rightarrow> mem \<Rightarrow>
      (corm_err_t \<times> int \<times> ('c, 's) conn_core \<times> mem) option) \<Rightarrow>
   (('c, 's) corm_backend_t \<times> ('c, 's) conn_core) option \<Rightarrow> ('c, 's) model option \<Rightarrow> c_struct list option \<Rightarrow> int \<Rightarrow> mem \<Rightarrow>
     (corm_err_t \<times> int option \<times> ('c, 's) conn_core option \<times> mem) option" where
  "run_batch op cn md records count m =
     (case (cn, md, records) of
        (Some (b, c), Some mo, Some recs) \<Rightarrow>
          if count \<le> 0 then Some (CORM_ERR_NULL, None, Some c, m)
          else (case primary_field mo of
                  None \<Rightarrow> Some (CORM_ERR_MISMATCH, None, Some c, m)
                | Some pk \<Rightarrow>
                    map_option (\<lambda>(err, n, c', m'). (err, Some n, Some c', m'))
                      (batch_tx b (op b mo pk) (batch_records recs count) c m))
      | _ \<Rightarrow> Some (CORM_ERR_NULL, None, map_option snd cn, m))"

definition corm_update_batch ::
  "(('c, 's) corm_backend_t \<times> ('c, 's) conn_core) option \<Rightarrow> ('c, 's) model option \<Rightarrow> c_struct list option \<Rightarrow> int \<Rightarrow> mem \<Rightarrow>
     (corm_err_t \<times> int option \<times> ('c, 's) conn_core option \<times> mem) option" where
  "corm_update_batch cn md records count m = run_batch update_record cn md records count m"

definition corm_delete_batch ::
  "(('c, 's) corm_backend_t \<times> ('c, 's) conn_core) option \<Rightarrow> ('c, 's) model option \<Rightarrow> c_struct list option \<Rightarrow> int \<Rightarrow> mem \<Rightarrow>
     (corm_err_t \<times> int option \<times> ('c, 's) conn_core option \<times> mem) option" where
  "corm_delete_batch cn md records count m = run_batch delete_record cn md records count m"

section \<open>The statement of one record\<close>

text \<open>The values of some members of a record.\<close>

definition values_of :: "c_struct \<Rightarrow> corm_field_t list \<Rightarrow> corm_value_t list" where
  "values_of rec fs = map (\<lambda>f. the (corm_field_get_value rec f)) fs"

definition readable :: "corm_field_t list \<Rightarrow> c_struct \<Rightarrow> bool" where
  "readable fs rec \<longleftrightarrow> (\<forall>f\<in>set fs. corm_field_get_value rec f \<noteq> None)"

lemma set_fields_full:
  assumes "query_wf q" and "\<forall>f\<in>set fs. corm_is_valid_identifier (fname f)" and "readable fs rec"
    and "stext q = [] \<longleftrightarrow> params q = []"
  shows "\<exists>q'. set_fields fs rec q [] = Some (q', []) \<and> query_wf q' \<and> qdb q' = qdb q \<and> qmodel q' = qmodel q \<and>
    where_c q' = where_c q \<and>
    param_values q' = param_values q @ values_of rec (filter (\<lambda>f. \<not> has_flag f CORM_FLAG_PRIMARY) fs) \<and>
    stext q' = stext q @ listed (length (params q)) (map2 (assignment (query_bt q)) (filter (\<lambda>f. \<not> has_flag f CORM_FLAG_PRIMARY) fs)
      [length (params q)..<length (params q) + length (filter (\<lambda>f. \<not> has_flag f CORM_FLAG_PRIMARY) fs)])"
  using assms
proof (induction fs arbitrary: q)
  case Nil
  then show ?case by (simp add: values_of_def)
next
  case (Cons f fs)
  have r: "readable fs rec" "\<forall>f\<in>set fs. corm_is_valid_identifier (fname f)" using Cons.prems(2,3) by (auto simp: readable_def)
  show ?case
  proof (cases "has_flag f CORM_FLAG_PRIMARY")
    case True
    with Cons.IH [OF Cons.prems(1) r(2,1) Cons.prems(4)] show ?thesis by simp
  next
    case False
    let ?bt = "query_bt q" and ?n = "length (params q)" and ?fs = "filter (\<lambda>f. \<not> has_flag f CORM_FLAG_PRIMARY) fs"
    from Cons.prems(2) have n: "fname f = Some (field_name f)" "corm_is_valid_identifier (Some (field_name f))"
      by (cases "fname f"; simp add: field_name_def)+
    from Cons.prems(3) obtain x where x: "corm_field_get_value rec f = Some x" by (auto simp: readable_def)
    from set_field_full [OF Cons.prems(1) get_value_wf [OF x] n(2)] obtain q1 where
      q1: "set_field (fname f) x q [] = Some (q1, [])" "query_wf q1" "qdb q1 = qdb q" "qmodel q1 = qmodel q" "where_c q1 = where_c q"
        "map pval (params q1) = map pval (params q) @ [x]" "stext q1 = stext q @ sep_if '', '' (stext q) @ assignment ?bt f ?n"
      using n(1) by (auto simp: assignment_def quoted_def)
    have len: "length (params q1) = Suc ?n" using arg_cong [OF q1(6), of length] by simp
    then have inv: "stext q1 = [] \<longleftrightarrow> params q1 = []" using q1(7) by (auto simp: assignment_def)
    have bt: "query_bt q1 = ?bt" using q1(3) by (simp add: query_bt_def)
    from Cons.IH [OF q1(2) r(2,1) inv] obtain q' where
      q': "set_fields fs rec q1 [] = Some (q', [])" "query_wf q'" "qdb q' = qdb q" "qmodel q' = qmodel q" "where_c q' = where_c q"
        "param_values q' = param_values q1 @ values_of rec ?fs"
        "stext q' = stext q1 @ listed (Suc ?n) (map2 (assignment ?bt) ?fs [Suc ?n..<Suc ?n + length ?fs])"
      using q1(3-5) len bt by auto
    have "set_fields (f # fs) rec q [] = Some (q', [])" using False x q1(1) q'(1) by simp
    moreover have "param_values q' = param_values q @ values_of rec (f # ?fs)"
      using q'(6) q1(6) x by (simp add: param_values_def values_of_def)
    moreover have "sep_if '', '' (stext q) = (if ?n > 0 then '', '' else [])" using Cons.prems(4) by (simp add: sep_if_def)
    then have "stext q' = stext q @ listed ?n (map2 (assignment ?bt) (f # ?fs) [?n..<?n + length (f # ?fs)])"
      using q'(7) q1(7) by (simp add: listed_Cons upt_conv_Cons del: upt_Suc)
    ultimately show ?thesis using False q'(2-5) by simp
  qed
qed

lemma placeholder_no_qmark: "CHR ''?'' \<notin> set (placeholder CORM_BACKEND_POSTGRES n)"
  using dec_nat_no_char [of "CHR ''?''"]
  by (auto simp: placeholder_def corm_dialect_placeholder_str_def snprintf_buf_def dec_int_def dest: in_set_takeD)

lemma set_list_subst:
  assumes "\<forall>f\<in>set fs. corm_is_valid_identifier (Some (field_name f))"
  shows "subst_marks bt (join_with '', '' (map2 (assignment bt) fs ns)) 0 = join_with '', '' (map2 (assignment bt) fs ns)"
    and "bt = CORM_BACKEND_POSTGRES \<Longrightarrow> count_char CHR ''?'' (join_with '', '' (map2 (assignment bt) fs ns)) = 0"
proof -
  have none: "CHR ''?'' \<notin> set (join_with '', '' (map2 (assignment bt) fs ns))" if "bt = CORM_BACKEND_POSTGRES"
  proof -
    have "CHR ''?'' \<notin> set (assignment bt f k)" if "f \<in> set fs" for f k
      using that assms quoted_no_qmark [of "field_name f" bt] placeholder_no_qmark [of k] \<open>bt = CORM_BACKEND_POSTGRES\<close>
      by (auto simp: assignment_def count_list_0_iff)
    then show ?thesis
      using set_join_with [of "'', ''" "map2 (assignment bt) fs ns"] by (auto dest!: set_zip_leftD)
  qed
  then show "bt = CORM_BACKEND_POSTGRES \<Longrightarrow> count_char CHR ''?'' (join_with '', '' (map2 (assignment bt) fs ns)) = 0"
    by (simp add: count_notin)
  show "subst_marks bt (join_with '', '' (map2 (assignment bt) fs ns)) 0 = join_with '', '' (map2 (assignment bt) fs ns)"
    using subst_marks_none [OF none] by (cases "bt = CORM_BACKEND_POSTGRES") (simp_all add: subst_marks_qmark)
qed

lemma pk_condition_full:
  assumes "query_wf q" and "corm_is_valid_identifier (fname pk)" and "corm_field_get_value rec pk = Some x" and "wtext q = []"
  shows "\<exists>q'. pk_condition pk rec q [] = Some (q', []) \<and> query_wf q' \<and> qdb q' = qdb q \<and> qmodel q' = qmodel q \<and>
    set_clause q' = set_clause q \<and> wtext q' = field_name pk @ '' = ?'' \<and> param_values q' = param_values q @ [x]"
proof -
  let ?s = "field_name pk @ '' = ?''"
  have cs: "cstring ?s" using assms(2) valid_identifier_cstring by (cases "fname pk") (auto simp: field_name_def)
  from appf_ready [OF ready_init cs] obtain sb where sb: "appf ?s (corm_strbuf_init, []) = (sb, [])" "corm_strbuf_cstr sb = ?s"
    by (cases "appf ?s (corm_strbuf_init, [])") (auto simp: ready_def sb_cstr_text)
  from where_add_full [OF assms(1), of "'' AND ''" "[?s]"] cs assms(4) obtain w where
    w: "where_add '' AND '' [?s] q [] = (q\<lparr>where_c := w\<rparr>, [])" "query_wf (q\<lparr>where_c := w\<rparr>)" "sb_text w = ?s"
    by (auto simp: sep_if_def)
  note b = bind_full [OF w(2) get_value_wf [OF assms(3)]] and s = bound_simps [OF w(2) get_value_wf [OF assms(3)]]
  have "pk_condition pk rec q [] = Some (bound x (q\<lparr>where_c := w\<rparr>), [])"
    using sb w(1) b(1) assms(3) by (simp add: pk_condition_def corm_query_where_def)
  with b(3) s w(3) show ?thesis by (simp add: param_values_def)
qed

text \<open>The two statements a batch sends for a record.\<close>

definition update_sql :: "corm_backend_type_t \<Rightarrow> ('h, 'z) corm_model_t_scheme \<Rightarrow> corm_field_t \<Rightarrow> string" where
  "update_sql bt md pk = ''UPDATE '' @ quoted bt (model_table md) @ '' SET '' @
     join_with '', '' (map2 (assignment bt) (update_fields md) [0..<length (update_fields md)]) @
     '' WHERE '' @ field_name pk @ '' = '' @ placeholder bt 0"

definition delete_sql :: "corm_backend_type_t \<Rightarrow> ('h, 'z) corm_model_t_scheme \<Rightarrow> corm_field_t \<Rightarrow> string" where
  "delete_sql bt md pk =
     (case soft_delete_field md of
        None \<Rightarrow> ''DELETE FROM '' @ quoted bt (model_table md)
      | Some f \<Rightarrow> ''UPDATE '' @ quoted bt (model_table md) @ '' SET '' @ assignment bt f 0) @
     '' WHERE '' @ field_name pk @ '' = '' @ placeholder bt 0"

definition delete_values :: "('h, 'z) corm_model_t_scheme \<Rightarrow> corm_field_t \<Rightarrow> c_struct \<Rightarrow> corm_value_t list" where
  "delete_values md pk rec = (if soft_delete_field md = None then [] else [deleted_mark]) @ values_of rec [pk]"

lemma pk_subst:
  assumes "corm_is_valid_identifier (Some n)" and "bt = CORM_BACKEND_POSTGRES \<longrightarrow> k = 0"
  shows "subst_marks bt (n @ '' = ?'') k = n @ '' = '' @ placeholder bt 0"
proof (cases "bt = CORM_BACKEND_POSTGRES")
  case True
  have "CHR ''?'' \<notin> set n" using ident_no_qmark [OF assms(1)] by (simp add: count_list_0_iff)
  with True assms(2) show ?thesis by (simp add: subst_marks_append subst_marks_none count_notin)
qed (simp add: subst_marks_qmark placeholder_qmark)

lemma update_sql_of:
  assumes "valid_model (qmodel q)" and "corm_is_valid_identifier (Some (field_name pk))" and "qop q = CORM_OP_UPDATE"
    and "wtext q = field_name pk @ '' = ?''" and "\<forall>f\<in>set fs. corm_is_valid_identifier (Some (field_name f))"
    and "stext q = join_with '', '' (map2 (assignment bt) fs [0..<length fs])" and "fs = [] \<longrightarrow> update_fields (qmodel q) = []"
  shows "sql_of bt q = ''UPDATE '' @ quoted bt (model_table (qmodel q)) @ '' SET '' @ stext q @
    '' WHERE '' @ field_name pk @ '' = '' @ placeholder bt 0"
proof -
  have nil: "stext q = [] \<Longrightarrow> fs = []"
  proof (rule ccontr)
    assume "fs \<noteq> []" then obtain f gs where "fs = f # gs" by (cases fs) auto
    moreover assume "stext q = []"
    ultimately show False using assms(6)
      by (cases gs) (simp_all add: upt_conv_Cons assignment_def join_with_Cons del: upt_Suc)
  qed
  have k: "bt = CORM_BACKEND_POSTGRES \<longrightarrow> set_params q = 0"
  proof (cases "stext q = []")
    case True
    with nil assms(7) show ?thesis unfolding set_params_def by simp
  next
    case False
    have "count_char CHR ''?'' (stext q) = 0" if "bt = CORM_BACKEND_POSTGRES"
      unfolding assms(6) by (rule set_list_subst(2) [OF assms(5) that])
    with False show ?thesis by (simp add: set_params_def)
  qed
  have "set_text bt q = stext q"
  proof (cases "stext q = []")
    case True
    with nil assms(7) show ?thesis unfolding set_text_def by simp
  next
    case False
    have "subst_marks bt (stext q) 0 = stext q" unfolding assms(6) by (rule set_list_subst(1) [OF assms(5)])
    with False show ?thesis by (simp add: set_text_def)
  qed
  with assms(3,4) pk_subst [OF assms(2) k] show ?thesis by (simp add: sql_of_def Let_def clause_def)
qed

text \<open>What \<open>update_record\<close> and \<open>delete_record\<close> share: a statement of a query, without hooks.\<close>

lemma update_internal_full:
  assumes "query_wf q" and "names_ok (qmodel q)" and "before_update (qmodel q) = None" and "after_update (qmodel q) = None"
  shows "\<exists>err rec' c' m'. corm_update_internal b c q True rec [] =
      (err, if err = CORM_OK then Some (b_rows_affected b c') else None, rec', c', q\<lparr>qop := CORM_OP_UPDATE\<rparr>, m') \<and>
    calls c' = calls c @ [Ev_Exec (sql_of (query_bt q) (q\<lparr>qop := CORM_OP_UPDATE\<rparr>)) (param_values q) err] \<and> (keeps_mem b \<longrightarrow> m' = [])"
proof -
  let ?q = "q\<lparr>qop := CORM_OP_UPDATE\<rparr>"
  obtain err aff rec' c' q' m' where w: "run_write b c ?q None rec True [] = (err, aff, rec', c', q', m')" by (metis prod_cases6)
  have "query_wf ?q" "names_ok (qmodel ?q)" using assms(1,2) by simp_all
  note r = run_write_full [OF this w]
  have "param_values ?q = param_values q" by (simp add: param_values_def)
  with r w assms(3,4) show ?thesis by (auto simp: corm_update_internal_def run_hook_def keeps_mem_def)
qed

lemma update_record_full:
  assumes "valid_model md" and "names_ok md" and "before_update md = None" and "after_update md = None"
    and "pk \<in> set (model_fields md)" and "readable (model_fields md) rec"
  shows "\<exists>err c' m'. update_record b md pk c rec [] = Some (err, if err = CORM_OK then b_rows_affected b c' else 0, c', m') \<and>
    calls c' = calls c @ [Ev_Exec (update_sql (btype b) md pk) (values_of rec (update_fields md) @ values_of rec [pk]) err] \<and>
    (keeps_mem b \<longrightarrow> m' = [])"
proof -
  obtain q where q: "query_for b md [] = (Some q, [])" "query_wf q" "qmodel q = md" "params q = []" "query_bt q = btype b"
    "wtext q = []" "stext q = []" by (rule query_for_full)
  have v: "\<forall>f\<in>set (model_fields md). corm_is_valid_identifier (fname f)" using assms(1) by (auto simp: valid_model_def)
  from set_fields_full [OF q(2) v assms(6)] q obtain q1 where
    q1: "set_fields (model_fields md) rec q [] = Some (q1, [])" "query_wf q1" "qdb q1 = qdb q" "qmodel q1 = md" "wtext q1 = []"
      "param_values q1 = values_of rec (update_fields md)"
      "stext q1 = join_with '', '' (map2 (assignment (btype b)) (update_fields md) [0..<length (update_fields md)])"
    by (auto simp: update_fields_def param_values_def)
  from assms(5,6) obtain x where x: "corm_field_get_value rec pk = Some x" by (auto simp: readable_def)
  note pk = valid_field_Some [OF assms(1,5)]
  from pk_condition_full [OF q1(2) pk(2) x q1(5)] obtain q2 where
    q2: "pk_condition pk rec q1 [] = Some (q2, [])" "query_wf q2" "qdb q2 = qdb q" "qmodel q2 = md" "set_clause q2 = set_clause q1"
      "wtext q2 = field_name pk @ '' = ?''" "param_values q2 = values_of rec (update_fields md) @ values_of rec [pk]"
    using q1(3,4,6) x by (auto simp: values_of_def)
  have bt: "query_bt q2 = btype b" using q2(3) q(5) by (simp add: query_bt_def)
  have sql: "sql_of (btype b) (q2\<lparr>qop := CORM_OP_UPDATE\<rparr>) = update_sql (btype b) md pk"
    unfolding update_sql_def using pk v valid_field_Some [OF assms(1)] q1(7) q2 assms(1)
    by (subst update_sql_of [where pk = pk and fs = "update_fields md"]) (auto simp: update_fields_def)
  from update_internal_full [OF q2(2), of b c "Some rec"] q2(4) assms(2-4) obtain err rec' c' m' where
    u: "corm_update_internal b c q2 True (Some rec) [] =
        (err, if err = CORM_OK then Some (b_rows_affected b c') else None, rec', c', q2\<lparr>qop := CORM_OP_UPDATE\<rparr>, m')"
      "calls c' = calls c @ [Ev_Exec (update_sql (btype b) md pk) (param_values q2) err]" "keeps_mem b \<longrightarrow> m' = []"
    unfolding bt sql by auto
  have "update_record b md pk c rec [] = Some (err, if err = CORM_OK then b_rows_affected b c' else 0, c', m')"
    using q(1) q1(1) q2(1) u(1) by (simp add: update_record_def)
  with u(2,3) q2(7) show ?thesis by auto
qed

lemma delete_internal_full:
  assumes "query_wf q" and "names_ok (qmodel q)" and "before_delete (qmodel q) = None" and "after_delete (qmodel q) = None"
    and "soft_delete_field (qmodel q) = None"
  shows "\<exists>err rec' c' m'. corm_delete_internal b c q True rec [] =
      Some (err, if err = CORM_OK then Some (b_rows_affected b c') else None, rec', c', q\<lparr>qop := CORM_OP_DELETE\<rparr>, m') \<and>
    calls c' = calls c @ [Ev_Exec (sql_of (query_bt q) (q\<lparr>qop := CORM_OP_DELETE\<rparr>)) (param_values q) err] \<and> (keeps_mem b \<longrightarrow> m' = [])"
proof -
  let ?q = "q\<lparr>qop := CORM_OP_DELETE\<rparr>"
  obtain err aff rec' c' q' m' where w: "run_write b c ?q None rec True [] = (err, aff, rec', c', q', m')" by (metis prod_cases6)
  have "query_wf ?q" "names_ok (qmodel ?q)" using assms(1,2) by simp_all
  note r = run_write_full [OF this w]
  have "param_values ?q = param_values q" by (simp add: param_values_def)
  with r w assms(3-5) show ?thesis by (auto simp: corm_delete_internal_def run_hook_def keeps_mem_def)
qed

text \<open>The query of a deletion before its condition is added.\<close>

lemma delete_mark_full:
  assumes "valid_model md" and "query_wf q" and "qmodel q = md" and "params q = []" and "query_bt q = bt" and "stext q = []"
  shows "\<exists>q1. (case soft_delete_field md of Some f \<Rightarrow> set_field (fname f) deleted_mark q [] | None \<Rightarrow> Some (q, [])) = Some (q1, []) \<and>
    query_wf q1 \<and> qdb q1 = qdb q \<and> qmodel q1 = md \<and> where_c q1 = where_c q \<and>
    param_values q1 = (if soft_delete_field md = None then [] else [deleted_mark]) \<and>
    stext q1 = (case soft_delete_field md of None \<Rightarrow> [] | Some f \<Rightarrow> assignment bt f 0)"
proof (cases "soft_delete_field md")
  case None
  with assms show ?thesis by (simp add: param_values_def)
next
  case (Some f)
  note v = valid_field_Some [OF assms(1) soft_delete_in [OF Some]]
  have "value_wf deleted_mark" by (simp add: deleted_mark_def value_wf_def)
  from set_field_full [OF assms(2) this, of "field_name f"] v assms Some show ?thesis
    by (auto simp: param_values_def assignment_def quoted_def sep_if_def)
qed

lemma delete_record_full:
  assumes "valid_model md" and "names_ok md" and "before_update md = None" and "after_update md = None"
    and "before_delete md = None" and "after_delete md = None" and "pk \<in> set (model_fields md)" and "readable (model_fields md) rec"
  shows "\<exists>err c' m'. delete_record b md pk c rec [] = Some (err, if err = CORM_OK then b_rows_affected b c' else 0, c', m') \<and>
    calls c' = calls c @ [Ev_Exec (delete_sql (btype b) md pk) (delete_values md pk rec) err] \<and> (keeps_mem b \<longrightarrow> m' = [])"
proof -
  obtain q where q: "query_for b md [] = (Some q, [])" "query_wf q" "qmodel q = md" "params q = []" "query_bt q = btype b"
    "wtext q = []" "stext q = []" by (rule query_for_full)
  from delete_mark_full [OF assms(1) q(2-5) q(7)] q(6) obtain q1 where
    q1: "(case soft_delete_field md of Some f \<Rightarrow> set_field (fname f) deleted_mark q [] | None \<Rightarrow> Some (q, [])) = Some (q1, [])"
      "query_wf q1" "qdb q1 = qdb q" "qmodel q1 = md" "wtext q1 = []"
      "param_values q1 = (if soft_delete_field md = None then [] else [deleted_mark])"
      "stext q1 = (case soft_delete_field md of None \<Rightarrow> [] | Some f \<Rightarrow> assignment (btype b) f 0)" by auto
  from assms(7,8) obtain x where x: "corm_field_get_value rec pk = Some x" by (auto simp: readable_def)
  note pk = valid_field_Some [OF assms(1,7)]
  from pk_condition_full [OF q1(2) pk(2) x q1(5)] obtain q2 where
    q2: "pk_condition pk rec q1 [] = Some (q2, [])" "query_wf q2" "qdb q2 = qdb q" "qmodel q2 = md" "set_clause q2 = set_clause q1"
      "wtext q2 = field_name pk @ '' = ?''" "param_values q2 = delete_values md pk rec"
    using q1(3,4,6) x by (auto simp: values_of_def delete_values_def)
  have bt: "query_bt q2 = btype b" using q2(3) q(5) by (simp add: query_bt_def)
  show ?thesis
  proof (cases "soft_delete_field md")
    case None
    have "sql_of (btype b) (q2\<lparr>qop := CORM_OP_DELETE\<rparr>) = delete_sql (btype b) md pk"
      using pk_subst [of "field_name pk" "btype b" 0] pk q2(4,6) None by (simp add: sql_of_def Let_def clause_def delete_sql_def)
    with delete_internal_full [OF q2(2), of b c "Some rec"] q2(4,7) assms(2,5,6) None bt q(1) q1(1) q2(1) show ?thesis
      by (fastforce simp: delete_record_def)
  next
    case (Some f)
    note vf = valid_field_Some [OF assms(1) soft_delete_in [OF Some]]
    have "sql_of (btype b) (q2\<lparr>qop := CORM_OP_UPDATE\<rparr>) = delete_sql (btype b) md pk"
      unfolding delete_sql_def using pk vf q1(7) q2 assms(1) Some
      by (subst update_sql_of [where pk = pk and fs = "[f]"]) auto
    with update_internal_full [OF q2(2), of b c "Some rec"] q2(4,7) assms(2-4) Some bt q(1) q1(1) q2(1) show ?thesis
      by (fastforce simp: delete_record_def)
  qed
qed

section \<open>The loop and the transaction around it\<close>

text \<open>The codes of a run that stops at the first error: all but the last are \<open>CORM_OK\<close>.\<close>

definition run_codes :: "'a list \<Rightarrow> corm_err_t list \<Rightarrow> corm_err_t \<Rightarrow> bool" where
  "run_codes xs errs err \<longleftrightarrow> length errs \<le> length xs \<and> (\<forall>e\<in>set (butlast errs). e = CORM_OK) \<and>
     err = (if errs = [] then CORM_OK else last errs) \<and> (err = CORM_OK \<longrightarrow> length errs = length xs) \<and> (xs \<noteq> [] \<longrightarrow> errs \<noteq> [])"

text \<open>An operation on one record that sends exactly one statement and returns its code.\<close>

definition sends ::
  "(('c, 's) conn_core \<Rightarrow> c_struct \<Rightarrow> mem \<Rightarrow> (corm_err_t \<times> int \<times> ('c, 's) conn_core \<times> mem) option) \<Rightarrow>
     string \<Rightarrow> (c_struct \<Rightarrow> corm_value_t list) \<Rightarrow> c_struct \<Rightarrow> bool" where
  "sends f sql ps rec \<longleftrightarrow>
     (\<forall>c. \<exists>err aff c'. f c rec [] = Some (err, aff, c', []) \<and> calls c' = calls c @ [Ev_Exec sql (ps rec) err])"

lemma batch_each_full:
  assumes "\<forall>rec\<in>set recs. sends f sql ps rec"
  shows "\<exists>errs err n c'. batch_each f (map Some recs) c tot [] = Some (err, n, c', []) \<and> run_codes recs errs err \<and>
    calls c' = calls c @ map2 (\<lambda>r e. Ev_Exec sql (ps r) e) recs errs"
  using assms
proof (induction recs arbitrary: c tot)
  case Nil
  show ?case by (intro exI [of _ "[]"]) (simp add: run_codes_def)
next
  case (Cons r rs)
  from Cons.prems have "sends f sql ps r" by simp
  then obtain err aff c1 where
    s: "f c r [] = Some (err, aff, c1, [])" "calls c1 = calls c @ [Ev_Exec sql (ps r) err]" unfolding sends_def by blast
  show ?case
  proof (cases "err = CORM_OK")
    case False
    with s show ?thesis by (intro exI [of _ "[err]"]) (simp add: run_codes_def)
  next
    case True
    from Cons.IH [of c1 "tot + aff"] Cons.prems obtain errs e n c' where
      i: "batch_each f (map Some rs) c1 (tot + aff) [] = Some (e, n, c', [])" "run_codes rs errs e"
        "calls c' = calls c1 @ map2 (\<lambda>r e. Ev_Exec sql (ps r) e) rs errs" by auto
    have "run_codes (r # rs) (CORM_OK # errs) e" using i(2) by (auto simp: run_codes_def)
    with i(1,3) s True show ?thesis by (intro exI [of _ "CORM_OK # errs"]) auto
  qed
qed

lemma batch_records_all: "batch_records recs (int (length recs)) = map Some recs"
  by (rule nth_equalityI) (simp_all add: batch_records_def nth_opt_def)

context steady_backend
begin

lemma run_batch_full:
  assumes "primary_field md = Some pk" and "recs \<noteq> []" and "\<forall>rec\<in>set recs. sends (op b md pk) sql ps rec"
  shows "\<exists>err n c' m' e1 errs e2. run_batch op (Some (b, c)) (Some md) (Some recs) (int (length recs)) [] = Some (err, Some n, Some c', m') \<and>
    run_codes recs errs err \<and>
    calls c' = calls c @ [Ev_Begin e1] @ map2 (\<lambda>r e. Ev_Exec sql (ps r) e) recs errs @
      [if err = CORM_OK then Ev_Commit e2 else Ev_Rollback e2]"
proof -
  obtain e1 c1 m1 where b1: "call_simple Ev_Begin (b_begin b) c [] = (e1, c1, m1)" by (metis prod_cases3)
  then have "m1 = []" by (rule steady_begin)
  from batch_each_full [OF assms(3), of c1 0] obtain errs err n c2 where
    e: "batch_each (op b md pk) (map Some recs) c1 0 [] = Some (err, n, c2, [])" "run_codes recs errs err"
      "calls c2 = calls c1 @ map2 (\<lambda>r e. Ev_Exec sql (ps r) e) recs errs" by blast
  obtain e2 c3 m3 where l: "(if err \<noteq> CORM_OK then call_simple Ev_Rollback (b_rollback b) c2 []
      else call_simple Ev_Commit (b_commit b) c2 []) = (e2, c3, m3)" by (metis prod_cases3)
  then have c3: "calls c3 = calls c2 @ [if err = CORM_OK then Ev_Commit e2 else Ev_Rollback e2]"
    by (auto dest: call_simple_calls split: if_splits)
  have "run_batch op (Some (b, c)) (Some md) (Some recs) (int (length recs)) [] = Some (err, Some n, Some c3, m3)"
    using b1 \<open>m1 = []\<close> e(1) l assms(1,2) by (simp add: run_batch_def batch_tx_def batch_records_all)
  with e(2,3) c3 call_simple_calls [OF b1] show ?thesis by auto
qed

end

lemma primary_field_in: "primary_field md = Some pk \<Longrightarrow> pk \<in> set (model_fields md)"
  unfolding primary_field_def by (auto dest: find_index_least)

section \<open>Properties\<close>

text \<open>(C38) \<^verbatim>\<open>corm_update_batch\<close> (no hooks, memory available): one transaction around one UPDATE per
  record, in order, stopping at the first that fails; it is committed if all succeeded and rolled back
  otherwise, and the code returned is that of the last statement -- whatever the begin, the commit or
  the rollback returned. The statement assigns every member but the primary key and selects by the
  key, its values bound in that order; the condition's placeholder is number 0, so on PostgreSQL it is
  the one of the first assignment.\<close>

theorem update_batch_transaction:
  assumes "keeps_mem b" and "valid_model md" and "names_ok md" and "before_update md = None" and "after_update md = None"
    and "primary_field md = Some pk" and "recs \<noteq> []" and "\<forall>rec\<in>set recs. readable (model_fields md) rec"
  shows "\<exists>err n c' m' e1 errs e2. corm_update_batch (Some (b, c)) (Some md) (Some recs) (int (length recs)) [] =
      Some (err, Some n, Some c', m') \<and> run_codes recs errs err \<and>
    calls c' = calls c @ [Ev_Begin e1] @
      map2 (\<lambda>r e. Ev_Exec (update_sql (btype b) md pk) (values_of r (update_fields md) @ values_of r [pk]) e) recs errs @
      [if err = CORM_OK then Ev_Commit e2 else Ev_Rollback e2]"
proof -
  have "\<forall>rec\<in>set recs. sends (update_record b md pk) (update_sql (btype b) md pk)
      (\<lambda>r. values_of r (update_fields md) @ values_of r [pk]) rec"
    using update_record_full [OF assms(2-5) primary_field_in [OF assms(6)], of _ b] assms(1,8) unfolding sends_def by blast
  from steady_backend.run_batch_full [where op = update_record, OF steady_backend.intro [OF assms(1)] assms(6,7) this] show ?thesis
    unfolding corm_update_batch_def by blast
qed

lemma sample_readable: "readable (model_fields (table_of [id_field, age_field])) sample_rec"
  "primary_field (table_of [id_field, age_field]) = Some id_field" "soft_delete_field (table_of [id_field, age_field]) = None"
  by (simp_all add: readable_def sample_rec_get primary_field_def soft_delete_field_def has_flag_def CORM_FLAG_PRIMARY_def CORM_FLAG_SOFT_DELETE_def)
    (simp_all add: sample_fields)

theorem update_batch_transaction_witness:
  "\<exists>err n c' m' e1 e2 e3. corm_update_batch (Some (null_backend CORM_BACKEND_SQLITE, fresh_core)) (Some (table_of [id_field, age_field]))
       (Some [sample_rec]) (int (length [sample_rec])) [] = Some (err, Some n, Some c', m') \<and>
     calls c' = [Ev_Begin e1, Ev_Exec (''UPDATE '' @ quoted CORM_BACKEND_SQLITE ''users'' @ '' SET '' @
         quoted CORM_BACKEND_SQLITE ''age'' @ '' = ? WHERE id = ?'') [mk_value CORM_INT (VI 7), mk_value CORM_INT (VI 1)] err,
       if err = CORM_OK then Ev_Commit e2 else Ev_Rollback e3]"
proof -
  let ?md = "table_of [id_field, age_field]" and ?b = "null_backend CORM_BACKEND_SQLITE"
  have bt: "btype ?b = CORM_BACKEND_SQLITE" by (simp add: null_backend_def)
  from update_batch_transaction [OF null_keeps_mem table_of_valid(3,4) _ _ sample_readable(2), of "[sample_rec]" CORM_BACKEND_SQLITE fresh_core]
    sample_readable(1) obtain err n c' m' e1 errs e2 where
    r: "corm_update_batch (Some (?b, fresh_core)) (Some ?md) (Some [sample_rec]) (int (length [sample_rec])) [] = Some (err, Some n, Some c', m')"
      "run_codes [sample_rec] errs err"
      "calls c' = calls fresh_core @ [Ev_Begin e1] @
        map2 (\<lambda>r e. Ev_Exec (update_sql (btype ?b) ?md id_field) (values_of r (update_fields ?md) @ values_of r [id_field]) e) [sample_rec] errs @
        [if err = CORM_OK then Ev_Commit e2 else Ev_Rollback e2]" by auto
  from r(2) have "errs = [err]" by (cases errs) (auto simp: run_codes_def split: if_splits)
  with r(1,3) show ?thesis
    by (auto simp: bt update_sql_def sample_insert values_of_def sample_rec_get fresh_core_def assignment_def placeholder_qmark)
      (simp_all add: sample_fields field_name_def)
qed

text \<open>\<^verbatim>\<open>corm_delete_batch\<close> (no hooks, memory available): the same transaction around one
  statement per record -- a DELETE by the primary key, or for a soft-delete model an UPDATE of the mark
  with the mark bound first -- stopping at the first failure.\<close>

theorem delete_batch_transaction:
  assumes "keeps_mem b" and "valid_model md" and "names_ok md" and "before_update md = None" and "after_update md = None"
    and "before_delete md = None" and "after_delete md = None"
    and "primary_field md = Some pk" and "recs \<noteq> []" and "\<forall>rec\<in>set recs. readable (model_fields md) rec"
  shows "\<exists>err n c' m' e1 errs e2. corm_delete_batch (Some (b, c)) (Some md) (Some recs) (int (length recs)) [] =
      Some (err, Some n, Some c', m') \<and> run_codes recs errs err \<and>
    calls c' = calls c @ [Ev_Begin e1] @
      map2 (\<lambda>r e. Ev_Exec (delete_sql (btype b) md pk) (delete_values md pk r) e) recs errs @
      [if err = CORM_OK then Ev_Commit e2 else Ev_Rollback e2]"
proof -
  have "\<forall>rec\<in>set recs. sends (delete_record b md pk) (delete_sql (btype b) md pk) (delete_values md pk) rec"
    using delete_record_full [OF assms(2-7) primary_field_in [OF assms(8)], of _ b] assms(1,10) unfolding sends_def by blast
  from steady_backend.run_batch_full [where op = delete_record, OF steady_backend.intro [OF assms(1)] assms(8,9) this] show ?thesis
    unfolding corm_delete_batch_def by blast
qed

theorem delete_batch_transaction_witness:
  "\<exists>err n c' m' e1 e2 e3. corm_delete_batch (Some (null_backend CORM_BACKEND_MYSQL, fresh_core)) (Some (table_of [id_field, age_field]))
       (Some [sample_rec]) (int (length [sample_rec])) [] = Some (err, Some n, Some c', m') \<and>
     calls c' = [Ev_Begin e1, Ev_Exec (''DELETE FROM '' @ quoted CORM_BACKEND_MYSQL ''users'' @ '' WHERE id = ?'')
         [mk_value CORM_INT (VI 1)] err, if err = CORM_OK then Ev_Commit e2 else Ev_Rollback e3]"
proof -
  let ?md = "table_of [id_field, age_field]" and ?b = "null_backend CORM_BACKEND_MYSQL"
  have bt: "btype ?b = CORM_BACKEND_MYSQL" by (simp add: null_backend_def)
  from delete_batch_transaction [OF null_keeps_mem table_of_valid(3,4) _ _ _ _ sample_readable(2), of "[sample_rec]" CORM_BACKEND_MYSQL fresh_core]
    sample_readable(1) obtain err n c' m' e1 errs e2 where
    r: "corm_delete_batch (Some (?b, fresh_core)) (Some ?md) (Some [sample_rec]) (int (length [sample_rec])) [] = Some (err, Some n, Some c', m')"
      "run_codes [sample_rec] errs err"
      "calls c' = calls fresh_core @ [Ev_Begin e1] @
        map2 (\<lambda>r e. Ev_Exec (delete_sql (btype ?b) ?md id_field) (delete_values ?md id_field r) e) [sample_rec] errs @
        [if err = CORM_OK then Ev_Commit e2 else Ev_Rollback e2]" by auto
  from r(2) have "errs = [err]" by (cases errs) (auto simp: run_codes_def split: if_splits)
  with r(1,3) show ?thesis
    by (auto simp: bt delete_sql_def delete_values_def sample_readable values_of_def sample_rec_get fresh_core_def placeholder_qmark)
      (simp_all add: sample_fields field_name_def)
qed

section \<open>Multi-row insertion\<close>

text \<open>The reference text of an insertion of \<open>n\<close> rows of \<open>k\<close> values each.\<close>

definition row_text :: "corm_backend_type_t \<Rightarrow> nat \<Rightarrow> nat \<Rightarrow> string" where
  "row_text bt idx k = ''('' @ join_with '', '' (map (placeholder bt) [idx..<idx + k]) @ '')''"

definition batch_sql :: "corm_backend_type_t \<Rightarrow> ('h, 'z) corm_model_t_scheme \<Rightarrow> nat \<Rightarrow> string" where
  "batch_sql bt md n = ''INSERT INTO '' @ quoted bt (model_table md) @ '' ('' @
     join_with '', '' (map (\<lambda>f. quoted bt (field_name f)) (insert_fields md)) @ '') VALUES '' @
     join_with '', '' (map (\<lambda>r. row_text bt (r * length (insert_fields md)) (length (insert_fields md))) [0..<n])"

lemma row_placeholders_full:
  assumes "ready st"
  shows "\<exists>st'. row_placeholders bt fs fi idx st = (st', idx + length (filter (\<lambda>f. \<not> has_flag f CORM_FLAG_AUTOINC) fs)) \<and>
    emits st st' (listed fi (map (placeholder bt) [idx..<idx + length (filter (\<lambda>f. \<not> has_flag f CORM_FLAG_AUTOINC) fs)]))"
  using assms
proof (induction fs arbitrary: fi idx st)
  case (Cons f fs)
  show ?case
  proof (cases "has_flag f CORM_FLAG_AUTOINC")
    case False
    let ?st = "app (placeholder bt idx) (if fi > 0 then app '', '' st else st)"
    have e: "emits st ?st ((if fi > 0 then '', '' else []) @ placeholder bt idx)" using Cons.prems by (simp add: emits_def)
    from Cons.IH [OF emits_ready [OF e], of "Suc fi" "Suc idx"] obtain st' where
      "row_placeholders bt fs (Suc fi) (Suc idx) ?st = (st', Suc idx + length (filter (\<lambda>f. \<not> has_flag f CORM_FLAG_AUTOINC) fs))"
      "emits ?st st' (listed (Suc fi) (map (placeholder bt) [Suc idx..<Suc idx + length (filter (\<lambda>f. \<not> has_flag f CORM_FLAG_AUTOINC) fs)]))"
      by blast
    with emits_trans [OF e this(2)] False show ?thesis
      by (simp add: Let_def listed_Cons upt_conv_Cons del: upt_Suc)
  qed (use Cons in simp)
qed (simp add: emits_def)

lemma batch_rows_full:
  fixes md :: "('h, 'z) corm_model_t_scheme"
  assumes "ready st" and "query_wf q" and "\<forall>rec\<in>set recs. readable (insert_fields md) rec"
  defines "k \<equiv> length (insert_fields md)"
  shows "\<exists>st' q'. batch_rows bt (model_fields md) (map Some recs) r (r * k) st q = Some (st', q') \<and>
    emits st st' (listed r (map (\<lambda>i. row_text bt (i * k) k) [r..<r + length recs])) \<and>
    param_values q' = param_values q @ concat (map (\<lambda>rec. values_of rec (insert_fields md)) recs)"
  using assms(1-3)
proof (induction recs arbitrary: r st q)
  case Nil
  then show ?case by (simp add: emits_def)
next
  case (Cons rec recs)
  let ?a = "if r > 0 then app '', ('' st else app ''('' st"
  have a: "emits st ?a ((if r > 0 then '', '' else []) @ ''('')" using Cons.prems(1) by (simp add: emits_def)
  from row_placeholders_full [OF emits_ready [OF a], of bt "model_fields md" 0 "r * k"] obtain st1 where
    p: "row_placeholders bt (model_fields md) 0 (r * k) ?a = (st1, Suc r * k)"
      "emits ?a st1 (join_with '', '' (map (placeholder bt) [r * k..<r * k + k]))"
    by (auto simp: k_def insert_fields_def add.commute)
  have c: "emits st1 (app '')'' st1) '')''" by (rule emits_app [OF emits_ready [OF p(2)]]) simp
  obtain sb where sb: "app '')'' st1 = (sb, [])" using emits_ready [OF c] by (cases "app '')'' st1") (simp add: ready_def)
  have "\<forall>f\<in>set (model_fields md). \<not> has_flag f CORM_FLAG_AUTOINC \<longrightarrow> (\<exists>x. corm_field_get_value rec f = Some x \<and> value_wf x)"
    using Cons.prems(3) get_value_wf by (force simp: readable_def insert_fields_def)
  from bind_fields_full [OF Cons.prems(2) this] obtain q1 where
    q1: "bind_fields (model_fields md) rec q [] = Some (q1, [])" "query_wf q1"
      "param_values q1 = param_values q @ values_of rec (insert_fields md)"
    by (auto simp: values_of_def insert_fields_def)
  have rd: "ready (sb, [])" using emits_ready [OF c] sb by simp
  from Cons.IH [OF rd q1(2), of "Suc r"] Cons.prems(3) obtain st' q' where
    i: "batch_rows bt (model_fields md) (map Some recs) (Suc r) (Suc r * k) (sb, []) q1 = Some (st', q')"
      "emits (sb, []) st' (listed (Suc r) (map (\<lambda>i. row_text bt (i * k) k) [Suc r..<Suc r + length recs]))"
      "param_values q' = param_values q1 @ concat (map (\<lambda>rec. values_of rec (insert_fields md)) recs)" by auto
  have "batch_rows bt (model_fields md) (map Some (rec # recs)) r (r * k) st q = Some (st', q')"
    using p(1) sb q1(1) i(1) by (simp add: Let_def)
  moreover have "listed r (map (\<lambda>i. row_text bt (i * k) k) [r..<r + length (rec # recs)]) =
      ((if r > 0 then '', '' else []) @ ''('') @ join_with '', '' (map (placeholder bt) [r * k..<r * k + k]) @ '')'' @
      listed (Suc r) (map (\<lambda>i. row_text bt (i * k) k) [Suc r..<Suc r + length recs])"
    by (simp add: upt_conv_Cons listed_Cons row_text_def del: upt_Suc)
  moreover note emits_trans [OF a emits_trans [OF p(2) emits_trans [OF c i(2) [folded sb]]]]
  ultimately show ?case using i(3) q1(3) by (simp del: upt_Suc)
qed

lemma insert_prefix_full:
  assumes "names_ok md" and "ready st"
  shows "emits st (insert_prefix bt md st) (''INSERT INTO '' @ quoted bt (model_table md) @ '' ('' @
     join_with '', '' (map (\<lambda>f. quoted bt (field_name f)) (insert_fields md)) @ '') VALUES '')"
proof -
  define a where "a = appf (''INSERT INTO '' @ [quote_char bt] @ model_table md @ [quote_char bt] @ '' ('') st"
  have 1: "emits st a (''INSERT INTO '' @ quoted bt (model_table md) @ '' ('')"
    using assms by (simp add: a_def emits_def names_ok_def quoted_def)
  from insert_cols_full [OF emits_ready [OF 1], of "model_fields md" bt 0] assms(1) emits_ready [OF 1]
  have 2: "emits a (insert_cols bt (model_fields md) 0 a) (join_with '', '' (map (\<lambda>f. quoted bt (field_name f)) (insert_fields md)))"
    by (simp add: names_ok_def insert_fields_def emits_def)
  have p: "insert_prefix bt md st = app '') VALUES '' (insert_cols bt (model_fields md) 0 a)"
    by (simp add: insert_prefix_def Let_def a_def)
  have "emits (insert_cols bt (model_fields md) 0 a) (insert_prefix bt md st) '') VALUES ''"
    unfolding p by (rule emits_app [OF emits_ready [OF 2]]) simp
  from emits_trans [OF 1 emits_trans [OF 2 this]] show ?thesis by simp
qed

definition chunk_values :: "('h, 'z) corm_model_t_scheme \<Rightarrow> c_struct list \<Rightarrow> corm_value_t list" where
  "chunk_values md recs = concat (map (\<lambda>rec. values_of rec (insert_fields md)) recs)"

context steady_backend
begin

lemma insert_chunk_full:
  assumes "names_ok md" and "\<forall>rec\<in>set recs. readable (insert_fields md) rec"
  shows "\<exists>err c' m'. insert_chunk b c md (map Some recs) [] = Some (err, c', m') \<and>
    calls c' = calls c @ [Ev_Exec (batch_sql (btype b) md (length recs)) (chunk_values md recs) err] \<and> m' = []"
proof -
  note pre = insert_prefix_full [OF assms(1) ready_init, of "btype b"]
  obtain sb where sb: "insert_prefix (btype b) md (corm_strbuf_init, []) = (sb, [])"
    using emits_ready [OF pre] by (cases "insert_prefix (btype b) md (corm_strbuf_init, [])") (simp add: ready_def)
  obtain q where q: "query_for b md [] = (Some q, [])" "query_wf q" "params q = []" by (rule query_for_full)
  have rd: "ready (sb, [])" using emits_ready [OF pre] sb by simp
  from batch_rows_full [OF rd q(2) assms(2), of "btype b" 0] obtain st' q' where
    r: "batch_rows (btype b) (model_fields md) (map Some recs) 0 0 (sb, []) q = Some (st', q')"
      "emits (sb, []) st' (join_with '', '' (map (\<lambda>i. row_text (btype b) (i * length (insert_fields md)) (length (insert_fields md))) [0..<length recs]))"
      "param_values q' = chunk_values md recs"
    using q(3) by (auto simp: chunk_values_def param_values_def)
  from emits_trans [OF pre r(2) [folded sb]] have e: "emits (corm_strbuf_init, []) st' (batch_sql (btype b) md (length recs))"
    by (simp add: batch_sql_def)
  then have "sb_wf (fst st')" "snd st' = []" "corm_strbuf_cstr (fst st') = batch_sql (btype b) md (length recs)"
    by (simp_all add: emits_def ready_def sb_cstr_text)
  then obtain sb1 where s: "st' = (sb1, [])" "corm_strbuf_cstr sb1 = batch_sql (btype b) md (length recs)" by (cases st') simp
  obtain err c' m' where x: "call_exec b c (batch_sql (btype b) md (length recs)) (chunk_values md recs) [] = (err, c', m')"
    by (metis prod_cases3)
  from steady_exec [OF x] call_exec_calls [OF x] x sb q(1) r s show ?thesis by (simp add: insert_chunk_def)
qed

end

text \<open>The records in groups of \<open>bs\<close>, the last one shorter.\<close>

function chunks :: "nat \<Rightarrow> 'a list \<Rightarrow> 'a list list" where
  "chunks bs xs = (if xs = [] \<or> bs = 0 then [] else take bs xs # chunks bs (drop bs xs))"
  by pat_completeness auto
termination
  by (relation "measure (\<lambda>(bs, xs). length xs)") auto

declare chunks.simps [simp del]

lemma chunks_concat: "0 < bs \<Longrightarrow> concat (chunks bs xs) = xs"
  by (induction bs xs rule: chunks.induct) (subst chunks.simps, simp)

lemma chunks_length: "0 < bs \<Longrightarrow> length (chunks bs xs) = (length xs + (bs - 1)) div bs"
proof (induction bs xs rule: chunks.induct)
  case (1 bs xs)
  show ?case
  proof (cases "xs = []")
    case True
    with 1(2) show ?thesis by (subst chunks.simps) (simp add: div_less)
  next
    case False
    then have "length xs + (bs - 1) = (length xs - 1) + bs" using 1(2) by (cases xs) simp_all
    then have d: "(length xs + (bs - 1)) div bs = Suc ((length xs - 1) div bs)"
      using 1(2) div_add_self2 [of bs "length xs - 1"] by (metis Suc_eq_plus1 less_not_refl)
    have "length (chunks bs (drop bs xs)) = (length xs - 1) div bs"
    proof (cases "length xs \<le> bs")
      case True
      with False 1(2) have "chunks bs (drop bs xs) = []" "(length xs - 1) div bs = 0"
        by (simp_all add: chunks.simps [of bs "[]"] div_eq_0_iff)
      then show ?thesis by simp
    next
      case le: False
      then have "length xs - bs + (bs - 1) = length xs - 1" using 1(2) by simp
      with 1 False show ?thesis by simp
    qed
    with d False 1(2) show ?thesis by (subst chunks.simps) simp
  qed
qed

lemma chunks_sub: "ch \<in> set (chunks bs xs) \<Longrightarrow> set ch \<subseteq> set xs"
proof (induction bs xs rule: chunks.induct)
  case (1 bs xs)
  show ?case
  proof (cases "xs = [] \<or> bs = 0")
    case True
    with 1(2) show ?thesis by (subst (asm) chunks.simps) simp
  next
    case False
    with 1(2) have "ch = take bs xs \<or> ch \<in> set (chunks bs (drop bs xs))" by (subst (asm) chunks.simps) auto
    with 1(1) [OF False] show ?thesis by (metis order.trans set_drop_subset set_take_subset)
  qed
qed

text \<open>The loop over the groups: the statements, the codes and the rows counted.\<close>

context steady_backend
begin

lemma create_chunks_full:
  assumes "names_ok md" and "0 < bs" and "\<forall>rec\<in>set recs. readable (insert_fields md) rec"
  shows "\<exists>errs err c' m'. create_chunks b c md (map Some recs) bs tot [] =
      Some (err, tot + int (sum_list (map2 (\<lambda>ch e. if e = CORM_OK then length ch else 0) (chunks bs recs) errs)), c', m') \<and>
    run_codes (chunks bs recs) errs err \<and>
    calls c' = calls c @ map2 (\<lambda>ch e. Ev_Exec (batch_sql (btype b) md (length ch)) (chunk_values md ch) e) (chunks bs recs) errs"
  using assms(2,3)
proof (induction bs recs arbitrary: c tot rule: chunks.induct)
  case (1 bs recs)
  show ?case
  proof (cases "recs = []")
    case True
    then show ?thesis
      by (intro exI [of _ "[]"]) (simp add: create_chunks.simps chunks.simps [of bs "[]"] run_codes_def)
  next
    case False
    let ?h = "take bs recs" and ?t = "drop bs recs"
    have ch: "chunks bs recs = ?h # chunks bs ?t" using False 1(2) by (subst chunks.simps) simp
    have "\<forall>rec\<in>set ?h. readable (insert_fields md) rec" using 1(3) by (meson in_set_takeD)
    from insert_chunk_full [OF assms(1) this, of c] obtain e c1 where
      s: "insert_chunk b c md (map Some ?h) [] = Some (e, c1, [])"
        "calls c1 = calls c @ [Ev_Exec (batch_sql (btype b) md (length ?h)) (chunk_values md ?h) e]" by blast
    have u: "create_chunks b c md (map Some recs) bs tot [] =
        (if e \<noteq> CORM_OK then Some (e, tot, c1, []) else create_chunks b c1 md (map Some ?t) bs (tot + int (length ?h)) [])"
      using s(1) False 1(2) by (subst create_chunks.simps) (simp add: take_map drop_map)
    show ?thesis
    proof (cases "e = CORM_OK")
      case bad: False
      with u s(2) show ?thesis by (intro exI [of _ "[e]"]) (simp add: ch run_codes_def)
    next
      case True
      have "\<forall>rec\<in>set ?t. readable (insert_fields md) rec" using 1(3) by (meson in_set_dropD)
      with 1(1) [of c1 "tot + int (length ?h)"] False 1(2) obtain errs err c' m' where
        r: "create_chunks b c1 md (map Some ?t) bs (tot + int (length ?h)) [] =
            Some (err, tot + int (length ?h) + int (sum_list (map2 (\<lambda>ch e. if e = CORM_OK then length ch else 0) (chunks bs ?t) errs)), c', m')"
          "run_codes (chunks bs ?t) errs err"
          "calls c' = calls c1 @ map2 (\<lambda>ch e. Ev_Exec (batch_sql (btype b) md (length ch)) (chunk_values md ch) e) (chunks bs ?t) errs"
        by blast
      have "run_codes (chunks bs recs) (CORM_OK # errs) err" using r(2) by (auto simp: ch run_codes_def)
      with r(1,3) u s(2) True show ?thesis by (intro exI [of _ "CORM_OK # errs"]) (auto simp: ch)
    qed
  qed
qed

end

text \<open>(C39) \<^verbatim>\<open>corm_create_batch\<close> (memory available) inserts the records in groups of the batch size,
  the count divided by it and rounded up, in order and with nothing else sent: one multi-row INSERT per
  group, whose placeholders are numbered through the rows and whose parameters are the members of the
  records of the group. It stops at the first group that fails and reports the records of the groups
  before it. There is no transaction around the groups, and no hook is called. (Positions in the array are
  taken to fit \<^verbatim>\<open>int\<close>, the end of the last full group included.)\<close>

theorem create_batch_chunks:
  assumes "names_ok md" and "keeps_mem b" and "0 < bs" and "recs \<noteq> []" and "insert_fields md \<noteq> []"
    and "\<forall>rec\<in>set recs. readable (insert_fields md) rec"
  shows "\<exists>errs err c' m'. corm_create_batch (Some (b, c)) (Some md) (Some recs) (int (length recs)) (int bs) [] =
      Some (err, Some (int (sum_list (map2 (\<lambda>ch e. if e = CORM_OK then length ch else 0) (chunks bs recs) errs))), Some c', m') \<and>
    run_codes (chunks bs recs) errs err \<and>
    calls c' = calls c @ map2 (\<lambda>ch e. Ev_Exec (batch_sql (btype b) md (length ch)) (chunk_values md ch) e) (chunks bs recs) errs \<and>
    concat (chunks bs recs) = recs \<and> length (chunks bs recs) = (length recs + (bs - 1)) div bs"
proof -
  from steady_backend.create_chunks_full [OF steady_backend.intro [OF assms(2)] assms(1,3,6), of c 0] obtain errs err c' m' where
    r: "create_chunks b c md (map Some recs) bs 0 [] =
        Some (err, int (sum_list (map2 (\<lambda>ch e. if e = CORM_OK then length ch else 0) (chunks bs recs) errs)), c', m')"
      "run_codes (chunks bs recs) errs err"
      "calls c' = calls c @ map2 (\<lambda>ch e. Ev_Exec (batch_sql (btype b) md (length ch)) (chunk_values md ch) e) (chunks bs recs) errs"
    by auto
  have "corm_create_batch (Some (b, c)) (Some md) (Some recs) (int (length recs)) (int bs) [] =
      Some (err, Some (int (sum_list (map2 (\<lambda>ch e. if e = CORM_OK then length ch else 0) (chunks bs recs) errs))), Some c', m')"
    using r(1) assms(3-5) by (simp add: corm_create_batch_def batch_records_all Let_def)
  with r(2,3) chunks_concat [OF assms(3)] chunks_length [OF assms(3)] show ?thesis by blast
qed

theorem create_batch_chunks_witness:
  "\<exists>(errs :: corm_err_t list) err c' m' n. corm_create_batch (Some (null_backend CORM_BACKEND_SQLITE, fresh_core)) (Some (table_of [id_field, age_field]))
       (Some [sample_rec, sample_rec, sample_rec]) (int (length [sample_rec, sample_rec, sample_rec])) (int 2) [] =
       Some (err, Some n, Some c', m') \<and>
     length (calls c') = length errs \<and> length errs \<le> 2"
proof -
  let ?rs = "[sample_rec, sample_rec, sample_rec]"
  have "\<forall>rec\<in>set ?rs. readable (insert_fields (table_of [id_field, age_field])) rec"
    by (simp add: readable_def sample_insert sample_rec_get)
  from create_batch_chunks [OF table_of_valid(4) null_keeps_mem _ _ _ this, of 2 CORM_BACKEND_SQLITE fresh_core] obtain errs err c' m' where
    r: "corm_create_batch (Some (null_backend CORM_BACKEND_SQLITE, fresh_core)) (Some (table_of [id_field, age_field])) (Some ?rs)
        (int (length ?rs)) (int 2) [] = Some (err, Some (int (sum_list (map2 (\<lambda>ch e. if e = CORM_OK then length ch else 0) (chunks 2 ?rs) errs))), Some c', m')"
      "run_codes (chunks 2 ?rs) errs err" "length (chunks 2 ?rs) = (length ?rs + (2 - 1)) div 2"
      "calls c' = calls fresh_core @ map2 (\<lambda>ch e. Ev_Exec (batch_sql (btype (null_backend CORM_BACKEND_SQLITE)) (table_of [id_field, age_field]) (length ch))
        (chunk_values (table_of [id_field, age_field]) ch) e) (chunks 2 ?rs) errs"
    by (auto simp: sample_insert)
  from r(2,3) have le: "length errs \<le> 2" by (simp add: run_codes_def)
  from this r(3,4) have lc: "length (calls c') = length errs" by (simp add: fresh_core_def)
  from r(1) lc le show ?thesis by blast
qed

end
