(* ===== verification/Migration.thy ===== *)
theory Migration
  imports Sql_Builder Connection
begin

text \<open>
  Schema migration (\<^verbatim>\<open>src/migration.c\<close>): the CREATE TABLE statement of a model, append by
  append, and \<^verbatim>\<open>corm_auto_migrate\<close>, which creates the tables, adds the columns a table is
  missing and creates the indexes. The reference texts say what each statement should be; the theorems
  show that exactly these are sent, in which order, and which errors stop the run.
\<close>

section \<open>The statements\<close>

definition type_text :: "corm_backend_type_t \<Rightarrow> corm_field_t \<Rightarrow> string" where
  "type_text bt f = corm_dialect_type_name_str bt (ftype f) (fsize f) 64"

text \<open>\<^verbatim>\<open>NOT NULL\<close>, \<^verbatim>\<open>UNIQUE\<close> and \<^verbatim>\<open>DEFAULT\<close>, as both kinds of statement write them.\<close>

definition app_constraints :: "corm_field_t \<Rightarrow> bstate \<Rightarrow> bstate" where
  "app_constraints f st =
     (let st = (if has_flag f CORM_FLAG_NOT_NULL then app '' NOT NULL'' st else st);
          st = (if has_flag f CORM_FLAG_UNIQUE then app '' UNIQUE'' st else st)
      in case default_value f of
           Some (c # cs) \<Rightarrow> appf ('' DEFAULT '' @ c # cs) st
         | _ \<Rightarrow> st)"

definition app_reference :: "corm_field_t \<Rightarrow> bstate \<Rightarrow> bstate" where
  "app_reference f st =
     (case fk_ref f of
        None \<Rightarrow> st
      | Some r \<Rightarrow>
          let st = app '' REFERENCES '' st in
          (case strchr_split CHR ''.'' r of
             Some (tbl, col) \<Rightarrow>
               let st = appn r (length tbl) st; st = app ''('' st; st = app col st in app '')'' st
           | None \<Rightarrow> let st = app r st in app ''(id)'' st))"

definition app_column :: "corm_backend_type_t \<Rightarrow> nat \<Rightarrow> corm_field_t \<Rightarrow> bstate \<Rightarrow> bstate" where
  "app_column bt pk_count f st =
     (let st = qident bt (field_name f) st in
      if has_flag f CORM_FLAG_AUTOINC \<and> bt \<noteq> CORM_BACKEND_MYSQL then appf ('' '' @ corm_dialect_autoinc bt) st
      else
        let st = (if has_flag f CORM_FLAG_AUTOINC then appf ('' '' @ type_text bt f @ '' AUTO_INCREMENT'') st
                  else appf ('' '' @ type_text bt f) st);
            st = app_constraints f st;
            st = (if has_flag f CORM_FLAG_PRIMARY \<and> pk_count = 1 then app '' PRIMARY KEY'' st else st)
        in app_reference f st)"

fun app_columns :: "corm_backend_type_t \<Rightarrow> nat \<Rightarrow> corm_field_t list \<Rightarrow> nat \<Rightarrow> bstate \<Rightarrow> bstate" where
  "app_columns bt pk_count [] i st = st"
| "app_columns bt pk_count (f # fs) i st =
     (let st = (if i > 0 then app '', '' st else st)
      in app_columns bt pk_count fs (i + 1) (app_column bt pk_count f st))"

fun app_keys :: "corm_backend_type_t \<Rightarrow> corm_field_t list \<Rightarrow> nat \<Rightarrow> bstate \<Rightarrow> bstate" where
  "app_keys bt [] added st = st"
| "app_keys bt (f # fs) added st =
     (if has_flag f CORM_FLAG_PRIMARY then
        let st = (if added > 0 then app '', '' st else st)
        in app_keys bt fs (added + 1) (qident bt (field_name f) st)
      else app_keys bt fs added st)"

definition count_primary :: "corm_field_t list \<Rightarrow> nat" where
  "count_primary fs = foldl (\<lambda>n f. if has_flag f CORM_FLAG_PRIMARY then n + 1 else n) 0 fs"

definition create_table_sql :: "corm_backend_type_t \<Rightarrow> ('h, 'z) corm_model_t_scheme \<Rightarrow> bstate \<Rightarrow> bstate" where
  "create_table_sql bt md st =
     (let st = appf (''CREATE TABLE '' @ corm_dialect_if_not_exists bt @ '' '') st;
          st = qident bt (model_table md) st;
          st = app '' ('' st;
          pk_count = count_primary (model_fields md);
          st = app_columns bt pk_count (model_fields md) 0 st;
          st = (if pk_count > 1 then
                  let st = app '', PRIMARY KEY ('' st; st = app_keys bt (model_fields md) 0 st in app '')'' st
                else st)
      in app '')'' st)"

definition create_table ::
  "('c, 's, 'm) corm_t \<Rightarrow> corm_backend_type_t \<Rightarrow> ('h, 'z) corm_model_t_scheme \<Rightarrow> mem \<Rightarrow>
     corm_err_t \<times> ('c, 's, 'm) corm_t option \<times> mem" where
  "create_table db bt md m =
     (case create_table_sql bt md (corm_strbuf_init, m) of
        (sb, m1) \<Rightarrow> corm_exec (Some db) (corm_strbuf_cstr sb) m1)"

definition alter_sql :: "corm_backend_type_t \<Rightarrow> ('h, 'z) corm_model_t_scheme \<Rightarrow> corm_field_t \<Rightarrow> bstate \<Rightarrow> bstate" where
  "alter_sql bt md f st =
     (let lq = corm_dialect_quote bt (model_table md);
          st = appf (''ALTER TABLE '' @ lq @ model_table md @ lq @ '' ADD COLUMN '' @ lq @ field_name f @ lq @ '' '' @ type_text bt f) st;
          st = app_constraints f st
      in app '';'' st)"

definition index_sql :: "corm_backend_type_t \<Rightarrow> ('h, 'z) corm_model_t_scheme \<Rightarrow> corm_field_t \<Rightarrow> bstate \<Rightarrow> bstate" where
  "index_sql bt md f st =
     (let tq = corm_dialect_quote bt (model_table md); fq = corm_dialect_quote bt (field_name f) in
      appf (''CREATE INDEX IF NOT EXISTS '' @ tq @ ''idx_'' @ model_table md @ ''_'' @ field_name f @ tq @ '' ON '' @
        tq @ model_table md @ tq @ ''('' @ fq @ field_name f @ fq @ '')'') st)"

section \<open>The migration\<close>

text \<open>\<^verbatim>\<open>describe_table\<close> through the table of the connection; \<open>CORM_ERR_GENERIC\<close> when the backend
  has none.\<close>

definition describe ::
  "('c, 's, 'm) corm_t \<Rightarrow> ('c, 's) corm_backend_t \<Rightarrow> string \<Rightarrow> mem \<Rightarrow>
     (corm_err_t \<times> corm_column_info_t list option) \<times> ('c, 's, 'm) corm_t \<times> mem" where
  "describe db b tbl m =
     (case b_describe_table b of
        None \<Rightarrow> ((CORM_ERR_GENERIC, None), db, m)
      | Some d \<Rightarrow>
          (case d (core db) tbl m of
             ((err, cols), c, m') \<Rightarrow> ((err, cols), db\<lparr>core := logged (core db) (Ev_Describe tbl err) c\<rparr>, m')))"

text \<open>The search of a column by name; a column without a name is compared as NULL, which is outside
  the model.\<close>

fun has_column :: "corm_column_info_t list \<Rightarrow> string \<Rightarrow> bool option" where
  "has_column [] n = Some False"
| "has_column (c # cs) n = (case cname c of None \<Rightarrow> None | Some s \<Rightarrow> if s = n then Some True else has_column cs n)"

definition column_known :: "corm_err_t \<Rightarrow> corm_column_info_t list option \<Rightarrow> string \<Rightarrow> bool option" where
  "column_known desc_err existing n =
     (case existing of
        Some cols \<Rightarrow> if desc_err = CORM_OK then has_column cols n else Some False
      | None \<Rightarrow> Some False)"

text \<open>Executing a statement whose result is ignored.\<close>

definition exec_ignored :: "('c, 's, 'm) corm_t \<Rightarrow> bstate \<Rightarrow> ('c, 's, 'm) corm_t \<times> mem" where
  "exec_ignored db st =
     (case corm_exec (Some db) (corm_strbuf_cstr (fst st)) (snd st) of
        (err, dbp, m) \<Rightarrow> (case dbp of Some db' \<Rightarrow> db' | None \<Rightarrow> db, m))"

fun add_columns ::
  "corm_backend_type_t \<Rightarrow> ('h, 'z) corm_model_t_scheme \<Rightarrow> corm_err_t \<Rightarrow> corm_column_info_t list option \<Rightarrow> corm_field_t list \<Rightarrow>
     ('c, 's, 'm) corm_t \<Rightarrow> mem \<Rightarrow> (('c, 's, 'm) corm_t \<times> mem) option" where
  "add_columns bt md desc_err existing [] db m = Some (db, m)"
| "add_columns bt md desc_err existing (f # fs) db m =
     (if has_flag f CORM_FLAG_PRIMARY then add_columns bt md desc_err existing fs db m
      else (case column_known desc_err existing (field_name f) of
              None \<Rightarrow> None
            | Some True \<Rightarrow> add_columns bt md desc_err existing fs db m
            | Some False \<Rightarrow>
                (case exec_ignored db (alter_sql bt md f (corm_strbuf_init, m)) of
                   (db', m') \<Rightarrow> add_columns bt md desc_err existing fs db' m')))"

fun add_indexes ::
  "corm_backend_type_t \<Rightarrow> ('h, 'z) corm_model_t_scheme \<Rightarrow> corm_field_t list \<Rightarrow> ('c, 's, 'm) corm_t \<Rightarrow> mem \<Rightarrow> ('c, 's, 'm) corm_t \<times> mem" where
  "add_indexes bt md [] db m = (db, m)"
| "add_indexes bt md (f # fs) db m =
     (if \<not> has_flag f CORM_FLAG_INDEX then add_indexes bt md fs db m
      else (case exec_ignored db (index_sql bt md f (corm_strbuf_init, m)) of
              (db', m') \<Rightarrow> add_indexes bt md fs db' m'))"

text \<open>One model, and the loop over the models; releasing the column descriptions changes no state.\<close>

definition migrate_model ::
  "('c, 's) corm_backend_t \<Rightarrow> ('c, 's, 'm) corm_t \<Rightarrow> ('h, 'z) corm_model_t_scheme \<Rightarrow> mem \<Rightarrow>
     (corm_err_t \<times> ('c, 's, 'm) corm_t \<times> mem) option" where
  "migrate_model b db md m =
     (case create_table db (btype b) md m of
        (ct_err, dbp, m1) \<Rightarrow>
          let db1 = (case dbp of Some x \<Rightarrow> x | None \<Rightarrow> db) in
          if ct_err \<noteq> CORM_OK then Some (ct_err, db1, m1)
          else (case describe db1 b (model_table md) m1 of
                  ((desc_err, existing), db2, m2) \<Rightarrow>
                    (case add_columns (btype b) md desc_err existing (model_fields md) db2 m2 of
                       None \<Rightarrow> None
                     | Some (db3, m3) \<Rightarrow>
                         (case add_indexes (btype b) md (model_fields md) db3 m3 of
                            (db4, m4) \<Rightarrow> Some (CORM_OK, db4, m4)))))"

fun migrate_models ::
  "('c, 's) corm_backend_t \<Rightarrow> ('c, 's, 'm) corm_t \<Rightarrow> ('h, 'z) corm_model_t_scheme list \<Rightarrow> mem \<Rightarrow>
     (corm_err_t \<times> ('c, 's, 'm) corm_t \<times> mem) option" where
  "migrate_models b db [] m = Some (CORM_OK, db, m)"
| "migrate_models b db (md # mds) m =
     (case migrate_model b db md m of
        None \<Rightarrow> None
      | Some (err, db1, m1) \<Rightarrow> if err \<noteq> CORM_OK then Some (err, db1, m1) else migrate_models b db1 mds m1)"

text \<open>\<open>None\<close> also for a connection without a backend, which the code dereferences.\<close>

definition corm_auto_migrate ::
  "('c, 's, 'm) corm_t option \<Rightarrow> ('h, 'z) corm_model_t_scheme list option \<Rightarrow> int \<Rightarrow> mem \<Rightarrow>
     (corm_err_t \<times> ('c, 's, 'm) corm_t option \<times> mem) option" where
  "corm_auto_migrate dbp models model_count m =
     (case (dbp, models) of
        (Some db, Some mds) \<Rightarrow>
          (case backend db of
             None \<Rightarrow> None
           | Some b \<Rightarrow>
               if model_count > int (length mds) then None
               else map_option (\<lambda>(err, db', m'). (err, Some db', m')) (migrate_models b db (take (nat model_count) mds) m))
      | _ \<Rightarrow> Some (CORM_ERR_NULL, dbp, m))"

section \<open>Reference texts\<close>

definition constraints_text :: "corm_field_t \<Rightarrow> string" where
  "constraints_text f =
     (if has_flag f CORM_FLAG_NOT_NULL then '' NOT NULL'' else []) @ (if has_flag f CORM_FLAG_UNIQUE then '' UNIQUE'' else []) @
     (case default_value f of Some (c # cs) \<Rightarrow> '' DEFAULT '' @ c # cs | _ \<Rightarrow> [])"

definition reference_text :: "corm_field_t \<Rightarrow> string" where
  "reference_text f =
     (case fk_ref f of
        None \<Rightarrow> []
      | Some r \<Rightarrow> '' REFERENCES '' @
          (case strchr_split CHR ''.'' r of Some (tbl, col) \<Rightarrow> tbl @ ''('' @ col @ '')'' | None \<Rightarrow> r @ ''(id)''))"

definition column_text :: "corm_backend_type_t \<Rightarrow> nat \<Rightarrow> corm_field_t \<Rightarrow> string" where
  "column_text bt pk_count f = quoted bt (field_name f) @ '' '' @
     (if has_flag f CORM_FLAG_AUTOINC \<and> bt \<noteq> CORM_BACKEND_MYSQL then corm_dialect_autoinc bt
      else type_text bt f @ (if has_flag f CORM_FLAG_AUTOINC then '' AUTO_INCREMENT'' else []) @ constraints_text f @
        (if has_flag f CORM_FLAG_PRIMARY \<and> pk_count = 1 then '' PRIMARY KEY'' else []) @ reference_text f)"

definition primary_fields :: "('h, 'z) corm_model_t_scheme \<Rightarrow> corm_field_t list" where
  "primary_fields md = filter (\<lambda>f. has_flag f CORM_FLAG_PRIMARY) (model_fields md)"

definition table_text :: "corm_backend_type_t \<Rightarrow> ('h, 'z) corm_model_t_scheme \<Rightarrow> string" where
  "table_text bt md = ''CREATE TABLE IF NOT EXISTS '' @ quoted bt (model_table md) @ '' ('' @
     join_with '', '' (map (column_text bt (length (primary_fields md))) (model_fields md)) @
     (if length (primary_fields md) > 1 then
        '', PRIMARY KEY ('' @ join_with '', '' (map (\<lambda>f. quoted bt (field_name f)) (primary_fields md)) @ '')''
      else []) @ '')''"

definition alter_text :: "corm_backend_type_t \<Rightarrow> ('h, 'z) corm_model_t_scheme \<Rightarrow> corm_field_t \<Rightarrow> string" where
  "alter_text bt md f = ''ALTER TABLE '' @ quoted bt (model_table md) @ '' ADD COLUMN '' @ quoted bt (field_name f) @ '' '' @
     type_text bt f @ constraints_text f @ '';''"

definition index_text :: "corm_backend_type_t \<Rightarrow> ('h, 'z) corm_model_t_scheme \<Rightarrow> corm_field_t \<Rightarrow> string" where
  "index_text bt md f = ''CREATE INDEX IF NOT EXISTS '' @ quoted bt (''idx_'' @ model_table md @ ''_'' @ field_name f) @ '' ON '' @
     quoted bt (model_table md) @ ''('' @ quoted bt (field_name f) @ '')''"

text \<open>All strings of the model are C strings.\<close>

definition strings_ok :: "('h, 'z) corm_model_t_scheme \<Rightarrow> bool" where
  "strings_ok md \<longleftrightarrow> cstring (model_table md) \<and>
     (\<forall>f\<in>set (model_fields md). cstring (field_name f) \<and>
        (case default_value f of Some s \<Rightarrow> cstring s | None \<Rightarrow> True) \<and> (case fk_ref f of Some s \<Rightarrow> cstring s | None \<Rightarrow> True))"

section \<open>The builder writes the reference texts\<close>

definition field_ok :: "corm_field_t \<Rightarrow> bool" where
  "field_ok f \<longleftrightarrow> cstring (field_name f) \<and> (case default_value f of Some s \<Rightarrow> cstring s | None \<Rightarrow> True) \<and>
     (case fk_ref f of Some s \<Rightarrow> cstring s | None \<Rightarrow> True)"

lemma strings_ok_alt: "strings_ok md \<longleftrightarrow> cstring (model_table md) \<and> (\<forall>f\<in>set (model_fields md). field_ok f)"
  by (simp add: strings_ok_def field_ok_def)

lemma emits_refl: "ready st \<Longrightarrow> emits st st []"
  by (simp add: emits_def)

lemma emits_appf: "ready st \<Longrightarrow> cstring s \<Longrightarrow> emits st (appf s st) s"
  by (simp add: emits_def)

lemma cstring_type_text [simp]: "cstring (type_text bt f)"
  by (simp add: type_text_def)

lemma cstring_autoinc [simp]: "cstring (corm_dialect_autoinc bt)"
  by (cases bt) (simp_all add: corm_dialect_autoinc_def)

lemma emits_constraints: "ready st \<Longrightarrow> field_ok f \<Longrightarrow> emits st (app_constraints f st) (constraints_text f)"
  by (auto simp: app_constraints_def constraints_text_def field_ok_def Let_def emits_def split: option.splits list.splits)

lemma emits_reference:
  assumes "ready st" and "field_ok f"
  shows "emits st (app_reference f st) (reference_text f)"
proof (cases "fk_ref f")
  case (Some r)
  with assms(2) have r: "cstring r" by (simp add: field_ok_def)
  show ?thesis
  proof (cases "strchr_split CHR ''.'' r")
    case (Some x)
    obtain tbl col where x: "x = (tbl, col)" by (cases x)
    with Some strchr_split_Some(1) [of "CHR ''.''" r tbl col] have eq: "r = tbl @ CHR ''.'' # col" by simp
    with r have "cstring tbl" "cstring col" by simp_all
    with Some x eq r \<open>fk_ref f = Some r\<close> assms(1) show ?thesis
      by (simp add: app_reference_def reference_text_def Let_def emits_def)
  next
    case None
    with r \<open>fk_ref f = Some r\<close> assms(1) show ?thesis by (simp add: app_reference_def reference_text_def Let_def emits_def)
  qed
qed (use assms in \<open>simp add: app_reference_def reference_text_def emits_refl\<close>)

lemma emits_column:
  assumes "ready st" and "field_ok f"
  shows "emits st (app_column bt k f st) (column_text bt k f)"
proof -
  have q: "emits st (qident bt (field_name f) st) (quoted bt (field_name f))"
    using assms by (intro emits_qident) (simp_all add: field_ok_def)
  show ?thesis
  proof (cases "has_flag f CORM_FLAG_AUTOINC \<and> bt \<noteq> CORM_BACKEND_MYSQL")
    case True
    from emits_trans [OF q emits_appf [OF emits_ready [OF q], of "'' '' @ corm_dialect_autoinc bt"]] True show ?thesis
      by (simp add: app_column_def column_text_def)
  next
    case False
    define a where "a = (if has_flag f CORM_FLAG_AUTOINC then appf ('' '' @ type_text bt f @ '' AUTO_INCREMENT'') (qident bt (field_name f) st)
      else appf ('' '' @ type_text bt f) (qident bt (field_name f) st))"
    have 1: "emits (qident bt (field_name f) st) a
        ('' '' @ type_text bt f @ (if has_flag f CORM_FLAG_AUTOINC then '' AUTO_INCREMENT'' else []))"
      using emits_ready [OF q] by (simp add: a_def emits_def)
    note 2 = emits_constraints [OF emits_ready [OF 1] assms(2)]
    define c where "c = (if has_flag f CORM_FLAG_PRIMARY \<and> k = 1 then app '' PRIMARY KEY'' (app_constraints f a) else app_constraints f a)"
    have 3: "emits (app_constraints f a) c (if has_flag f CORM_FLAG_PRIMARY \<and> k = 1 then '' PRIMARY KEY'' else [])"
      using emits_ready [OF 2] by (simp add: c_def emits_def)
    note 4 = emits_reference [OF emits_ready [OF 3] assms(2)]
    have "app_column bt k f st = app_reference f c"
      unfolding app_column_def Let_def c_def a_def if_not_P [OF False] by (rule refl)
    with emits_trans [OF q emits_trans [OF 1 emits_trans [OF 2 emits_trans [OF 3 4]]]] show ?thesis
      unfolding column_text_def if_not_P [OF False] by simp
  qed
qed

lemma emits_columns:
  assumes "ready st" and "\<forall>f\<in>set fs. field_ok f"
  shows "emits st (app_columns bt k fs i st) (listed i (map (column_text bt k) fs))"
  using assms
proof (induction fs arbitrary: i st)
  case (Cons f fs)
  have 1: "emits st (if i > 0 then app '', '' st else st) (if i > 0 then '', '' else [])"
    using Cons.prems(1) by (simp add: emits_def)
  note 2 = emits_column [OF emits_ready [OF 1], of f bt k]
  from Cons.prems(2) have f: "field_ok f" by simp
  from emits_trans [OF 1 emits_trans [OF 2 [OF f] Cons.IH [OF emits_ready [OF 2 [OF f]]]]] Cons.prems(2) show ?case
    by (simp add: listed_Cons Let_def)
qed (simp add: emits_refl)

lemma emits_keys:
  assumes "ready st" and "\<forall>f\<in>set fs. field_ok f"
  shows "emits st (app_keys bt fs n st) (listed n (map (\<lambda>f. quoted bt (field_name f)) (filter (\<lambda>f. has_flag f CORM_FLAG_PRIMARY) fs)))"
  using assms
proof (induction fs arbitrary: n st)
  case (Cons f fs)
  show ?case
  proof (cases "has_flag f CORM_FLAG_PRIMARY")
    case True
    have 1: "emits st (qident bt (field_name f) (if n > 0 then app '', '' st else st))
        ((if n > 0 then '', '' else []) @ quoted bt (field_name f))"
      using Cons.prems by (simp add: emits_def field_ok_def)
    from emits_trans [OF 1 Cons.IH [OF emits_ready [OF 1]]] Cons.prems(2) True show ?thesis by (simp add: listed_Cons Let_def)
  qed (use Cons in simp)
qed (simp add: emits_refl)

lemma count_primary_eq: "count_primary (model_fields md) = length (primary_fields md)"
proof -
  have "foldl (\<lambda>n f. if has_flag f CORM_FLAG_PRIMARY then n + 1 else n) n fs = n + length (filter (\<lambda>f. has_flag f CORM_FLAG_PRIMARY) fs)"
    for n :: nat and fs by (induction fs arbitrary: n) auto
  then show ?thesis by (simp add: count_primary_def primary_fields_def)
qed

lemma emits_table:
  assumes "strings_ok md" and "ready st"
  shows "emits st (create_table_sql bt md st) (table_text bt md)"
proof -
  have ok: "cstring (model_table md)" "\<forall>f\<in>set (model_fields md). field_ok f" using assms(1) by (simp_all add: strings_ok_alt)
  define k where "k = length (primary_fields md)"
  define a where "a = app '' ('' (qident bt (model_table md) (appf (''CREATE TABLE '' @ corm_dialect_if_not_exists bt @ '' '') st))"
  have 1: "emits st a (''CREATE TABLE IF NOT EXISTS '' @ quoted bt (model_table md) @ '' ('')"
    using assms(2) ok(1) by (simp add: a_def emits_def corm_dialect_if_not_exists_def)
  define c where "c = app_columns bt k (model_fields md) 0 a"
  have 2: "emits a c (join_with '', '' (map (column_text bt k) (model_fields md)))"
    using emits_columns [OF emits_ready [OF 1] ok(2), of bt k 0] by (simp add: c_def)
  define d where "d = (if k > 1 then app '')'' (app_keys bt (model_fields md) 0 (app '', PRIMARY KEY ('' c)) else c)"
  have p: "emits c (app '', PRIMARY KEY ('' c) '', PRIMARY KEY (''" by (rule emits_app [OF emits_ready [OF 2]]) simp
  note keys = emits_keys [OF emits_ready [OF p] ok(2), of bt 0]
  have e: "emits (app_keys bt (model_fields md) 0 (app '', PRIMARY KEY ('' c)) (app '')'' (app_keys bt (model_fields md) 0 (app '', PRIMARY KEY ('' c))) '')''"
    by (rule emits_app [OF emits_ready [OF keys]]) simp
  have 3: "emits c d (if k > 1 then '', PRIMARY KEY ('' @ join_with '', '' (map (\<lambda>f. quoted bt (field_name f)) (primary_fields md)) @ '')'' else [])"
    using emits_trans [OF p emits_trans [OF keys e]] emits_refl [OF emits_ready [OF 2]] by (simp add: d_def primary_fields_def)
  have 4: "emits d (app '')'' d) '')''" by (rule emits_app [OF emits_ready [OF 3]]) simp
  have "create_table_sql bt md st = app '')'' d"
    unfolding create_table_sql_def Let_def count_primary_eq d_def c_def a_def k_def by (rule refl)
  with emits_trans [OF 1 emits_trans [OF 2 emits_trans [OF 3 4]]] show ?thesis by (simp add: table_text_def k_def)
qed

lemma emits_alter:
  assumes "strings_ok md" and "f \<in> set (model_fields md)" and "ready st"
  shows "emits st (alter_sql bt md f st) (alter_text bt md f)"
proof -
  have ok: "cstring (model_table md)" "field_ok f" "cstring (field_name f)" using assms(1,2) by (auto simp: strings_ok_alt field_ok_def)
  let ?s = "''ALTER TABLE '' @ quoted bt (model_table md) @ '' ADD COLUMN '' @ quoted bt (field_name f) @ '' '' @ type_text bt f"
  have 1: "emits st (appf ?s st) ?s" using ok by (intro emits_appf [OF assms(3)]) simp
  note 2 = emits_constraints [OF emits_ready [OF 1] ok(2)]
  have 3: "emits (app_constraints f (appf ?s st)) (app '';'' (app_constraints f (appf ?s st))) '';''"
    by (rule emits_app [OF emits_ready [OF 2]]) simp
  have "alter_sql bt md f st = app '';'' (app_constraints f (appf ?s st))" by (simp add: alter_sql_def Let_def quoted_def)
  with emits_trans [OF 1 emits_trans [OF 2 3]] show ?thesis by (simp add: alter_text_def)
qed

lemma emits_index:
  assumes "strings_ok md" and "f \<in> set (model_fields md)" and "ready st"
  shows "emits st (index_sql bt md f st) (index_text bt md f)"
  using assms emits_appf [OF assms(3), of "index_text bt md f"]
  by (simp add: index_sql_def index_text_def Let_def quoted_def strings_ok_alt field_ok_def)

section \<open>What a migration sends\<close>

definition missing_fields ::
  "corm_err_t \<Rightarrow> corm_column_info_t list option \<Rightarrow> corm_field_t list \<Rightarrow> corm_field_t list" where
  "missing_fields desc_err existing fs =
     filter (\<lambda>f. \<not> has_flag f CORM_FLAG_PRIMARY \<and>
       \<not> (desc_err = CORM_OK \<and> Some (field_name f) \<in> cname ` set (case existing of Some cs \<Rightarrow> cs | None \<Rightarrow> []))) fs"

definition indexed_fields :: "corm_field_t list \<Rightarrow> corm_field_t list" where
  "indexed_fields fs = filter (\<lambda>f. has_flag f CORM_FLAG_INDEX) fs"

definition named :: "corm_column_info_t list option \<Rightarrow> bool" where
  "named existing \<longleftrightarrow> None \<notin> cname ` set (case existing of Some cs \<Rightarrow> cs | None \<Rightarrow> [])"

lemma has_column_named: "None \<notin> cname ` set cs \<Longrightarrow> has_column cs n = Some (Some n \<in> cname ` set cs)"
proof (induction cs)
  case (Cons c cs)
  then obtain s where "cname c = Some s" by (cases "cname c") auto
  with Cons show ?case by auto
qed simp

lemma column_known_named:
  "named existing \<Longrightarrow> column_known e existing n =
     Some (e = CORM_OK \<and> Some n \<in> cname ` set (case existing of Some cs \<Rightarrow> cs | None \<Rightarrow> []))"
  by (cases existing) (simp_all add: column_known_def named_def has_column_named)

text \<open>What the migration needs of a backend: while the connection is in the states \<open>I\<close>, executing a
  statement of \<open>S\<close> keeps it there, and so does a description of a table \<open>t\<close> of \<open>T\<close>, which answers
  with a code and columns in the relation \<open>R t\<close>.\<close>

locale migrated_backend = steady_backend b
  for b :: "('c, 's) corm_backend_t" +
  fixes I :: "('c, 's) conn_core \<Rightarrow> bool" and S T :: "string set"
    and R :: "string \<Rightarrow> corm_err_t \<Rightarrow> corm_column_info_t list option \<Rightarrow> bool"
  assumes exec_keeps: "I c \<Longrightarrow> sql \<in> S \<Longrightarrow> call_exec b c sql [] [] = (err, c', m') \<Longrightarrow> I c'"
    and describes: "\<exists>d. b_describe_table b = Some d \<and> (\<forall>c. \<forall>t\<in>T. I c \<longrightarrow>
      (\<exists>e cs c'. d c t [] = ((e, cs), c', []) \<and> R t e cs \<and> named cs \<and> I (logged c (Ev_Describe t e) c')))"

text \<open>The statements and the table of a model are among these.\<close>

definition within :: "string set \<Rightarrow> string set \<Rightarrow> corm_backend_type_t \<Rightarrow> ('h, 'z) corm_model_t_scheme \<Rightarrow> bool" where
  "within S T bt md \<longleftrightarrow> model_table md \<in> T \<and> table_text bt md \<in> S \<and>
     (\<forall>f\<in>set (model_fields md). alter_text bt md f \<in> S \<and> index_text bt md f \<in> S)"

lemma within_UNIV [simp]: "within UNIV UNIV bt md"
  by (simp add: within_def)

definition attached :: "('c, 's) corm_backend_t \<Rightarrow> (('c, 's) conn_core \<Rightarrow> bool) \<Rightarrow> ('c, 's, 'm) corm_t \<Rightarrow> bool" where
  "attached b I db \<longleftrightarrow> backend db = Some b \<and> I (core db)"

context migrated_backend
begin

lemma exec_text:
  assumes "attached b I db" and "emits (corm_strbuf_init, []) st s" and "s \<in> S"
  shows "\<exists>err db'. corm_exec (Some db) (corm_strbuf_cstr (fst st)) (snd st) = (err, Some db', []) \<and> attached b I db' \<and>
    calls (core db') = calls (core db) @ [Ev_Exec s [] err]"
proof -
  from assms(2) have st: "corm_strbuf_cstr (fst st) = s" "snd st = []" by (simp_all add: emits_def ready_def sb_cstr_text)
  obtain err c m' where c: "call_exec b (core db) s [] [] = (err, c, m')" by (metis prod_cases3)
  from assms(1) have b: "backend db = Some b" "I (core db)" by (simp_all add: attached_def)
  have "core (after_call s err (db\<lparr>core := c\<rparr>)) = c" "backend (after_call s err (db\<lparr>core := c\<rparr>)) = Some b"
    using b(1) by (simp_all add: after_call_def Let_def corm_set_err_sql_def)
  moreover have "corm_exec (Some db) s [] = (err, Some (after_call s err (db\<lparr>core := c\<rparr>)), [])"
    using b(1) c steady_exec [OF c] by (simp add: corm_exec_def with_backend_def on_core_def)
  ultimately show ?thesis using st exec_keeps [OF b(2) assms(3) c] call_exec_calls [OF c] by (simp add: attached_def)
qed

lemma exec_ignored_full:
  assumes "attached b I db" and "emits (corm_strbuf_init, []) st s" and "s \<in> S"
  shows "\<exists>err db'. exec_ignored db st = (db', []) \<and> attached b I db' \<and> calls (core db') = calls (core db) @ [Ev_Exec s [] err]"
  using exec_text [OF assms] by (auto simp: exec_ignored_def)

end

text \<open>The two loops that ignore results: one statement per selected field, in order.\<close>

definition sent :: "(corm_field_t \<Rightarrow> string) \<Rightarrow> corm_field_t list \<Rightarrow> corm_err_t list \<Rightarrow> backend_call list" where
  "sent txt fs errs = map2 (\<lambda>f e. Ev_Exec (txt f) [] e) fs errs"

lemma sent_simps [simp]: "sent g [] es = []" "sent g (f # fs) (e # es) = Ev_Exec (g f) [] e # sent g fs es"
  by (simp_all add: sent_def)

context migrated_backend
begin

lemma add_columns_full:
  assumes "strings_ok md" and "named existing" and "attached b I db" and "set fs \<subseteq> set (model_fields md)" and "within S T bt md"
  shows "\<exists>errs db'. add_columns bt md e existing fs db [] = Some (db', []) \<and> attached b I db' \<and>
    length errs = length (missing_fields e existing fs) \<and>
    calls (core db') = calls (core db) @ sent (alter_text bt md) (missing_fields e existing fs) errs"
  using assms(3,4)
proof (induction fs arbitrary: db)
  case Nil
  then show ?case by (simp add: missing_fields_def)
next
  case (Cons f fs)
  show ?case
  proof (cases "f \<in> set (missing_fields e existing [f])")
    case False
    with Cons.IH [OF Cons.prems(1)] Cons.prems(2) column_known_named [OF assms(2), of e "field_name f"] show ?thesis
      by (auto simp: missing_fields_def split: if_splits)
  next
    case True
    from Cons.prems(2) have f: "f \<in> set (model_fields md)" by simp
    note em = emits_alter [OF assms(1) f ready_init, of bt]
    from f assms(5) have "alter_text bt md f \<in> S" by (simp add: within_def)
    from exec_ignored_full [OF Cons.prems(1) em this] obtain err db1 where
      x: "exec_ignored db (alter_sql bt md f (corm_strbuf_init, [])) = (db1, [])" "attached b I db1"
        "calls (core db1) = calls (core db) @ [Ev_Exec (alter_text bt md f) [] err]" by blast
    from Cons.IH [OF x(2)] Cons.prems(2) obtain errs db' where
      i: "add_columns bt md e existing fs db1 [] = Some (db', [])" "attached b I db'"
        "length errs = length (missing_fields e existing fs)"
        "calls (core db') = calls (core db1) @ sent (alter_text bt md) (missing_fields e existing fs) errs" by auto
    have m: "missing_fields e existing (f # fs) = f # missing_fields e existing fs" using True by (auto simp: missing_fields_def split: if_splits)
    have "add_columns bt md e existing (f # fs) db [] = Some (db', [])"
      using True x(1) i(1) column_known_named [OF assms(2), of e "field_name f"] by (auto simp: missing_fields_def split: if_splits)
    with i(2-4) x(3) m show ?thesis by (intro exI [of _ "err # errs"]) simp
  qed
qed

lemma add_indexes_full:
  assumes "strings_ok md" and "attached b I db" and "set fs \<subseteq> set (model_fields md)" and "within S T bt md"
  shows "\<exists>errs db'. add_indexes bt md fs db [] = (db', []) \<and> attached b I db' \<and>
    length errs = length (indexed_fields fs) \<and> calls (core db') = calls (core db) @ sent (index_text bt md) (indexed_fields fs) errs"
  using assms(2,3)
proof (induction fs arbitrary: db)
  case Nil
  then show ?case by (simp add: indexed_fields_def)
next
  case (Cons f fs)
  show ?case
  proof (cases "has_flag f CORM_FLAG_INDEX")
    case False
    with Cons.IH [OF Cons.prems(1)] Cons.prems(2) show ?thesis by (auto simp: indexed_fields_def)
  next
    case True
    from Cons.prems(2) have f: "f \<in> set (model_fields md)" by simp
    note em = emits_index [OF assms(1) f ready_init, of bt]
    from f assms(4) have "index_text bt md f \<in> S" by (simp add: within_def)
    from exec_ignored_full [OF Cons.prems(1) em this] obtain err db1 where
      x: "exec_ignored db (index_sql bt md f (corm_strbuf_init, [])) = (db1, [])" "attached b I db1"
        "calls (core db1) = calls (core db) @ [Ev_Exec (index_text bt md f) [] err]" by blast
    from Cons.IH [OF x(2)] Cons.prems(2) obtain errs db' where
      "add_indexes bt md fs db1 [] = (db', [])" "attached b I db'" "length errs = length (indexed_fields fs)"
        "calls (core db') = calls (core db1) @ sent (index_text bt md) (indexed_fields fs) errs" by auto
    with x True show ?thesis by (intro exI [of _ "err # errs"]) (simp add: indexed_fields_def)
  qed
qed

end

text \<open>The calls a migration of some models makes when the database describes a table \<open>t\<close> with the code
  \<open>derr t\<close> and the columns \<open>cols t\<close>.\<close>

fun migrates ::
  "corm_backend_type_t \<Rightarrow> (string \<Rightarrow> corm_err_t) \<Rightarrow> (string \<Rightarrow> corm_column_info_t list option) \<Rightarrow>
     ('h, 'z) corm_model_t_scheme list \<Rightarrow> corm_err_t \<Rightarrow> backend_call list \<Rightarrow> bool" where
  "migrates bt derr cols [] err evs \<longleftrightarrow> err = CORM_OK \<and> evs = []"
| "migrates bt derr cols (md # mds) err evs \<longleftrightarrow>
     (err \<noteq> CORM_OK \<and> evs = [Ev_Exec (table_text bt md) [] err]) \<or>
     (\<exists>es1 es2 rest. evs = Ev_Exec (table_text bt md) [] CORM_OK # Ev_Describe (model_table md) (derr (model_table md)) #
        sent (alter_text bt md) (missing_fields (derr (model_table md)) (cols (model_table md)) (model_fields md)) es1 @
        sent (index_text bt md) (indexed_fields (model_fields md)) es2 @ rest \<and>
        length es1 = length (missing_fields (derr (model_table md)) (cols (model_table md)) (model_fields md)) \<and>
        length es2 = length (indexed_fields (model_fields md)) \<and> migrates bt derr cols mds err rest)"

text \<open>The same for descriptions that are only known to be in a relation.\<close>

fun migrates_by ::
  "corm_backend_type_t \<Rightarrow> (string \<Rightarrow> corm_err_t \<Rightarrow> corm_column_info_t list option \<Rightarrow> bool) \<Rightarrow>
     ('h, 'z) corm_model_t_scheme list \<Rightarrow> corm_err_t \<Rightarrow> backend_call list \<Rightarrow> bool" where
  "migrates_by bt R [] err evs \<longleftrightarrow> err = CORM_OK \<and> evs = []"
| "migrates_by bt R (md # mds) err evs \<longleftrightarrow>
     (err \<noteq> CORM_OK \<and> evs = [Ev_Exec (table_text bt md) [] err]) \<or>
     (\<exists>e cs es1 es2 rest. R (model_table md) e cs \<and>
        evs = Ev_Exec (table_text bt md) [] CORM_OK # Ev_Describe (model_table md) e #
          sent (alter_text bt md) (missing_fields e cs (model_fields md)) es1 @
          sent (index_text bt md) (indexed_fields (model_fields md)) es2 @ rest \<and>
        length es1 = length (missing_fields e cs (model_fields md)) \<and>
        length es2 = length (indexed_fields (model_fields md)) \<and> migrates_by bt R mds err rest)"

lemma migrates_by_exact:
  "migrates_by bt (\<lambda>t e cs. e = derr t \<and> cs = cols t) mds err evs \<longleftrightarrow> migrates bt derr cols mds err evs"
  by (induction mds arbitrary: evs) auto

text \<open>What the database answers to \<^verbatim>\<open>describe_table\<close> during the run.\<close>

definition answers ::
  "('c, 's) corm_backend_t \<Rightarrow> (string \<Rightarrow> corm_err_t) \<Rightarrow> (string \<Rightarrow> corm_column_info_t list option) \<Rightarrow> bool" where
  "answers b derr cols \<longleftrightarrow> (\<exists>d. b_describe_table b = Some d \<and> (\<forall>c t. \<exists>c'. d c t [] = ((derr t, cols t), c', []))) \<and>
     (\<forall>t. named (cols t))"

context migrated_backend
begin

lemma migrate_model_full:
  assumes "strings_ok md" and "attached b I db" and "within S T (btype b) md"
  shows "\<exists>err db' evs. migrate_model b db md [] = Some (err, db', []) \<and> attached b I db' \<and> calls (core db') = calls (core db) @ evs \<and>
    migrates_by (btype b) R [md] err evs"
proof -
  let ?t = "model_table md" and ?bt = "btype b"
  from assms(3) have wi: "?t \<in> T" "table_text ?bt md \<in> S" by (simp_all add: within_def)
  from exec_text [OF assms(2) emits_table [OF assms(1) ready_init, of ?bt] wi(2)] obtain ct db1 where
    c: "create_table db ?bt md [] = (ct, Some db1, [])" "attached b I db1"
      "calls (core db1) = calls (core db) @ [Ev_Exec (table_text ?bt md) [] ct]"
    by (auto simp: create_table_def case_prod_beta)
  show ?thesis
  proof (cases "ct = CORM_OK")
    case False
    with c show ?thesis by (simp add: migrate_model_def Let_def)
  next
    case True
    from c(2) have at: "backend db1 = Some b" "I (core db1)" by (simp_all add: attached_def)
    from describes at(2) wi(1) obtain d e cs c' where d: "b_describe_table b = Some d" "d (core db1) ?t [] = ((e, cs), c', [])"
      and nm: "R ?t e cs" "named cs" "I (logged (core db1) (Ev_Describe ?t e) c')" by blast
    define db2 where "db2 = db1\<lparr>core := logged (core db1) (Ev_Describe ?t e) c'\<rparr>"
    have de: "describe db1 b ?t [] = ((e, cs), db2, [])" "attached b I db2" "calls (core db2) = calls (core db1) @ [Ev_Describe ?t e]"
      using d nm(3) at(1) by (simp_all add: describe_def db2_def attached_def)
    from add_columns_full [OF assms(1) nm(2) de(2) subset_refl assms(3), of e] obtain es1 db3 where
      a: "add_columns ?bt md e cs (model_fields md) db2 [] = Some (db3, [])" "attached b I db3"
        "length es1 = length (missing_fields e cs (model_fields md))"
        "calls (core db3) = calls (core db2) @ sent (alter_text ?bt md) (missing_fields e cs (model_fields md)) es1" by auto
    from add_indexes_full [OF assms(1) a(2) subset_refl assms(3)] obtain es2 db4 where
      i: "add_indexes ?bt md (model_fields md) db3 [] = (db4, [])" "attached b I db4"
        "length es2 = length (indexed_fields (model_fields md))"
        "calls (core db4) = calls (core db3) @ sent (index_text ?bt md) (indexed_fields (model_fields md)) es2" by auto
    have "migrate_model b db md [] = Some (CORM_OK, db4, [])"
      using c(1) True de(1) a(1) i(1) by (simp add: migrate_model_def Let_def)
    moreover define evs where "evs = Ev_Exec (table_text ?bt md) [] CORM_OK # Ev_Describe ?t e #
      sent (alter_text ?bt md) (missing_fields e cs (model_fields md)) es1 @
      sent (index_text ?bt md) (indexed_fields (model_fields md)) es2"
    have "calls (core db4) = calls (core db) @ evs" using c(3) True de(3) a(4) i(4) by (simp add: evs_def)
    moreover have "migrates_by ?bt R [md] CORM_OK evs" using a(3) i(3) nm(1) by (auto simp: evs_def)
    ultimately show ?thesis using i(2) by blast
  qed
qed

lemma migrate_models_full:
  assumes "\<forall>md\<in>set mds. strings_ok md \<and> within S T (btype b) md" and "attached b I db"
  shows "\<exists>err db' evs. migrate_models b db mds [] = Some (err, db', []) \<and> attached b I db' \<and>
    calls (core db') = calls (core db) @ evs \<and> migrates_by (btype b) R mds err evs"
  using assms
proof (induction mds arbitrary: db)
  case (Cons md mds)
  from Cons.prems(1) have "strings_ok md" "within S T (btype b) md" by simp_all
  from migrate_model_full [OF this(1) Cons.prems(2) this(2)] obtain e db1 evs1 where
    m: "migrate_model b db md [] = Some (e, db1, [])" "attached b I db1" "calls (core db1) = calls (core db) @ evs1"
      "migrates_by (btype b) R [md] e evs1" by blast
  show ?case
  proof (cases "e = CORM_OK")
    case False
    with m show ?thesis by auto
  next
    case True
    from Cons.IH [OF _ m(2)] Cons.prems(1) obtain err db' evs2 where
      r: "migrate_models b db1 mds [] = Some (err, db', [])" "attached b I db'" "calls (core db') = calls (core db1) @ evs2"
        "migrates_by (btype b) R mds err evs2" by auto
    have "migrates_by (btype b) R (md # mds) err (evs1 @ evs2)" using m(4) True r(4) by fastforce
    with m(1,3) r(1-3) True show ?thesis by auto
  qed
qed simp

lemma auto_migrate_full:
  assumes "\<forall>md\<in>set mds. strings_ok md \<and> within S T (btype b) md" and "attached b I db"
  shows "\<exists>err db' evs. corm_auto_migrate (Some db) (Some mds) (int (length mds)) [] = Some (err, Some db', []) \<and> attached b I db' \<and>
    calls (core db') = calls (core db) @ evs \<and> migrates_by (btype b) R mds err evs"
  using migrate_models_full [OF assms] assms(2) by (auto simp: corm_auto_migrate_def attached_def)

end

text \<open>A backend that answers in every state is one case.\<close>

lemma answers_migrated:
  assumes "keeps_mem b" and "answers b derr cols"
  shows "migrated_backend b (\<lambda>_. True) UNIV UNIV (\<lambda>t e cs. e = derr t \<and> cs = cols t)"
proof (intro migrated_backend.intro migrated_backend_axioms.intro)
  show "steady_backend b" by (rule steady_backend.intro [OF assms(1)])
  show "\<exists>d. b_describe_table b = Some d \<and> (\<forall>c. \<forall>t\<in>UNIV. True \<longrightarrow> (\<exists>e cs c'. d c t [] = ((e, cs), c', []) \<and> (e = derr t \<and> cs = cols t) \<and> named cs \<and> True))"
    using assms(2) by (auto simp: answers_def)
qed simp

section \<open>Properties\<close>

text \<open>(C5) Migration (memory available): for each model in order, the CREATE TABLE statement of the model
  and a description of the table, then one ALTER TABLE for exactly the non-key columns the description
  does not list (all of them if it failed), then one CREATE INDEX per indexed field; errors of the
  ALTER and INDEX statements are ignored, and the first CREATE TABLE that fails stops the run with its
  code. So a second migration of tables that have all columns adds none. The statements are those of the
  code, where the documents differ: \<^verbatim>\<open>IF NOT EXISTS\<close> is written on every backend
  (\<^verbatim>\<open>corm.h\<close> says not on MySQL), columns are added (\<^verbatim>\<open>docs/ARCHITECTURE.md\<close>, section 5,
  says there is no ALTER TABLE), but never those of the primary key.\<close>

theorem auto_migrate_adds_missing:
  assumes "backend db = Some b" and "keeps_mem b" and "answers b derr cols" and "\<forall>md\<in>set mds. strings_ok md"
  shows "\<exists>err db' evs. corm_auto_migrate (Some db) (Some mds) (int (length mds)) [] = Some (err, Some db', []) \<and>
    calls (core db') = calls (core db) @ evs \<and> migrates (btype b) derr cols mds err evs"
proof -
  from assms(1) have "attached b (\<lambda>_. True) db" by (simp add: attached_def)
  from assms(4) have "\<forall>md\<in>set mds. strings_ok md \<and> within UNIV UNIV (btype b) md" by simp
  from migrated_backend.auto_migrate_full [OF answers_migrated [OF assms(2,3)] this \<open>attached b _ db\<close>] show ?thesis
    by (auto simp: migrates_by_exact)
qed

definition describing_backend :: "(unit, unit) corm_backend_t" where
  "describing_backend = (null_backend CORM_BACKEND_SQLITE)\<lparr>b_describe_table := Some (\<lambda>c t m.
     ((CORM_OK, Some [\<lparr>cname = Some ''id'', type_name = None, col_not_null = 0, is_pk = 1, col_default = None\<rparr>]), c, m))\<rparr>"

theorem auto_migrate_adds_missing_witness:
  "\<exists>err db' e2. corm_auto_migrate (Some (sample_db\<lparr>backend := Some describing_backend\<rparr>)) (Some [sample_model])
       (int (length [sample_model])) [] = Some (err, Some db', []) \<and>
     (err = CORM_OK \<longrightarrow> last (calls (core db')) = Ev_Exec (''ALTER TABLE '' @ quoted CORM_BACKEND_SQLITE ''users'' @ '' ADD COLUMN '' @
        quoted CORM_BACKEND_SQLITE ''age'' @ '' INTEGER;'') [] e2)"
proof -
  let ?b = describing_backend and ?db = "sample_db\<lparr>backend := Some describing_backend\<rparr>"
  let ?cols = "\<lambda>t :: string. Some [\<lparr>cname = Some ''id'', type_name = None, col_not_null = 0, is_pk = 1, col_default = None\<rparr>]"
  have k: "keeps_mem ?b" by (simp add: keeps_mem_def describing_backend_def null_backend_def)
  have a: "answers ?b (\<lambda>t. CORM_OK) ?cols" by (simp add: answers_def describing_backend_def named_def)
  have s: "\<forall>md\<in>set [sample_model]. strings_ok md"
    by (simp add: strings_ok_def sample_model_def model_table_def model_fields_def field_name_def)
  have be: "backend ?db = Some ?b" by simp
  from auto_migrate_adds_missing [OF be k a s] obtain err db' evs where
    r: "corm_auto_migrate (Some ?db) (Some [sample_model]) (int (length [sample_model])) [] = Some (err, Some db', [])"
      "calls (core db') = calls (core ?db) @ evs" "migrates (btype ?b) (\<lambda>t. CORM_OK) ?cols [sample_model] err evs" by blast
  have bt: "btype ?b = CORM_BACKEND_SQLITE" by (simp add: describing_backend_def null_backend_def)
  let ?f = "\<lparr>fname = Some ''age'', ftype = CORM_INT, foffset = 4, fsize = 4, fflags = 0, default_value = None, fk_ref = None\<rparr>"
  have miss: "missing_fields CORM_OK (?cols (model_table sample_model)) (model_fields sample_model) = [?f]"
    "indexed_fields (model_fields sample_model) = []"
    by (simp_all add: missing_fields_def indexed_fields_def sample_model_def model_fields_def field_name_def has_flag_def
        CORM_FLAG_PRIMARY_def CORM_FLAG_INDEX_def)
  have alt: "alter_text CORM_BACKEND_SQLITE sample_model ?f = ''ALTER TABLE '' @ quoted CORM_BACKEND_SQLITE ''users'' @ '' ADD COLUMN '' @
        quoted CORM_BACKEND_SQLITE ''age'' @ '' INTEGER;''"
    by (simp add: alter_text_def sample_model_def model_table_def field_name_def type_text_def corm_dialect_type_name_str_def
        constraints_text_def has_flag_def)
  have "\<exists>e2. last evs = Ev_Exec (alter_text CORM_BACKEND_SQLITE sample_model ?f) [] e2" if "err = CORM_OK"
    using r(3) that miss bt by (auto simp: length_Suc_conv)
  with r(1,2) alt show ?thesis by (cases "err = CORM_OK") (auto simp: sample_db_def)
qed

end
