(* ===== verification/Example_Models.thy ===== *)
theory Example_Models
  imports Batch Migration
begin

text \<open>
  The models of \<^verbatim>\<open>examples/sqlite_full.c\<close>, written with the macro \<^verbatim>\<open>CORM_FIELD\<close> of
  \<^verbatim>\<open>include/corm/model.h\<close>: a table of users, and a table of articles with a soft-delete member.
  They satisfy what the theorems ask of a model, and what a program built on the library relies on.
\<close>

section \<open>The models\<close>

text \<open>The macro takes the offset and the size from the struct; here they are arguments. The struct is laid
  out in declaration order, with 4-byte integers and floats.\<close>

definition CORM_FIELD ::
  "string \<Rightarrow> nat \<Rightarrow> nat \<Rightarrow> corm_field_type_t \<Rightarrow> 32 word \<Rightarrow> string option \<Rightarrow> corm_field_t" where
  "CORM_FIELD fn off sz ft fl def =
     \<lparr>fname = Some fn, ftype = ft, foffset = off, fsize = sz, fflags = fl, default_value = def, fk_ref = None\<rparr>"

definition user_fields :: "corm_field_t list" where
  "user_fields =
     [CORM_FIELD ''id'' 0 4 CORM_INT (CORM_FLAG_PRIMARY OR CORM_FLAG_AUTOINC) None,
      CORM_FIELD ''name'' 4 64 CORM_STRING CORM_FLAG_NOT_NULL None,
      CORM_FIELD ''age'' 68 4 CORM_INT 0 (Some ''0''),
      CORM_FIELD ''score'' 72 4 CORM_FLOAT 0 (Some ''0.0'')]"

definition user_model :: "('c, 's) model" where
  "user_model =
     \<lparr>table_name = Some ''users'', struct_size = 76, mfields = Some user_fields, field_count = 4,
      primary_key = Some (user_fields ! 0), before_create = None, after_create = None, before_update = None,
      after_update = None, before_delete = None, after_delete = None, after_find = None\<rparr>"

definition article_fields :: "corm_field_t list" where
  "article_fields =
     [CORM_FIELD ''id'' 0 4 CORM_INT (CORM_FLAG_PRIMARY OR CORM_FLAG_AUTOINC) None,
      CORM_FIELD ''title'' 4 128 CORM_STRING CORM_FLAG_NOT_NULL None,
      CORM_FIELD ''deleted_at'' 132 32 CORM_STRING CORM_FLAG_SOFT_DELETE (Some '''')]"

definition article_model :: "('c, 's) model" where
  "article_model =
     \<lparr>table_name = Some ''articles'', struct_size = 164, mfields = Some article_fields, field_count = 3,
      primary_key = Some (article_fields ! 0), before_create = None, after_create = None, before_update = None,
      after_update = None, before_delete = None, after_delete = None, after_find = None\<rparr>"

section \<open>They are good models\<close>

lemmas flag_defs = has_flag_def CORM_FLAG_PRIMARY_def CORM_FLAG_AUTOINC_def CORM_FLAG_NOT_NULL_def CORM_FLAG_UNIQUE_def
  CORM_FLAG_SOFT_DELETE_def CORM_FLAG_INDEX_def

lemma example_fields [simp]:
  "model_fields user_model = user_fields" "model_fields article_model = article_fields"
  "model_table user_model = ''users''" "model_table article_model = ''articles''"
  by (simp_all add: model_fields_def model_table_def user_model_def article_model_def user_fields_def article_fields_def)

lemma example_hooks [simp]:
  "after_find user_model = None" "before_create article_model = None" "after_create article_model = None"
  by (simp_all add: user_model_def article_model_def)

lemma example_names:
  "map field_name user_fields = [''id'', ''name'', ''age'', ''score'']"
  "map field_name article_fields = [''id'', ''title'', ''deleted_at'']"
  by (simp_all add: user_fields_def article_fields_def CORM_FIELD_def field_name_def)

lemma example_valid: "valid_model user_model" "valid_model article_model"
  by (simp_all add: valid_model_def example_names)
    (simp_all add: user_model_def article_model_def user_fields_def article_fields_def CORM_FIELD_def ident_char_def less_eq_char_def)

lemma example_names_ok: "names_ok user_model" "names_ok article_model"
  by (simp_all add: names_ok_def)
    (simp_all add: user_model_def article_model_def user_fields_def article_fields_def CORM_FIELD_def field_name_def)

lemma example_soft_delete:
  "soft_delete_field user_model = None" "soft_delete_field article_model = Some (article_fields ! 2)"
  "insert_fields article_model = tl article_fields"
  by (simp_all add: soft_delete_field_def insert_fields_def)
    (simp_all add: user_fields_def article_fields_def CORM_FIELD_def flag_defs)

text \<open>A struct of zero bytes, as the programs declare them.\<close>

definition zeroed :: "nat \<Rightarrow> c_struct" where
  "zeroed n = \<lparr>sbytes = replicate n 0, sheap = Map.empty\<rparr>"

lemma user_layout: "flat_layout user_fields (zeroed 76)"
  by (auto simp: flat_layout_def zeroed_def user_fields_def CORM_FIELD_def disjoint_fields_def width_def Struct_Access.fits_def
      terminated_def)

lemma article_readable: "\<forall>f\<in>set article_fields. corm_field_get_value (zeroed 164) f \<noteq> None"
  by (simp add: article_fields_def CORM_FIELD_def zeroed_def corm_field_get_value_def load_bytes_def c_str_at_def)

end
