(* ===== verification/Record_Roundtrip.thy ===== *)
theory Record_Roundtrip
  imports Example_Models
begin

text \<open>
  What every driver owes the callers of \<^verbatim>\<open>src/query.c\<close>: a record that was written with
  \<^verbatim>\<open>corm_create\<close> and is read back with \<^verbatim>\<open>corm_first\<close> has its values again. The contract
  is a locale; the theories of the drivers' records interpret it.
\<close>

section \<open>Members that can be stored\<close>

text \<open>A \<^verbatim>\<open>float\<close> is not a NaN (which no database keeps), a blob is smaller than 2 GB.\<close>

definition storable :: "c_struct \<Rightarrow> corm_field_t \<Rightarrow> bool" where
  "storable rec f \<longleftrightarrow> corm_field_get_value rec f \<noteq> None \<and> (ftype f = CORM_BLOB \<longrightarrow> fsize f < 2 ^ 31) \<and>
     (ftype f = CORM_FLOAT \<longrightarrow> (\<forall>bs. load_bytes (sbytes rec) (foffset f) 4 = Some bs \<longrightarrow> \<not> float_nan (ucast (le_word bs))))"

text \<open>What a member is expected to hold when it is read back; the database chooses the key of an
  auto-increment member.\<close>

definition expected :: "c_struct \<Rightarrow> 64 word \<Rightarrow> corm_field_t \<Rightarrow> corm_value_t" where
  "expected rec key f =
     (if has_flag f CORM_FLAG_AUTOINC then mk_value (ftype f) (kept f (VI key)) else the (corm_field_get_value rec f))"

definition keys_numeric :: "corm_field_t list \<Rightarrow> bool" where
  "keys_numeric fs \<longleftrightarrow> (\<forall>f\<in>set fs. has_flag f CORM_FLAG_AUTOINC \<longrightarrow> ftype f = CORM_INT \<or> ftype f = CORM_INT64)"

lemma takeWhile_stops_in: "z \<in> set (take n ys) \<Longrightarrow> \<not> P z \<Longrightarrow> takeWhile P ys = takeWhile P (take n ys)"
  using takeWhile_append1 [of z "take n ys" P "drop n ys"] by simp

lemma takeWhile_shorter: "z \<in> set xs \<Longrightarrow> \<not> P z \<Longrightarrow> length (takeWhile P xs) < length xs"
  by (induction xs) auto

lemma terminated_string:
  assumes "corm_field_get_value rec f = Some v" and "ftype f = CORM_STRING" and "terminated rec f"
  shows "\<exists>s. v = mk_value CORM_STRING (VS (Some s)) \<and> cstring s \<and> length s < fsize f"
proof -
  let ?ys = "drop (foffset f) (sbytes rec)" and ?p = "\<lambda>b. b \<noteq> (0 :: byte)"
  define s where "s = map char_of_byte (takeWhile ?p ?ys)"
  from assms(3) obtain z where z: "z \<in> set (take (fsize f) ?ys)" "\<not> ?p z" by (auto simp: terminated_def assms(2))
  then have "takeWhile ?p ?ys = takeWhile ?p (take (fsize f) ?ys)" by (rule takeWhile_stops_in)
  moreover have "length (takeWhile ?p (take (fsize f) ?ys)) < length (take (fsize f) ?ys)"
    using z by (rule takeWhile_shorter)
  ultimately have "length s < fsize f" by (simp add: s_def)
  moreover have "cstring s" by (auto simp: s_def cstring_def eq_commute [of NUL] dest: set_takeWhileD)
  moreover have "v = mk_value CORM_STRING (VS (Some s))"
    using assms(1,2) by (auto simp: corm_field_get_value_def c_str_at_def s_def split: if_splits)
  ultimately show ?thesis by blast
qed

text \<open>What a value of a storable member looks like.\<close>

lemma storable_cases:
  assumes "Struct_Access.fits rec f" and "terminated rec f" and "ftype f \<noteq> CORM_TEXT" and "storable rec f"
  obtains (integer) w where "ftype f = CORM_INT" "corm_field_get_value rec f = Some (mk_value CORM_INT (VI w))" "signed_take_bit 31 w = w"
  | (integer64) w where "ftype f = CORM_INT64" "corm_field_get_value rec f = Some (mk_value CORM_INT64 (VI w))"
  | (single) x where "ftype f = CORM_FLOAT" "corm_field_get_value rec f = Some (mk_value CORM_FLOAT (VF (f2d x)))" "d2f (f2d x) = x"
  | (real) w where "ftype f = CORM_DOUBLE" "corm_field_get_value rec f = Some (mk_value CORM_DOUBLE (VF w))"
  | (chars) s where "ftype f = CORM_STRING" "corm_field_get_value rec f = Some (mk_value CORM_STRING (VS (Some s)))"
      "cstring s" "length s < fsize f"
  | (bool) b where "ftype f = CORM_BOOL" "corm_field_get_value rec f = Some (mk_value CORM_BOOL (VB b))"
  | (blob) d where "ftype f = CORM_BLOB" "corm_field_get_value rec f = Some (mk_value CORM_BLOB (VBlob (Some d) (fsize f)))"
      "length d = fsize f" "0 < fsize f" "sint (word_of_nat (fsize f) :: 32 word) = int (fsize f)"
proof -
  from assms(4) obtain v where v: "corm_field_get_value rec f = Some v" by (auto simp: storable_def)
  show ?thesis
  proof (cases "ftype f")
    case CORM_STRING
    with terminated_string [OF v this assms(2)] v show ?thesis by (auto intro: chars)
  next
    case CORM_FLOAT
    with assms(4) v show ?thesis by (auto simp: corm_field_get_value_def storable_def d2f_f2d intro: single)
  next
    case CORM_BLOB
    then have n: "0 < fsize f" "fsize f < 2 ^ 31" using assms(1,4) by (simp_all add: Struct_Access.fits_def width_def storable_def)
    then have "sint (word_of_nat (fsize f) :: 32 word) = int (fsize f)" by (simp add: signed_of_nat signed_take_bit_int_eq_self)
    with n(1) CORM_BLOB v show ?thesis by (auto simp: corm_field_get_value_def load_bytes_def intro: blob split: if_splits)
  next
    case CORM_BOOL
    with v show ?thesis by (auto simp: corm_field_get_value_def intro: bool split: option.splits)
  next
    case CORM_INT
    with v show ?thesis by (auto simp: corm_field_get_value_def intro: integer)
  next
    case CORM_INT64
    with v show ?thesis by (auto simp: corm_field_get_value_def intro: integer64)
  next
    case CORM_DOUBLE
    with v show ?thesis by (auto simp: corm_field_get_value_def intro: real)
  qed (use assms(3) in simp)
qed

text \<open>The value the database holds for a member.\<close>

definition stored_value :: "c_struct \<Rightarrow> 64 word \<Rightarrow> corm_field_t \<Rightarrow> corm_value_t" where
  "stored_value rec key f =
     (if has_flag f CORM_FLAG_AUTOINC then mk_value CORM_INT64 (VI key) else the (corm_field_get_value rec f))"

section \<open>Rows that hold a record\<close>

definition gives_back :: "corm_field_t \<Rightarrow> corm_union \<Rightarrow> corm_value_t \<Rightarrow> bool" where
  "gives_back f u v \<longleftrightarrow> value_for f u \<and> mk_value (ftype f) (kept f u) = v"

definition row_of_record :: "corm_field_t list \<Rightarrow> corm_result_t \<Rightarrow> c_struct \<Rightarrow> 64 word \<Rightarrow> bool" where
  "row_of_record fs r rec key \<longleftrightarrow> result_wf r \<and> 0 < row_count r \<and> None \<notin> set (column_names r) \<and> distinct (column_names r) \<and>
     (\<forall>f\<in>set fs. \<exists>j<nat (column_count r). column_names r ! j = Some (field_name f) \<and>
        gives_back f (uval (the (rows r) ! 0 ! j)) (expected rec key f))"

lemma record_cell:
  assumes "row_of_record fs r rec key" and "f \<in> set fs" and "j < nat (column_count r)" and "column_names r ! j = Some (field_name f)"
  shows "gives_back f (uval (the (rows r) ! 0 ! j)) (expected rec key f)"
proof -
  from assms(1,2) obtain k where k: "k < nat (column_count r)" "column_names r ! k = Some (field_name f)"
    "gives_back f (uval (the (rows r) ! 0 ! k)) (expected rec key f)" by (auto simp: row_of_record_def)
  from assms(1) have "distinct (column_names r)" "length (column_names r) = nat (column_count r)"
    by (simp_all add: row_of_record_def result_wf_def)
  with assms(3,4) k(1,2) have "k = j" by (simp add: nth_eq_iff_index_eq [symmetric])
  with k(3) show ?thesis by simp
qed

lemma record_row_for: "row_of_record fs r rec key \<Longrightarrow> row_for fs r 0"
  using record_cell [of fs r rec key] by (fastforce simp: row_for_def row_of_record_def gives_back_def)

lemma record_filled:
  assumes "row_of_record fs r rec key" and "filled fs r 0 rec0 rec'" and "f \<in> set fs"
  shows "corm_field_get_value rec' f = Some (expected rec key f)"
proof -
  from assms(1,3) obtain j where j: "j < nat (column_count r)" "column_names r ! j = Some (field_name f)"
    by (auto simp: row_of_record_def)
  with assms(2,3) have "corm_field_get_value rec' f = taken f (uval (the (rows r) ! 0 ! j)) (corm_field_get_value rec0 f)"
    by (simp add: filled_def)
  with record_cell [OF assms(1,3) j] value_taken show ?thesis by (simp add: gives_back_def)
qed

section \<open>Reading through a backend\<close>

lemma first_through:
  assumes "query_wf q" and "valid_model (qmodel q)" and "names_ok (qmodel q)" and "after_find (qmodel q) = None"
    and "flat_layout (model_fields (qmodel q)) rec"
    and "b_query b c (sql_of (query_bt q) (find_query (q\<lparr>limit := 1, offset := 0\<rparr>))) (param_values q) [] = ((CORM_OK, Some r), c', [])"
    and "row_count r \<noteq> 0 \<longrightarrow> row_for (model_fields (qmodel q)) r 0"
  shows "\<exists>err rec' c1 q'. corm_first b c q rec as [] = Some (err, rec', c1, q', []) \<and>
    c1 = logged c (Ev_Query (sql_of (query_bt q) (find_query (q\<lparr>limit := 1, offset := 0\<rparr>))) (param_values q) CORM_OK) c' \<and>
    (if row_count r = 0 then err = CORM_ERR_NOTFOUND \<and> rec' = rec else err = CORM_OK \<and> filled (model_fields (qmodel q)) r 0 rec rec')"
proof -
  let ?q = "q\<lparr>limit := 1, offset := 0\<rparr>"
  let ?sql = "sql_of (query_bt q) (find_query ?q)"
  have same: "query_wf ?q" "query_bt ?q = query_bt q" "param_values ?q = param_values q" "qmodel ?q = qmodel q"
    using assms(1) by (simp_all add: query_wf_def query_bt_def param_values_def)
  have f: "corm_find b c ?q [] = ((CORM_OK, Some r), logged c (Ev_Query ?sql (param_values q) CORM_OK) c', find_query ?q, [])"
    using find_through [of ?q b c] same assms(2,3,6) by simp
  show ?thesis
  proof (cases "row_count r = 0")
    case True
    then show ?thesis using f by (simp add: corm_first_def)
  next
    case False
    with map_row_correct [OF assms(5), of r 0 as] assms(7) obtain rec' where
      "map_row (model_fields (qmodel q)) r 0 rec as = Some (rec', as)" "filled (model_fields (qmodel q)) r 0 rec rec'" by blast
    with f False assms(4) find_keeps_model [OF f] same(4) show ?thesis by (simp add: corm_first_def run_hook_def)
  qed
qed

section \<open>The contract\<close>

text \<open>A query that creates and one that finds, on the same model without hooks, and two records of it.\<close>

definition record_ready :: "('c, 's) query \<Rightarrow> ('c, 's) query \<Rightarrow> c_struct \<Rightarrow> c_struct \<Rightarrow> bool" where
  "record_ready q q2 rec rec0 \<longleftrightarrow>
     query_wf q \<and> params q = [] \<and> query_wf q2 \<and> qmodel q2 = qmodel q \<and> valid_model (qmodel q) \<and> names_ok (qmodel q) \<and>
     before_create (qmodel q) = None \<and> after_create (qmodel q) = None \<and> after_find (qmodel q) = None \<and>
     flat_layout (model_fields (qmodel q)) rec \<and> flat_layout (model_fields (qmodel q)) rec0 \<and>
     keys_numeric (model_fields (qmodel q)) \<and> (\<forall>f\<in>set (insert_fields (qmodel q)). storable rec f)"

text \<open>The statement the second query sends, and what is to be shown: the record is sent in one INSERT,
  its values in the order of the columns, and the record found has the same values.\<close>

abbreviation first_sql :: "('c, 's) query \<Rightarrow> string" where
  "first_sql q \<equiv> sql_of (query_bt q) (find_query (q\<lparr>limit := 1, offset := 0\<rparr>))"

definition record_kept ::
  "('c, 's) corm_backend_t \<Rightarrow> ('c, 's) conn_core \<Rightarrow> ('c, 's) query \<Rightarrow> c_struct \<Rightarrow> ('c, 's) conn_core \<Rightarrow> ('c, 's) query \<Rightarrow>
     c_struct \<Rightarrow> 64 word list \<Rightarrow> 64 word \<Rightarrow> bool" where
  "record_kept b c q rec c2 q2 rec0 as key \<longleftrightarrow>
     (\<exists>err id c1 q1 m1 rec' c3 q3. corm_create b c q rec True [] = Some (err, id, rec, c1, q1, m1) \<and>
        calls c1 = calls c @ [Ev_Exec (sql_of (query_bt q) (q\<lparr>qop := CORM_OP_INSERT\<rparr>))
          (map (\<lambda>f. the (corm_field_get_value rec f)) (insert_fields (qmodel q))) err] \<and>
        corm_first b c2 q2 rec0 as [] = Some (CORM_OK, rec', c3, q3, []) \<and>
        (\<forall>f\<in>set (insert_fields (qmodel q)). corm_field_get_value rec' f = corm_field_get_value rec f) \<and>
        (\<forall>f\<in>set (model_fields (qmodel q)). has_flag f CORM_FLAG_AUTOINC \<longrightarrow>
           corm_field_get_value rec' f = Some (mk_value (ftype f) (kept f (VI key)))))"

text \<open>\<open>saved c sql ps fs rec key\<close>: the database answers the statement with a row that holds the
  members of the record as the driver sent them. The driver owes a result whose row gives them back.\<close>

locale record_store =
  fixes b :: "('c, 's) corm_backend_t"
    and saved :: "('c, 's) conn_core \<Rightarrow> string \<Rightarrow> corm_value_t list \<Rightarrow> corm_field_t list \<Rightarrow> c_struct \<Rightarrow> 64 word \<Rightarrow> bool"
  assumes gives: "flat_layout fs rec \<Longrightarrow> keys_numeric fs \<Longrightarrow> \<forall>f\<in>set fs. \<not> has_flag f CORM_FLAG_AUTOINC \<longrightarrow> storable rec f \<Longrightarrow>
    saved c sql ps fs rec key \<Longrightarrow> \<exists>r c'. b_query b c sql ps [] = ((CORM_OK, Some r), c', []) \<and> row_of_record fs r rec key"
begin

lemma keeps_record:
  assumes "record_ready q q2 rec rec0" and "saved c2 (first_sql q2) (param_values q2) (model_fields (qmodel q)) rec key"
  shows "record_kept b c q rec c2 q2 rec0 as key"
proof -
  let ?fs = "model_fields (qmodel q)"
  from assms(1) have q: "query_wf q" "params q = []" "query_wf q2" "qmodel q2 = qmodel q" "valid_model (qmodel q)" "names_ok (qmodel q)"
      "before_create (qmodel q) = None" "after_create (qmodel q) = None" "after_find (qmodel q) = None"
      "flat_layout ?fs rec" "flat_layout ?fs rec0" "keys_numeric ?fs"
    and st: "\<forall>f\<in>set (insert_fields (qmodel q)). storable rec f" by (simp_all add: record_ready_def)
  have "\<forall>f\<in>set (insert_fields (qmodel q)). corm_field_get_value rec f \<noteq> None" using st by (simp add: storable_def)
  from create_full [OF q(1,6,7,8) this, of b c] q(2) obtain err id c1 q1 m1 where
    w: "corm_create b c q rec True [] = Some (err, id, rec, c1, q1, m1)"
      "calls c1 = calls c @ [Ev_Exec (sql_of (query_bt q) (q\<lparr>qop := CORM_OP_INSERT\<rparr>))
         (map (\<lambda>f. the (corm_field_get_value rec f)) (insert_fields (qmodel q))) err]"
    by (auto simp: param_values_def)
  have st: "\<forall>f\<in>set ?fs. \<not> has_flag f CORM_FLAG_AUTOINC \<longrightarrow> storable rec f" using st by (simp add: insert_fields_def)
  from gives [OF q(10,12) st assms(2)] obtain r c' where
    r: "b_query b c2 (first_sql q2) (param_values q2) [] = ((CORM_OK, Some r), c', [])" "row_of_record ?fs r rec key" by blast
  have "row_count r \<noteq> 0" using r(2) by (simp add: row_of_record_def)
  with first_through [OF q(3) _ _ _ _ r(1), of rec0 as] q(4,5,6,9,11) record_row_for [OF r(2)] obtain rec' c3 q3 where
    f: "corm_first b c2 q2 rec0 as [] = Some (CORM_OK, rec', c3, q3, [])" "filled ?fs r 0 rec0 rec'" by auto
  have "corm_field_get_value rec' f = Some (expected rec key f)" if "f \<in> set ?fs" for f
    by (rule record_filled [OF r(2) f(2) that])
  then have "(\<forall>f\<in>set (insert_fields (qmodel q)). corm_field_get_value rec' f = corm_field_get_value rec f) \<and>
    (\<forall>f\<in>set ?fs. has_flag f CORM_FLAG_AUTOINC \<longrightarrow> corm_field_get_value rec' f = Some (mk_value (ftype f) (kept f (VI key))))"
    using st by (auto simp: insert_fields_def expected_def storable_def)
  with w f(1) show ?thesis unfolding record_kept_def by (elim conjE) (intro exI conjI, assumption+)
qed

end

section \<open>A record of the example\<close>

text \<open>The user ann, 30, 95.5.\<close>

definition ann :: c_struct where
  "ann = \<lparr>sbytes = replicate 4 0 @ string_image ''ann'' 64 @ le_bytes 4 30 @ le_bytes 4 0x42BF0000, sheap = Map.empty\<rparr>"

lemma ann_bytes:
  "load_bytes (sbytes ann) 4 64 = Some (string_image ''ann'' 64)" "load_bytes (sbytes ann) 68 4 = Some (le_bytes 4 30)"
  "load_bytes (sbytes ann) 72 4 = Some (le_bytes 4 0x42BF0000)"
  by (simp_all add: load_bytes_def ann_def length_string_image del: le_bytes.simps)

lemma ann_float: "f2d 0x42BF0000 = 0x4057E00000000000" "\<not> float_nan 0x42BF0000"
  by (simp_all add: f2d_def f2d_nat_def float_nan_def)

lemma ann_score: "ucast (le_word (le_bytes 4 0x42BF0000)) = (0x42BF0000 :: 32 word)"
  using le_word_le_bytes [of 4 "0x42BF0000"] by simp

lemma ann_values:
  "corm_field_get_value ann (user_fields ! 1) = Some (mk_value CORM_STRING (VS (Some ''ann'')))"
  "corm_field_get_value ann (user_fields ! 2) = Some (mk_value CORM_INT (VI 30))"
  "corm_field_get_value ann (user_fields ! 3) = Some (mk_value CORM_FLOAT (VF 0x4057E00000000000))"
  using c_str_at_image [OF ann_bytes(1)] ann_bytes ann_float ann_score
  by (simp_all add: corm_field_get_value_def user_fields_def CORM_FIELD_def del: le_bytes.simps le_word.simps)


lemma ann_layout: "flat_layout user_fields ann"
proof -
  have "terminated ann (user_fields ! 1)"
    using ann_bytes(1) by (simp add: terminated_def user_fields_def CORM_FIELD_def load_bytes_def string_image_def split: if_splits)
  then show ?thesis
    by (auto simp: flat_layout_def ann_def user_fields_def CORM_FIELD_def disjoint_fields_def width_def Struct_Access.fits_def
        length_string_image terminated_def)
qed

lemma user_flags: "keys_numeric user_fields" "insert_fields user_model = tl user_fields" "\<forall>f\<in>set (tl user_fields). \<not> has_flag f CORM_FLAG_AUTOINC"
    "has_flag (user_fields ! 0) CORM_FLAG_AUTOINC" "before_create user_model = None" "after_create user_model = None"
  by (simp_all add: keys_numeric_def insert_fields_def)
    (simp_all add: user_fields_def CORM_FIELD_def flag_defs user_model_def)

lemma ann_storable: "\<forall>f\<in>set (tl user_fields). storable ann f"
proof -
  have "user_fields ! Suc i = tl user_fields ! i" for i by (simp add: user_fields_def)
  with ann_values have "storable ann (user_fields ! 1)" "storable ann (user_fields ! 2)" "storable ann (user_fields ! 3)"
    using ann_bytes(3) ann_float(2) ann_score by (simp_all add: storable_def) (simp_all add: user_fields_def CORM_FIELD_def del: le_bytes.simps le_word.simps)
  then show ?thesis by (simp add: user_fields_def)
qed


lemma ann_stored: "stored_value ann 7 (user_fields ! 0) = mk_value CORM_INT64 (VI 7)"
    "stored_value ann 7 (user_fields ! 1) = mk_value CORM_STRING (VS (Some ''ann''))"
    "stored_value ann 7 (user_fields ! 2) = mk_value CORM_INT (VI 30)"
    "stored_value ann 7 (user_fields ! 3) = mk_value CORM_FLOAT (VF 0x4057E00000000000)"
  using ann_values by (simp_all add: stored_value_def) (simp_all add: user_fields_def CORM_FIELD_def flag_defs)

lemma ann_ready:
  assumes "query_wf q" and "qmodel q = user_model" and "params q = []"
  shows "record_ready q q ann (zeroed 76)"
  using assms
  by (simp add: record_ready_def ann_layout user_layout user_flags ann_storable example_valid(1) example_names_ok(1) example_hooks(1))

lemma ann_names: "field_name (user_fields ! 0) = ''id''" "field_name (user_fields ! 1) = ''name''"
    "field_name (user_fields ! 2) = ''age''" "field_name (user_fields ! 3) = ''score''"
  by (simp_all add: user_fields_def CORM_FIELD_def field_name_def)

lemma user_members: "f \<in> set user_fields \<Longrightarrow> \<exists>i<4. f = user_fields ! i"
proof -
  have "length user_fields = 4" by (simp add: user_fields_def)
  then show "f \<in> set user_fields \<Longrightarrow> \<exists>i<4. f = user_fields ! i" by (metis in_set_conv_nth)
qed

lemma less_4: "i < (4 :: nat) \<longleftrightarrow> i = 0 \<or> i = 1 \<or> i = 2 \<or> i = 3"
  by linarith

text \<open>What the records of the drivers have in common: ann is read back.\<close>

lemma ann_kept:
  assumes "record_kept b c q ann c2 q (zeroed 76) as 7" and "qmodel q = user_model"
  shows "\<exists>err id c1 q1 m1 rec' c3 q3. corm_create b c q ann True [] = Some (err, id, ann, c1, q1, m1) \<and>
     corm_first b c2 q (zeroed 76) as [] = Some (CORM_OK, rec', c3, q3, []) \<and>
     corm_field_get_value rec' (user_fields ! 0) = Some (mk_value CORM_INT (VI 7)) \<and>
     corm_field_get_value rec' (user_fields ! 1) = Some (mk_value CORM_STRING (VS (Some ''ann''))) \<and>
     corm_field_get_value rec' (user_fields ! 3) = Some (mk_value CORM_FLOAT (VF 0x4057E00000000000))"
proof -
  have t: "ftype (user_fields ! 0) = CORM_INT" "user_fields ! 0 \<in> set user_fields" "user_fields ! 1 \<in> set (tl user_fields)"
    "user_fields ! 3 \<in> set (tl user_fields)" by (simp_all add: user_fields_def CORM_FIELD_def)
  have s: "signed_take_bit 31 7 = (7 :: 64 word)" by (simp add: signed_take_bit_eq_if_positive)
  from assms obtain err id c1 q1 m1 rec' c3 q3 where
    r: "corm_create b c q ann True [] = Some (err, id, ann, c1, q1, m1)"
      "corm_first b c2 q (zeroed 76) as [] = Some (CORM_OK, rec', c3, q3, [])"
    and m: "\<forall>f\<in>set (tl user_fields). corm_field_get_value rec' f = corm_field_get_value ann f"
      "\<forall>f\<in>set user_fields. has_flag f CORM_FLAG_AUTOINC \<longrightarrow>
         corm_field_get_value rec' f = Some (mk_value (ftype f) (kept f (VI 7)))"
    unfolding record_kept_def assms(2) example_fields user_flags(2) by (elim exE conjE) (rule that, assumption+)
  from m(1) t ann_values have "corm_field_get_value rec' (user_fields ! 1) = Some (mk_value CORM_STRING (VS (Some ''ann'')))"
    "corm_field_get_value rec' (user_fields ! 3) = Some (mk_value CORM_FLOAT (VF 0x4057E00000000000))" by simp_all
  moreover from m(2) t(1,2) user_flags(4) s have "corm_field_get_value rec' (user_fields ! 0) = Some (mk_value CORM_INT (VI 7))" by simp
  ultimately show ?thesis using r by blast
qed

end
