(* ===== verification/Sqlite_Driver.thy ===== *)
theory Sqlite_Driver
  imports Connection
begin

text \<open>
  The SQLite driver (\<^verbatim>\<open>src/backend/sqlite3.c\<close>). The SQLite client library is not part of
  the repository: its functions are a record of arguments. The state \<open>'c\<close> of an open handle contains
  the database and every prepared statement on it; \<open>'s\<close> are statement handles. What the theorems
  need of the library is stated as hypotheses about the record.

  A driver function that may run into undefined behaviour (a union member of another type, a
  dangling cache entry) or never return has the value \<open>None\<close> there.
\<close>

section \<open>The client library\<close>

datatype sqlite_rc = SQLITE_OK | SQLITE_ROW | SQLITE_DONE | SQLITE_FAILED int

datatype sqlite_type = SQLITE_INTEGER | SQLITE_FLOAT | SQLITE_TEXT | SQLITE_BLOB | SQLITE_NULL

text \<open>The calls \<^verbatim>\<open>sqlite3_bind_*\<close> by their value argument. \<^verbatim>\<open>sqlite3_bind_blob\<close>
  takes the length as an \<^verbatim>\<open>int\<close>.\<close>

datatype sqlite_arg =
    Bind_null
  | Bind_int64 "64 word"
  | Bind_double "64 word"
  | Bind_text "string option"
  | Bind_int "32 word"
  | Bind_blob "byte list option" "32 word"

record ('c, 's) sqlite_api =
  sqlite3_open :: "string \<Rightarrow> sqlite_rc \<times> 'c"
  sqlite3_exec :: "'c \<Rightarrow> string \<Rightarrow> sqlite_rc \<times> 'c"
  sqlite3_prepare_v2 :: "'c \<Rightarrow> string \<Rightarrow> (sqlite_rc \<times> 's option) \<times> 'c"
  sqlite3_finalize :: "'s \<Rightarrow> 'c \<Rightarrow> 'c"
  sqlite3_reset :: "'s \<Rightarrow> 'c \<Rightarrow> 'c"
  sqlite3_clear_bindings :: "'s \<Rightarrow> 'c \<Rightarrow> 'c"
  sqlite3_bind :: "'s \<Rightarrow> int \<Rightarrow> sqlite_arg \<Rightarrow> 'c \<Rightarrow> 'c"
  sqlite3_step :: "'s \<Rightarrow> 'c \<Rightarrow> sqlite_rc \<times> 'c"
  sqlite3_errmsg :: "'c \<Rightarrow> string"
  sqlite3_column_count :: "'c \<Rightarrow> 's \<Rightarrow> int"
  sqlite3_column_name :: "'c \<Rightarrow> 's \<Rightarrow> int \<Rightarrow> string option"
  sqlite3_column_type :: "'c \<Rightarrow> 's \<Rightarrow> int \<Rightarrow> sqlite_type"
  sqlite3_column_int64 :: "'c \<Rightarrow> 's \<Rightarrow> int \<Rightarrow> 64 word"
  sqlite3_column_int :: "'c \<Rightarrow> 's \<Rightarrow> int \<Rightarrow> int"
  sqlite3_column_double :: "'c \<Rightarrow> 's \<Rightarrow> int \<Rightarrow> 64 word"
  sqlite3_column_text :: "'c \<Rightarrow> 's \<Rightarrow> int \<Rightarrow> string option"
  sqlite3_column_bytes :: "'c \<Rightarrow> 's \<Rightarrow> int \<Rightarrow> int"
  sqlite3_column_blob :: "'c \<Rightarrow> 's \<Rightarrow> int \<Rightarrow> byte list option"
  sqlite3_last_insert_rowid :: "'c \<Rightarrow> 64 word"
  sqlite3_changes :: "'c \<Rightarrow> int"
  sqlite3_mprintf_w :: "string \<Rightarrow> string option"

section \<open>Statements\<close>

text \<open>One \<^verbatim>\<open>switch\<close> of the binding loop.\<close>

definition bind_arg :: "corm_value_t \<Rightarrow> sqlite_arg option" where
  "bind_arg val =
     (if is_null val then Some Bind_null
      else (case vtype val of
              CORM_INT \<Rightarrow> map_option Bind_int64 (v_i (uval val))
            | CORM_INT64 \<Rightarrow> map_option Bind_int64 (v_i (uval val))
            | CORM_FLOAT \<Rightarrow> map_option Bind_double (v_f (uval val))
            | CORM_DOUBLE \<Rightarrow> map_option Bind_double (v_f (uval val))
            | CORM_STRING \<Rightarrow> map_option Bind_text (v_s (uval val))
            | CORM_TEXT \<Rightarrow> map_option Bind_text (v_s (uval val))
            | CORM_BOOL \<Rightarrow> map_option (\<lambda>b. Bind_int (if b then 1 else 0)) (v_b (uval val))
            | CORM_BLOB \<Rightarrow> map_option (\<lambda>(d, n). Bind_blob d (word_of_nat n)) (v_blob (uval val))))"

fun sqlite_bind_params :: "('c, 's) sqlite_api \<Rightarrow> 's \<Rightarrow> corm_value_t list \<Rightarrow> nat \<Rightarrow> 'c \<Rightarrow> 'c option" where
  "sqlite_bind_params L st [] i x = Some x"
| "sqlite_bind_params L st (val # vals) i x =
     (case bind_arg val of
        None \<Rightarrow> None
      | Some a \<Rightarrow> sqlite_bind_params L st vals (i + 1) (sqlite3_bind L st (int i + 1) a x))"

text \<open>The statements the cache destroys are finalised in turn.\<close>

definition sqlite_finalize_stmt :: "('c, 's) sqlite_api \<Rightarrow> 's list \<Rightarrow> 'c \<Rightarrow> 'c" where
  "sqlite_finalize_stmt L gone x = fold (sqlite3_finalize L) gone x"

text \<open>The statement (\<open>None\<close> for NULL), the connection and the allocator. \<open>x\<close> is the handle.\<close>

definition sqlite_get_stmt ::
  "('c, 's) sqlite_api \<Rightarrow> ('c, 's) conn_core \<Rightarrow> 'c \<Rightarrow> string \<Rightarrow> mem \<Rightarrow>
     ('s option \<times> ('c, 's) conn_core \<times> 'c \<times> mem) option" where
  "sqlite_get_stmt L c x sql m =
     (case corm_stmt_cache_get (stmt_cache c) (Some sql) of
        None \<Rightarrow> None
      | Some (Some st, k) \<Rightarrow>
          Some (Some st, c\<lparr>stmt_cache := k\<rparr>, sqlite3_clear_bindings L st (sqlite3_reset L st x), m)
      | Some (None, k) \<Rightarrow>
          (case sqlite3_prepare_v2 L x sql of
             ((rc, st), x1) \<Rightarrow>
               if rc \<noteq> SQLITE_OK then Some (None, corm_set_err_msg (c\<lparr>stmt_cache := k\<rparr>) (sqlite3_errmsg L x1), x1, m)
               else (case corm_stmt_cache_put k (Some sql) st m of
                       None \<Rightarrow> None
                     | Some (err, gone, k1, m1) \<Rightarrow>
                         Some (st, c\<lparr>stmt_cache := k1\<rparr>, sqlite_finalize_stmt L gone x1, m1))))"

definition sqlite_cleanup_stmt ::
  "('c, 's) sqlite_api \<Rightarrow> ('c, 's) conn_core \<Rightarrow> 'c \<Rightarrow> string \<Rightarrow> (('c, 's) conn_core \<times> 'c) option" where
  "sqlite_cleanup_stmt L c x sql =
     (case corm_stmt_cache_remove (stmt_cache c) (Some sql) of
        None \<Rightarrow> None
      | Some (r, k) \<Rightarrow>
          Some (c\<lparr>stmt_cache := k\<rparr>, case r of None \<Rightarrow> x | Some st \<Rightarrow> sqlite3_finalize L st x))"

section \<open>Opening, closing, pinging\<close>

definition sqlite_open ::
  "('c, 's) sqlite_api \<Rightarrow> ('c, 's) conn_core \<Rightarrow> string \<Rightarrow> mem \<Rightarrow> corm_err_t \<times> ('c, 's) conn_core \<times> mem" where
  "sqlite_open L c dsn m =
     (case sqlite3_open L dsn of
        (rc, x) \<Rightarrow>
          if rc \<noteq> SQLITE_OK then (CORM_ERR_BACKEND, corm_set_err_msg c (sqlite3_errmsg L x), m)
          else
            let x1 = snd (sqlite3_exec L x ''PRAGMA journal_mode=WAL'');
                x2 = snd (sqlite3_exec L x1 ''PRAGMA foreign_keys=ON'')
            in (CORM_OK, c\<lparr>conn := Some x2, stmt_cache := corm_stmt_cache_set_destroy_fn (stmt_cache c) True\<rparr>, m))"

definition sqlite_close :: "('c, 's) conn_core \<Rightarrow> corm_err_t \<times> ('c, 's) conn_core" where
  "sqlite_close c = (CORM_OK, case conn c of None \<Rightarrow> c | Some x \<Rightarrow> c\<lparr>conn := None\<rparr>)"

definition sqlite_ping ::
  "('c, 's) sqlite_api \<Rightarrow> ('c, 's) conn_core \<Rightarrow> mem \<Rightarrow> corm_err_t \<times> ('c, 's) conn_core \<times> mem" where
  "sqlite_ping L c m =
     (case conn c of
        None \<Rightarrow> (CORM_ERR_BACKEND, c, m)
      | Some x \<Rightarrow>
          (case sqlite3_exec L x ''SELECT 1'' of
             (rc, x1) \<Rightarrow> (if rc = SQLITE_OK then CORM_OK else CORM_ERR_BACKEND, c\<lparr>conn := Some x1\<rparr>, m)))"

section \<open>Executing\<close>

definition sqlite_exec ::
  "('c, 's) sqlite_api \<Rightarrow> ('c, 's) conn_core \<Rightarrow> string \<Rightarrow> corm_value_t list \<Rightarrow> mem \<Rightarrow>
     (corm_err_t \<times> ('c, 's) conn_core \<times> mem) option" where
  "sqlite_exec L c sql ps m =
     (case conn c of
        None \<Rightarrow> None
      | Some x \<Rightarrow>
     (case sqlite_get_stmt L c x sql m of
        None \<Rightarrow> None
      | Some (None, c1, x1, m1) \<Rightarrow> Some (CORM_ERR_BACKEND, c1\<lparr>conn := Some x1\<rparr>, m1)
      | Some (Some st, c1, x1, m1) \<Rightarrow>
     (case sqlite_bind_params L st ps 0 x1 of
        None \<Rightarrow> None
      | Some x2 \<Rightarrow>
     (case sqlite3_step L st x2 of
        (rc, x3) \<Rightarrow>
          if rc \<noteq> SQLITE_DONE \<and> rc \<noteq> SQLITE_ROW then
            (case sqlite_cleanup_stmt L (corm_set_err_msg c1 (sqlite3_errmsg L x3)) x3 sql of
               None \<Rightarrow> None
             | Some (c2, x4) \<Rightarrow> Some (CORM_ERR_BACKEND, c2\<lparr>conn := Some x4\<rparr>, m1))
          else Some (CORM_OK, c1\<lparr>conn := Some x3\<rparr>, m1)))))"

section \<open>Querying\<close>

text \<open>The type of a column, 0 (\<open>CORM_INT\<close>) while it is not known.\<close>

definition column_type_step :: "sqlite_type \<Rightarrow> corm_field_type_t \<Rightarrow> corm_field_type_t" where
  "column_type_step stype t =
     (if stype \<noteq> SQLITE_NULL \<and> t = CORM_INT then
        (case stype of SQLITE_INTEGER \<Rightarrow> CORM_INT64 | SQLITE_FLOAT \<Rightarrow> CORM_DOUBLE | SQLITE_BLOB \<Rightarrow> CORM_BLOB | _ \<Rightarrow> CORM_TEXT)
      else if t = CORM_INT then CORM_TEXT else t)"

text \<open>The contents of a cell. When the library gives no bytes for a blob the block stays
  uninitialised, and when it gives too few the copy reads past them: both are \<open>None\<close>.\<close>

definition cell_content ::
  "('c, 's) sqlite_api \<Rightarrow> 'c \<Rightarrow> 's \<Rightarrow> int \<Rightarrow> corm_field_type_t \<Rightarrow> mem \<Rightarrow> (corm_union \<times> mem) option" where
  "cell_content L x st i t m =
     (case t of
        CORM_INT64 \<Rightarrow> Some (VI (sqlite3_column_int64 L x st i), m)
      | CORM_DOUBLE \<Rightarrow> Some (VF (sqlite3_column_double L x st i), m)
      | CORM_TEXT \<Rightarrow>
          (case sqlite3_column_text L x st i of
             None \<Rightarrow> Some (VS None, m)
           | Some s \<Rightarrow> (case alloc m of (ok, m1) \<Rightarrow> Some (VS (if ok then Some s else None), m1)))
      | CORM_BLOB \<Rightarrow>
          let n = sqlite3_column_bytes L x st i in
          if n > 0 then
            (case alloc m of
               (False, m1) \<Rightarrow> Some (VBlob None 0, m1)
             | (True, m1) \<Rightarrow>
                 (case sqlite3_column_blob L x st i of
                    None \<Rightarrow> None
                  | Some d \<Rightarrow> if length d < nat n then None else Some (VBlob (Some (take (nat n) d)) (nat n), m1)))
          else Some (VBlob None 0, m)
      | _ \<Rightarrow> Some (VZero, m))"

fun fetch_cells ::
  "('c, 's) sqlite_api \<Rightarrow> 'c \<Rightarrow> 's \<Rightarrow> int \<Rightarrow> corm_field_type_t list \<Rightarrow> mem \<Rightarrow>
     (corm_value_t list \<times> corm_field_type_t list \<times> mem) option" where
  "fetch_cells L x st i [] m = Some ([], [], m)"
| "fetch_cells L x st i (t # ts) m =
     (let stype = sqlite3_column_type L x st i;
          t' = column_type_step stype t
      in case (if stype = SQLITE_NULL then Some (VZero, m) else cell_content L x st i t' m) of
           None \<Rightarrow> None
         | Some (u, m1) \<Rightarrow>
             (case fetch_cells L x st (i + 1) ts m1 of
                None \<Rightarrow> None
              | Some (cs, ts', m2) \<Rightarrow>
                  Some (\<lparr>vtype = t', is_null = (stype = SQLITE_NULL), uval = u\<rparr> # cs, t' # ts', m2)))"

text \<open>Doubling of an array that is full.\<close>

definition grow_array :: "nat \<Rightarrow> nat \<Rightarrow> mem \<Rightarrow> nat \<times> bool \<times> mem" where
  "grow_array n cap m = (if n \<ge> cap then (case alloc m of (ok, m1) \<Rightarrow> (cap * 2, ok, m1)) else (cap, True, m))"

text \<open>The row loop. It ends with the code of the last step and the column types, or out of memory;
  in both cases with the rows collected so far.\<close>

partial_function (option) fetch_rows ::
  "('c, 's) sqlite_api \<Rightarrow> 's \<Rightarrow> 'c \<Rightarrow> int \<Rightarrow> corm_value_t list list \<Rightarrow> nat \<Rightarrow> corm_field_type_t list \<Rightarrow> mem \<Rightarrow>
     ((corm_err_t + sqlite_rc \<times> corm_field_type_t list) \<times> corm_value_t list list \<times> 'c \<times> mem) option" where
  "fetch_rows L st x cols rs cap ts m =
     (case sqlite3_step L st x of
        (rc, x1) \<Rightarrow>
          if rc \<noteq> SQLITE_ROW then Some (Inr (rc, ts), rs, x1, m)
          else
     (case grow_array (length rs) cap m of
        (cap1, ok, m1) \<Rightarrow>
          if \<not> ok then Some (Inl CORM_ERR_NOMEM, rs, x1, m1)
          else
     (case calloc_n cols m1 of
        (ok2, m2) \<Rightarrow>
          if \<not> ok2 then Some (Inl CORM_ERR_NOMEM, rs, x1, m2)
          else
     (case fetch_cells L x1 st 0 ts m2 of
        None \<Rightarrow> None
      | Some (cs, ts', m3) \<Rightarrow> fetch_rows L st x1 cols (rs @ [cs]) cap1 ts' m3))))"

declare fetch_rows.simps [code]

text \<open>The column names: a failed copy leaves NULL.\<close>

fun copy_names :: "('c, 's) sqlite_api \<Rightarrow> 'c \<Rightarrow> 's \<Rightarrow> int \<Rightarrow> nat \<Rightarrow> mem \<Rightarrow> (string option list \<times> mem) option" where
  "copy_names L x st i 0 m = Some ([], m)"
| "copy_names L x st i (Suc n) m =
     (case sqlite3_column_name L x st i of
        None \<Rightarrow> None
      | Some s \<Rightarrow>
          (case alloc m of
             (ok, m1) \<Rightarrow>
               (case copy_names L x st (i + 1) n m1 of
                  None \<Rightarrow> None
                | Some (ns, m2) \<Rightarrow> Some ((if ok then Some s else None) # ns, m2))))"

text \<open>Freeing the collected rows row by row releases the row arrays only. The blocks their cells
  own stay live without a pointer to them: the second component names them.\<close>

definition cell_blocks :: "corm_value_t list list \<Rightarrow> block list" where
  "cell_blocks rs = concat (map (\<lambda>i. map (B_Cell i) (filter (\<lambda>j. owns_block (rs ! i ! j)) [0..<length (rs ! i)])) [0..<length rs])"

definition sqlite_query ::
  "('c, 's) sqlite_api \<Rightarrow> ('c, 's) conn_core \<Rightarrow> string \<Rightarrow> corm_value_t list \<Rightarrow> mem \<Rightarrow>
     ((corm_err_t \<times> corm_result_t option) \<times> block list \<times> ('c, 's) conn_core \<times> mem) option" where
  "sqlite_query L c sql ps m =
     (case conn c of
        None \<Rightarrow> None
      | Some x \<Rightarrow>
     (case sqlite_get_stmt L c x sql m of
        None \<Rightarrow> None
      | Some (None, c1, x1, m1) \<Rightarrow> Some ((CORM_ERR_BACKEND, None), [], c1\<lparr>conn := Some x1\<rparr>, m1)
      | Some (Some st, c1, x1, m1) \<Rightarrow>
     (case sqlite_bind_params L st ps 0 x1 of
        None \<Rightarrow> None
      | Some x2 \<Rightarrow>
          let cols = sqlite3_column_count L x2 st;
              fail = (\<lambda>err lost x3 m3.
                (case sqlite_cleanup_stmt L c1 x3 sql of
                   None \<Rightarrow> None
                 | Some (c2, x4) \<Rightarrow> Some ((err, None), lost, c2\<lparr>conn := Some x4\<rparr>, m3)))
          in
     (case alloc m1 of
        (ok1, m2) \<Rightarrow>
     (case calloc_n cols m2 of
        (ok2, m3) \<Rightarrow>
          if \<not> ok1 \<or> \<not> ok2 then fail CORM_ERR_NOMEM [] x2 m3
          else
     (case fetch_rows L st x2 cols [] 16 (replicate (nat cols) CORM_INT) m3 of
        None \<Rightarrow> None
      | Some (Inl err, rs, x3, m4) \<Rightarrow> fail err (cell_blocks rs) x3 m4
      | Some (Inr (rc, ts), rs, x3, m4) \<Rightarrow>
          if rc \<noteq> SQLITE_DONE then
            (case sqlite_cleanup_stmt L c1 x3 sql of
               None \<Rightarrow> None
             | Some (c2, x4) \<Rightarrow>
                 Some ((CORM_ERR_BACKEND, None), cell_blocks rs,
                       corm_set_err_msg (c2\<lparr>conn := Some x4\<rparr>) (sqlite3_errmsg L x4), m4))
          else
     (case corm_result_new cols 0 m4 of
        (None, a, f, m5) \<Rightarrow> fail CORM_ERR_NOMEM (cell_blocks rs) x3 m5
      | (Some r, a, f, m5) \<Rightarrow>
     (case copy_names L x3 st 0 (nat cols) m5 of
        None \<Rightarrow> None
      | Some (ns, m6) \<Rightarrow>
          Some ((CORM_OK, Some (r\<lparr>row_count := int (length rs), rows := Some rs, column_names := ns, column_types := ts\<rparr>)),
                [], c1\<lparr>conn := Some x3\<rparr>, m6)))))))))"

section \<open>Transactions, escaping, introspection\<close>

definition sqlite_begin :: "('c, 's) sqlite_api \<Rightarrow> ('c, 's) conn_core \<Rightarrow> mem \<Rightarrow> (corm_err_t \<times> ('c, 's) conn_core \<times> mem) option" where
  "sqlite_begin L c m = sqlite_exec L c ''BEGIN TRANSACTION'' [] m"

definition sqlite_commit :: "('c, 's) sqlite_api \<Rightarrow> ('c, 's) conn_core \<Rightarrow> mem \<Rightarrow> (corm_err_t \<times> ('c, 's) conn_core \<times> mem) option" where
  "sqlite_commit L c m = sqlite_exec L c ''COMMIT'' [] m"

definition sqlite_rollback :: "('c, 's) sqlite_api \<Rightarrow> ('c, 's) conn_core \<Rightarrow> mem \<Rightarrow> (corm_err_t \<times> ('c, 's) conn_core \<times> mem) option" where
  "sqlite_rollback L c m = sqlite_exec L c ''ROLLBACK'' [] m"

text \<open>The text written to \<^verbatim>\<open>dst\<close> for the first \<open>len\<close> characters of the source, and the
  length returned: 0 when \<^verbatim>\<open>dst\<close> is NULL.\<close>

fun escape_loop :: "string \<Rightarrow> nat \<Rightarrow> string" where
  "escape_loop (ch # s) (Suc n) =
     (if ch = NUL then [] else (if ch = CHR 0x27 then [CHR 0x27, ch] else [ch]) @ escape_loop s n)"
| "escape_loop _ _ = []"

definition sqlite_escape :: "bool \<Rightarrow> string \<Rightarrow> nat \<Rightarrow> string option \<times> nat" where
  "sqlite_escape dst src len =
     (if dst then (Some (escape_loop src len), length (escape_loop src len)) else (None, 0))"

text \<open>A copy of a string that may be NULL.\<close>

definition strdup_opt :: "string option \<Rightarrow> mem \<Rightarrow> string option \<times> mem" where
  "strdup_opt s m = (case s of None \<Rightarrow> (None, m) | Some t \<Rightarrow> (case alloc m of (ok, m1) \<Rightarrow> (if ok then Some t else None, m1)))"

definition describe_column :: "('c, 's) sqlite_api \<Rightarrow> 'c \<Rightarrow> 's \<Rightarrow> mem \<Rightarrow> corm_column_info_t \<times> mem" where
  "describe_column L x st m =
     (case strdup_opt (sqlite3_column_text L x st 1) m of
        (n, m1) \<Rightarrow>
     (case strdup_opt (sqlite3_column_text L x st 2) m1 of
        (t, m2) \<Rightarrow>
     (case strdup_opt (sqlite3_column_text L x st 4) m2 of
        (d, m3) \<Rightarrow>
          (\<lparr>cname = n, type_name = t, col_not_null = sqlite3_column_int L x st 3, is_pk = sqlite3_column_int L x st 5,
            col_default = d\<rparr>, m3))))"

partial_function (option) describe_rows ::
  "('c, 's) sqlite_api \<Rightarrow> 's \<Rightarrow> 'c \<Rightarrow> corm_column_info_t list \<Rightarrow> nat \<Rightarrow> mem \<Rightarrow>
     (corm_column_info_t list option \<times> 'c \<times> mem) option" where
  "describe_rows L st x cs cap m =
     (case sqlite3_step L st x of
        (rc, x1) \<Rightarrow>
          if rc \<noteq> SQLITE_ROW then Some (Some cs, x1, m)
          else
     (case grow_array (length cs) cap m of
        (cap1, ok, m1) \<Rightarrow>
          if \<not> ok then Some (None, x1, m1)
          else (case describe_column L x1 st m1 of (ci, m2) \<Rightarrow> describe_rows L st x1 (cs @ [ci]) cap1 m2)))"

declare describe_rows.simps [code]

definition sqlite_describe_table ::
  "('c, 's) sqlite_api \<Rightarrow> ('c, 's) conn_core \<Rightarrow> string \<Rightarrow> mem \<Rightarrow>
     ((corm_err_t \<times> corm_column_info_t list option) \<times> ('c, 's) conn_core \<times> mem) option" where
  "sqlite_describe_table L c tname m =
     (case (conn c, sqlite3_mprintf_w L tname) of
        (Some x, Some q) \<Rightarrow>
          let sql = snprintf_buf 512 (''PRAGMA table_info('' @ q @ '')'') in
     (case sqlite3_prepare_v2 L x sql of
        ((rc, stp), x1) \<Rightarrow>
          if rc \<noteq> SQLITE_OK then Some ((CORM_ERR_BACKEND, None), c\<lparr>conn := Some x1\<rparr>, m)
          else
     (case stp of
        None \<Rightarrow> None
      | Some st \<Rightarrow>
     (case alloc m of
        (False, m1) \<Rightarrow> Some ((CORM_ERR_NOMEM, None), c\<lparr>conn := Some (sqlite3_finalize L st x1)\<rparr>, m1)
      | (True, m1) \<Rightarrow>
     (case describe_rows L st x1 [] 16 m1 of
        None \<Rightarrow> None
      | Some (r, x2, m2) \<Rightarrow>
          Some ((case r of None \<Rightarrow> CORM_ERR_NOMEM | Some cs \<Rightarrow> CORM_OK, r),
                c\<lparr>conn := Some (sqlite3_finalize L st x2)\<rparr>, m2)))))
      | _ \<Rightarrow> None)"

definition sqlite_last_id :: "('c, 's) sqlite_api \<Rightarrow> ('c, 's) conn_core \<Rightarrow> 64 word option" where
  "sqlite_last_id L c = map_option (sqlite3_last_insert_rowid L) (conn c)"

definition sqlite_affected :: "('c, 's) sqlite_api \<Rightarrow> ('c, 's) conn_core \<Rightarrow> int option" where
  "sqlite_affected L c = map_option (sqlite3_changes L) (conn c)"

section \<open>The function table\<close>

text \<open>The answer of a query without the count of the blocks it loses.\<close>

definition sqlite_rows ::
  "('c, 's) sqlite_api \<Rightarrow> ('c, 's) conn_core \<Rightarrow> string \<Rightarrow> corm_value_t list \<Rightarrow> mem \<Rightarrow>
     ((corm_err_t \<times> corm_result_t option) \<times> ('c, 's) conn_core \<times> mem) option" where
  "sqlite_rows L c sql ps m = map_option (\<lambda>(r, lost, c', m'). (r, c', m')) (sqlite_query L c sql ps m)"

definition sqlite3_backend :: "('c, 's) sqlite_api \<Rightarrow> ('c, 's) corm_backend_t" where
  "sqlite3_backend L =
     \<lparr>bname = ''sqlite3'', btype = CORM_BACKEND_SQLITE, b_open = Some (sqlite_open L), b_close = sqlite_close,
      b_ping = sqlite_ping L, b_exec = (\<lambda>c sql ps m. answered (sqlite_exec L c sql ps m) m),
      b_query = (\<lambda>c sql ps m. answered (sqlite_rows L c sql ps m) m),
      b_begin = (\<lambda>c m. answered (sqlite_begin L c m) m), b_commit = (\<lambda>c m. answered (sqlite_commit L c m) m),
      b_rollback = (\<lambda>c m. answered (sqlite_rollback L c m) m),
      b_escape_string = (\<lambda>c s. the (fst (sqlite_escape True s (length s)))),
      b_last_insert_id = (\<lambda>c. the (sqlite_last_id L c)), b_rows_affected = (\<lambda>c. the (sqlite_affected L c)),
      b_describe_table = Some (\<lambda>c t m. answered (sqlite_describe_table L c t m) m)\<rparr>"

text \<open>Without SQLite support every entry is NULL; opening is refused, so nothing else is called.\<close>

definition sqlite3_stub_backend :: "('c, 's) corm_backend_t" where
  "sqlite3_stub_backend =
     \<lparr>bname = ''sqlite3 (unavailable)'', btype = CORM_BACKEND_SQLITE, b_open = None, b_close = undefined,
      b_ping = undefined, b_exec = undefined, b_query = undefined, b_begin = undefined, b_commit = undefined,
      b_rollback = undefined, b_escape_string = undefined, b_last_insert_id = undefined, b_rows_affected = undefined,
      b_describe_table = None\<rparr>"

definition corm_register_sqlite3_backend ::
  "('c, 's) sqlite_api option \<Rightarrow> ('c, 's) corm_backend_t list \<Rightarrow> corm_err_t \<times> ('c, 's) corm_backend_t list" where
  "corm_register_sqlite3_backend lib gs =
     corm_register_backend gs CORM_BACKEND_SQLITE
       (case lib of Some L \<Rightarrow> sqlite3_backend L | None \<Rightarrow> sqlite3_stub_backend)"

section \<open>The row loop\<close>

text \<open>An invariant of the row loop holds where it stops.\<close>

lemma fetch_rows_rule:
  assumes "fetch_rows L st x cols rs cap ts m = Some (r, rs', x', m')" and "I x rs ts m"
    and "\<And>x rs cap ts m x1 cap1 m1 m2 cs ts' m3. I x rs ts m \<Longrightarrow> sqlite3_step L st x = (SQLITE_ROW, x1) \<Longrightarrow>
      grow_array (length rs) cap m = (cap1, True, m1) \<Longrightarrow> calloc_n cols m1 = (True, m2) \<Longrightarrow>
      fetch_cells L x1 st 0 ts m2 = Some (cs, ts', m3) \<Longrightarrow> I x1 (rs @ [cs]) ts' m3"
  shows "\<exists>x0 ts0 m0 rc. I x0 rs' ts0 m0 \<and> sqlite3_step L st x0 = (rc, x') \<and>
    (case r of Inl err \<Rightarrow> rc = SQLITE_ROW \<and> err = CORM_ERR_NOMEM \<and> (m0 = [] \<longrightarrow> m' = []) | Inr (rc', ts') \<Rightarrow> rc \<noteq> SQLITE_ROW \<and> rc' = rc \<and> ts' = ts0 \<and> m' = m0)"
proof -
  have "L = L \<longrightarrow> st = st \<longrightarrow> cols = cols \<longrightarrow> I x rs ts m \<longrightarrow> (case (r, rs', x', m') of (r, rs', x', m') \<Rightarrow>
    \<exists>x0 ts0 m0 rc. I x0 rs' ts0 m0 \<and> sqlite3_step L st x0 = (rc, x') \<and>
    (case r of Inl err \<Rightarrow> rc = SQLITE_ROW \<and> err = CORM_ERR_NOMEM \<and> (m0 = [] \<longrightarrow> m' = []) | Inr (rc', ts') \<Rightarrow> rc \<noteq> SQLITE_ROW \<and> rc' = rc \<and> ts' = ts0 \<and> m' = m0))"
  proof (rule fetch_rows.raw_induct [where xa = "(((((((L, st), x), cols), rs), cap), ts), m)" and P = "\<lambda>L0 st0 x cols0 rs cap ts m y. L0 = L \<longrightarrow> st0 = st \<longrightarrow> cols0 = cols \<longrightarrow> I x rs ts m \<longrightarrow>
      (case y of (r, rs', x', m') \<Rightarrow> \<exists>x0 ts0 m0 rc. I x0 rs' ts0 m0 \<and> sqlite3_step L st x0 = (rc, x') \<and>
      (case r of Inl err \<Rightarrow> rc = SQLITE_ROW \<and> err = CORM_ERR_NOMEM \<and> (m0 = [] \<longrightarrow> m' = []) | Inr (rc', ts') \<Rightarrow> rc \<noteq> SQLITE_ROW \<and> rc' = rc \<and> ts' = ts0 \<and> m' = m0))",
      unfolded prod.case, OF _ assms(1)], intro impI, goal_cases)
    case (1 f L0 st0 x cols0 rs cap ts m y)
    obtain rc x1 where s: "sqlite3_step L st x = (rc, x1)" by fastforce
    obtain cap1 ok m1 where g: "grow_array (length rs) cap m = (cap1, ok, m1)" using prod_cases3 by blast
    obtain ok2 m2 where c: "calloc_n cols m1 = (ok2, m2)" by fastforce
    consider (stop) "rc \<noteq> SQLITE_ROW" | (nomem) "rc = SQLITE_ROW" "\<not> (ok \<and> ok2)" | (go) "rc = SQLITE_ROW" "ok" "ok2" by blast
    then show ?case
    proof cases
      case stop
      with 1 s have "y = (Inr (rc, ts), rs, x1, m)" by auto
      with stop s 1 show ?thesis by auto
    next
      case nomem
      with 1 s g c obtain m3 where y: "y = (Inl CORM_ERR_NOMEM, rs, x1, m3)" "m3 = m1 \<or> m3 = m2" by (cases ok) auto
      with g c have "m = [] \<longrightarrow> m3 = []" by (auto simp: grow_array_def calloc_n_def split: if_splits)
      with y nomem s 1 show ?thesis by auto
    next
      case go
      with 1 s g c obtain cs ts' m3 where f: "fetch_cells L x1 st 0 ts m2 = Some (cs, ts', m3)"
        "f L st x1 cols (rs @ [cs]) cap1 ts' m3 = Some y" by (auto split: option.splits)
      from 1(1) [OF f(2)] assms(3) [OF _ _ _ _ f(1), of x rs m cap cap1 m1] 1 s g c go show ?thesis by simp
    qed
  qed
  with assms(2) show ?thesis by simp
qed

text \<open>While memory lasts, every call leaves the allocator as it was.\<close>

lemma put_mem: "corm_stmt_cache_put k sql st [] = Some (err, gone, k', m') \<Longrightarrow> m' = []"
  by (auto simp: corm_stmt_cache_put_def Let_def split: option.splits prod.splits if_splits)

lemma cell_mem: "cell_content L x st i t [] = Some (u, m') \<Longrightarrow> m' = []"
  by (auto simp: cell_content_def Let_def split: corm_field_type_t.splits option.splits if_splits)

lemma cells_mem: "fetch_cells L x st i ts [] = Some (cs, ts', m') \<Longrightarrow> m' = []"
proof (induction ts arbitrary: i cs ts')
  case (Cons t ts)
  then obtain u m1 cs1 ts1 where "(if sqlite3_column_type L x st i = SQLITE_NULL then Some (VZero, [])
      else cell_content L x st i (column_type_step (sqlite3_column_type L x st i) t) []) = Some (u, m1)"
    and r: "fetch_cells L x st (i + 1) ts m1 = Some (cs1, ts1, m')" by (auto simp: Let_def split: option.splits)
  then have "m1 = []" using cell_mem by (auto split: if_splits)
  with Cons.IH r show ?case by simp
qed simp

lemma fetch_mem:
  assumes "fetch_rows L st x cols rs cap ts [] = Some (r, rs', x', m')"
  shows "m' = []"
proof -
  let ?I = "\<lambda>(_ :: 'a) (_ :: corm_value_t list list) (_ :: corm_field_type_t list) m :: mem. m = []"
  have "\<exists>x0 ts0 m0 rc. ?I x0 rs' ts0 m0 \<and> sqlite3_step L st x0 = (rc, x') \<and>
    (case r of Inl err \<Rightarrow> rc = SQLITE_ROW \<and> err = CORM_ERR_NOMEM \<and> (m0 = [] \<longrightarrow> m' = [])
     | Inr (rc', ts') \<Rightarrow> rc \<noteq> SQLITE_ROW \<and> rc' = rc \<and> ts' = ts0 \<and> m' = m0)"
    by (rule fetch_rows_rule [OF assms, of ?I]) (auto simp: grow_array_def calloc_n_def cells_mem split: if_splits)
  then show ?thesis by (cases r) auto
qed

lemma copy_names_mem: "copy_names L x st i n [] = Some (ns, m') \<Longrightarrow> m' = []"
  by (induction n arbitrary: i ns) (auto split: option.splits)

lemma result_new_mem: "corm_result_new cols 0 [] = (r, a, f, m') \<Longrightarrow> m' = []"
  by (auto simp: corm_result_new_def calloc_n_def Let_def split: prod.splits bool.splits if_splits)

lemma describe_mem:
  assumes run: "describe_rows L s x cs cap [] = Some (r, x', m')"
  shows "m' = []"
proof -
  have "([] :: mem) = [] \<longrightarrow> snd (snd (r, x', m')) = []"
  proof (rule describe_rows.raw_induct [where xa = "(((((L, s), x), cs), cap), [])" and
      P = "\<lambda>L s x cs cap m y. m = [] \<longrightarrow> snd (snd y) = []", unfolded prod.case, OF _ run], intro impI, goal_cases)
    case (1 f L s x cs cap m y)
    obtain rc x1 where st: "sqlite3_step L s x = (rc, x1)" by fastforce
    obtain cap1 ok m1 where g: "grow_array (length cs) cap m = (cap1, ok, m1)" using prod_cases3 by blast
    with 1(3) have m1: "m1 = []" by (auto simp: grow_array_def split: if_splits)
    obtain ci m2 where d: "describe_column L x1 s m1 = (ci, m2)" by fastforce
    with m1 have m2: "m2 = []" by (auto simp: describe_column_def strdup_opt_def split: option.splits)
    show ?case
    proof (cases "rc = SQLITE_ROW \<and> ok")
      case True
      with 1 st g d have "f L s x1 (cs @ [ci]) cap1 m2 = Some y" by simp
      from 1(1) [OF this] m2 show ?thesis by simp
    next
      case False
      with 1 st g m1 show ?thesis by (auto split: if_splits)
    qed
  qed
  then show ?thesis by simp
qed

lemma get_stmt_mem: "sqlite_get_stmt L c x sql [] = Some (r, c1, x1, m1) \<Longrightarrow> m1 = []"
  by (auto simp: sqlite_get_stmt_def put_mem split: option.splits prod.splits if_splits)

lemma sqlite_exec_mem: "sqlite_exec L c sql ps [] = Some (err, c', m') \<Longrightarrow> m' = []"
  by (auto simp: sqlite_exec_def dest!: get_stmt_mem split: option.splits prod.splits if_splits)

lemma sqlite_describe_mem: "sqlite_describe_table L c t [] = Some (r, c', m') \<Longrightarrow> m' = []"
  by (auto simp: sqlite_describe_table_def Let_def dest!: describe_mem split: option.splits prod.splits if_splits)

lemma sqlite_keeps_mem: "keeps_mem (sqlite3_backend L)"
  by (auto simp: keeps_mem_def sqlite3_backend_def sqlite_begin_def intro!: answered_mem dest: sqlite_exec_mem sqlite_describe_mem)

interpretation sqlite: steady_backend "sqlite3_backend L" for L
  by unfold_locales (rule sqlite_keeps_mem)

section \<open>A small client library\<close>

text \<open>An instance of the library for the witnesses: it numbers its statements, and every statement
  yields two rows \<open>(10, 'ann')\<close> and \<open>(20, NULL)\<close>.\<close>

type_synonym toy = "nat list \<times> nat"

definition toy_sqlite :: "(toy, nat) sqlite_api" where
  "toy_sqlite =
     \<lparr>sqlite3_open = (\<lambda>dsn. (SQLITE_OK, ([], 0))), sqlite3_exec = (\<lambda>x sql. (SQLITE_OK, x)),
      sqlite3_prepare_v2 = (\<lambda>x sql. ((SQLITE_OK, Some (Suc (sum_list (fst x)))), (Suc (sum_list (fst x)) # fst x, 0))),
      sqlite3_finalize = (\<lambda>s x. (removeAll s (fst x), snd x)), sqlite3_reset = (\<lambda>s x. (fst x, 0)),
      sqlite3_clear_bindings = (\<lambda>s x. x), sqlite3_bind = (\<lambda>s i a x. x),
      sqlite3_step = (\<lambda>s x. if snd x < 2 then (SQLITE_ROW, (fst x, Suc (snd x))) else (SQLITE_DONE, x)),
      sqlite3_errmsg = (\<lambda>x. ''disk I/O error''), sqlite3_column_count = (\<lambda>x s. 2),
      sqlite3_column_name = (\<lambda>x s i. Some (if i = 0 then ''id'' else ''name'')),
      sqlite3_column_type = (\<lambda>x s i. if i = 0 then SQLITE_INTEGER else if snd x = 1 then SQLITE_TEXT else SQLITE_NULL),
      sqlite3_column_int64 = (\<lambda>x s i. word_of_nat (10 * snd x)), sqlite3_column_int = (\<lambda>x s i. 0),
      sqlite3_column_double = (\<lambda>x s i. 0), sqlite3_column_text = (\<lambda>x s i. Some ''ann''),
      sqlite3_column_bytes = (\<lambda>x s i. 0), sqlite3_column_blob = (\<lambda>x s i. None),
      sqlite3_last_insert_rowid = (\<lambda>x. 0), sqlite3_changes = (\<lambda>x. 0), sqlite3_mprintf_w = Some\<rparr>"

definition toy_failing :: "(toy, nat) sqlite_api" where
  "toy_failing = toy_sqlite\<lparr>sqlite3_step := (\<lambda>s x. if snd x < 1 then (SQLITE_ROW, (fst x, Suc (snd x))) else (SQLITE_FAILED 10, x))\<rparr>"

definition empty_cache :: "nat corm_stmt_cache_t" where
  "empty_cache = \<lparr>capacity = 1, csize = 0, head = None, tail = None, entry_destroy_fn = True, heap = Map.empty, fresh = 0\<rparr>"

definition toy_core :: "(toy, nat) conn_core" where
  "toy_core = \<lparr>conn = Some ([], 0), err_msg = [], last_insert_id_val = 0, rows_affected_val = 0, stmt_cache = Some empty_cache, calls = []\<rparr>"

lemma empty_cache_rel: "cache_rel empty_cache []"
  by (simp add: cache_rel_def cache_at_def empty_cache_def)

end
