(* ===== verification/Typed_Result.thy ===== *)
theory Typed_Result
  imports Result
begin

text \<open>
  Well-typed results: every cell has the type of its column and contents of that type. The drivers
  build such results, and on them the typed accessors of \<^verbatim>\<open>src/result.c\<close> read only members
  that were written.
\<close>

fun fits :: "corm_field_type_t \<Rightarrow> corm_union \<Rightarrow> bool" where
  "fits CORM_INT64 (VI w) = True"
| "fits CORM_DOUBLE (VF w) = True"
| "fits CORM_TEXT (VS s) = True"
| "fits CORM_BOOL (VB b) = True"
| "fits CORM_BLOB (VBlob d n) = (case d of None \<Rightarrow> n = 0 | Some bs \<Rightarrow> length bs = n)"
| "fits _ _ = False"

definition cell_typed :: "corm_field_type_t \<Rightarrow> corm_value_t \<Rightarrow> bool" where
  "cell_typed t v \<longleftrightarrow> vtype v = t \<and> (if is_null v then uval v = VZero else fits t (uval v))"

definition result_typed :: "corm_result_t \<Rightarrow> bool" where
  "result_typed r \<longleftrightarrow>
     0 \<le> column_count r \<and> length (column_types r) = nat (column_count r) \<and> length (column_names r) = nat (column_count r) \<and>
     (case rows r of
        None \<Rightarrow> row_count r \<le> 0
      | Some rs \<Rightarrow> row_count r = int (length rs) \<and> (\<forall>row\<in>set rs. list_all2 cell_typed (column_types r) row))"

definition access_ok :: "corm_result_t \<Rightarrow> int \<Rightarrow> int \<Rightarrow> bool" where
  "access_ok r row col \<longleftrightarrow>
     (case column_types r ! nat col of
        CORM_INT64 \<Rightarrow> corm_result_int r row col \<noteq> None
      | CORM_DOUBLE \<Rightarrow> corm_result_double r row col \<noteq> None
      | CORM_TEXT \<Rightarrow> corm_result_string r row col \<noteq> None
      | CORM_BOOL \<Rightarrow> corm_result_bool r row col \<noteq> None
      | _ \<Rightarrow> True)"

lemma typed_cell:
  assumes "result_typed r" and "0 \<le> row" and "row < row_count r" and "0 \<le> col" and "col < column_count r"
  shows "\<exists>v. corm_result_value r row col = Some (Some v) \<and> cell_typed (column_types r ! nat col) v"
proof -
  from assms(1-3) obtain rs where e: "rows r = Some rs" "row_count r = int (length rs)"
    and l: "length (column_types r) = nat (column_count r)" and t: "\<forall>q\<in>set rs. list_all2 cell_typed (column_types r) q"
    by (auto simp: result_typed_def split: option.splits)
  have i: "nat row < length rs" using assms(2,3) e(2) by linarith
  then have q: "list_all2 cell_typed (column_types r) (rs ! nat row)" using t by simp
  have j: "nat col < length (column_types r)" using assms(4,5) l by linarith
  have v: "cell_typed (column_types r ! nat col) (rs ! nat row ! nat col)" by (rule list_all2_nthD [OF q j])
  have "length (rs ! nat row) = length (column_types r)" using q by (simp add: list_all2_lengthD)
  then have "corm_result_value r row col = Some (Some (rs ! nat row ! nat col))"
    using assms(2-5) e i j by (simp add: corm_result_value_def nth_opt_def)
  with v show ?thesis by blast
qed

lemma typed_access:
  assumes "corm_result_value r row col = Some (Some v)" and "cell_typed (column_types r ! nat col) v"
  shows "access_ok r row col"
proof (cases "is_null v")
  case True
  with assms show ?thesis
    by (simp add: access_ok_def corm_result_int_def corm_result_double_def corm_result_string_def corm_result_bool_def
        split: corm_field_type_t.split)
next
  case False
  with assms(2) have "fits (column_types r ! nat col) (uval v)" by (simp add: cell_typed_def)
  with assms(1) False show ?thesis
    by (cases "uval v"; cases "column_types r ! nat col")
      (simp_all add: access_ok_def corm_result_int_def corm_result_double_def corm_result_string_def corm_result_bool_def)
qed

text \<open>What a driver promises its callers: with every result it returns the code is CORM_OK, and the
  result is typed. The callers then read any cell by the type of its column.\<close>

locale typed_driver =
  fixes run :: "'d \<Rightarrow> string \<Rightarrow> corm_value_t list \<Rightarrow> mem \<Rightarrow> ((corm_err_t \<times> corm_result_t option) \<times> 'd \<times> mem) option"
  assumes typed: "run c sql ps m = Some ((err, Some r), c', m') \<Longrightarrow> err = CORM_OK \<and> result_typed r"
begin

lemma read_cell:
  assumes "run c sql ps m = Some ((err, Some r), c', m')" and "0 \<le> row" and "row < row_count r" and "0 \<le> col" and "col < column_count r"
  shows "err = CORM_OK \<and> (\<exists>v. corm_result_value r row col = Some (Some v) \<and> cell_typed (column_types r ! nat col) v) \<and>
    access_ok r row col"
proof -
  from typed [OF assms(1)] have t: "err = CORM_OK" "result_typed r" by simp_all
  from typed_cell [OF t(2) assms(2-5)] obtain v where
    v: "corm_result_value r row col = Some (Some v)" "cell_typed (column_types r ! nat col) v" by blast
  from t(1) v typed_access [OF v] show ?thesis by blast
qed

end

end
