(* ===== verification/Sqlite_Results.thy ===== *)
theory Sqlite_Results
  imports Sqlite_Driver Typed_Result
begin

text \<open>
  What the calls of the SQLite driver return: the decoded rows of a query with their types, the
  outcome of an execution, escaped strings and table descriptions.
\<close>

section \<open>What a query returns\<close>

text \<open>The states a statement goes through while it yields rows, and the code that ends them.\<close>

fun yields :: "('c, 's) sqlite_api \<Rightarrow> 's \<Rightarrow> 'c \<Rightarrow> 'c list \<Rightarrow> sqlite_rc \<Rightarrow> 'c \<Rightarrow> bool" where
  "yields L st x [] rc x' \<longleftrightarrow> rc \<noteq> SQLITE_ROW \<and> sqlite3_step L st x = (rc, x')"
| "yields L st x (y # ys) rc x' \<longleftrightarrow> sqlite3_step L st x = (SQLITE_ROW, y) \<and> yields L st y ys rc x'"

text \<open>The type of a column is the type of its value in the first row, text if that is NULL; every
  value of the column is converted to that type.\<close>

definition first_type :: "sqlite_type \<Rightarrow> corm_field_type_t" where
  "first_type t = (case t of SQLITE_INTEGER \<Rightarrow> CORM_INT64 | SQLITE_FLOAT \<Rightarrow> CORM_DOUBLE | SQLITE_BLOB \<Rightarrow> CORM_BLOB | _ \<Rightarrow> CORM_TEXT)"

definition result_types :: "('c, 's) sqlite_api \<Rightarrow> 's \<Rightarrow> nat \<Rightarrow> 'c list \<Rightarrow> corm_field_type_t list" where
  "result_types L st n ys =
     (case ys of [] \<Rightarrow> replicate n CORM_INT | y # _ \<Rightarrow> map (\<lambda>i. first_type (sqlite3_column_type L y st (int i))) [0..<n])"

definition content_at :: "('c, 's) sqlite_api \<Rightarrow> 'c \<Rightarrow> 's \<Rightarrow> int \<Rightarrow> corm_field_type_t \<Rightarrow> corm_union" where
  "content_at L y st i t =
     (case t of
        CORM_INT64 \<Rightarrow> VI (sqlite3_column_int64 L y st i)
      | CORM_DOUBLE \<Rightarrow> VF (sqlite3_column_double L y st i)
      | CORM_BLOB \<Rightarrow> if sqlite3_column_bytes L y st i > 0
          then VBlob (sqlite3_column_blob L y st i) (nat (sqlite3_column_bytes L y st i)) else VBlob None 0
      | _ \<Rightarrow> VS (sqlite3_column_text L y st i))"

definition cell_at :: "('c, 's) sqlite_api \<Rightarrow> 'c \<Rightarrow> 's \<Rightarrow> int \<Rightarrow> corm_field_type_t \<Rightarrow> corm_value_t" where
  "cell_at L y st i t =
     (if sqlite3_column_type L y st i = SQLITE_NULL then \<lparr>vtype = t, is_null = True, uval = VZero\<rparr>
      else \<lparr>vtype = t, is_null = False, uval = content_at L y st i t\<rparr>)"

definition row_at :: "('c, 's) sqlite_api \<Rightarrow> 's \<Rightarrow> corm_field_type_t list \<Rightarrow> 'c \<Rightarrow> corm_value_t list" where
  "row_at L st ts y = map (\<lambda>i. cell_at L y st (int i) (ts ! i)) [0..<length ts]"

text \<open>SQLite documents that a blob has as many bytes as \<^verbatim>\<open>sqlite3_column_bytes\<close> says and that
  every result column has a name. (Outside the range of the columns it answers NULL; the driver asks only
  for columns in range, and the condition is stated for all indices to keep the column count out of it.)\<close>

definition columns_readable :: "('c, 's) sqlite_api \<Rightarrow> bool" where
  "columns_readable L \<longleftrightarrow>
     (\<forall>x st i. sqlite3_column_bytes L x st i > 0 \<longrightarrow>
        (\<exists>d. sqlite3_column_blob L x st i = Some d \<and> length d = nat (sqlite3_column_bytes L x st i))) \<and>
     (\<forall>x st i. sqlite3_column_name L x st i \<noteq> None)"

abbreviation known_type :: "corm_field_type_t \<Rightarrow> bool" where
  "known_type t \<equiv> t \<in> {CORM_INT64, CORM_DOUBLE, CORM_TEXT, CORM_BLOB}"

lemma first_type_known: "known_type (first_type t)"
  by (cases t) (simp_all add: first_type_def)

lemma column_type_step_simps:
  "column_type_step s CORM_INT = first_type s" "known_type t \<Longrightarrow> column_type_step s t = t"
  by (cases s; auto simp: column_type_step_def first_type_def)+

lemma step_known: "t = CORM_INT \<or> known_type t \<Longrightarrow> known_type (column_type_step s t)"
  using first_type_known [of s] column_type_step_simps(2) [of t s] by (cases "t = CORM_INT") (simp_all add: column_type_step_simps(1))

lemma content_full:
  assumes "columns_readable L" and "known_type t"
  shows "cell_content L x st i t [] = Some (content_at L x st i t, [])"
proof -
  have b: "sqlite3_column_bytes L x st i > 0 \<Longrightarrow>
      \<exists>d. sqlite3_column_blob L x st i = Some d \<and> length d = nat (sqlite3_column_bytes L x st i)"
    using assms(1) unfolding columns_readable_def by blast
  show ?thesis
  proof (cases "t = CORM_BLOB")
    case True
    with b show ?thesis by (auto simp: cell_content_def content_at_def Let_def)
  next
    case False
    with assms(2) show ?thesis by (auto simp: cell_content_def content_at_def split: option.split)
  qed
qed

text \<open>The column types after a row.\<close>

fun types_after :: "('c, 's) sqlite_api \<Rightarrow> 'c \<Rightarrow> 's \<Rightarrow> int \<Rightarrow> corm_field_type_t list \<Rightarrow> corm_field_type_t list" where
  "types_after L x st i [] = []"
| "types_after L x st i (t # ts) = column_type_step (sqlite3_column_type L x st i) t # types_after L x st (i + 1) ts"

fun cells_of :: "('c, 's) sqlite_api \<Rightarrow> 'c \<Rightarrow> 's \<Rightarrow> int \<Rightarrow> corm_field_type_t list \<Rightarrow> corm_value_t list" where
  "cells_of L x st i [] = []"
| "cells_of L x st i (t # ts) = cell_at L x st i t # cells_of L x st (i + 1) ts"

lemma upt_0_Suc: "[0..<Suc n] = 0 # map Suc [0..<n]"
  by (simp add: upt_conv_Cons map_Suc_upt del: upt_Suc)

lemma cells_of_row: "cells_of L x st i ts = map (\<lambda>j. cell_at L x st (i + int j) (ts ! j)) [0..<length ts]"
  by (induction ts arbitrary: i) (simp_all add: upt_0_Suc comp_def add.assoc del: upt_Suc)

lemma types_after_known: "\<forall>t\<in>set ts. known_type t \<Longrightarrow> types_after L x st i ts = ts"
  by (induction ts arbitrary: i) (simp_all add: column_type_step_simps)

lemma types_after_first:
  "types_after L x st i (replicate n CORM_INT) = map (\<lambda>j. first_type (sqlite3_column_type L x st (i + int j))) [0..<n]"
  by (induction n arbitrary: i) (simp_all add: upt_0_Suc comp_def add.assoc column_type_step_simps del: upt_Suc)

lemma cells_full:
  assumes "columns_readable L"
  shows "\<forall>t\<in>set ts. t = CORM_INT \<or> known_type t \<Longrightarrow>
    fetch_cells L x st i ts [] = Some (cells_of L x st i (types_after L x st i ts), types_after L x st i ts, [])"
proof (induction ts arbitrary: i)
  case (Cons t ts)
  let ?s = "sqlite3_column_type L x st i" and ?t = "column_type_step (sqlite3_column_type L x st i) t"
  have k: "known_type ?t" by (rule step_known) (use Cons.prems in simp)
  have "(if ?s = SQLITE_NULL then Some (VZero, []) else cell_content L x st i ?t []) = Some (uval (cell_at L x st i ?t), [])"
    using content_full [OF assms k] by (simp add: cell_at_def)
  moreover have "cell_at L x st i ?t = \<lparr>vtype = ?t, is_null = (?s = SQLITE_NULL), uval = uval (cell_at L x st i ?t)\<rparr>"
    by (simp add: cell_at_def)
  ultimately show ?case using Cons.IH [of "i + 1"] Cons.prems by (simp add: Let_def)
qed simp

lemma row_cells: "row_at L st ts y = cells_of L y st 0 ts"
  by (simp add: row_at_def cells_of_row)

lemma result_types_known: "ys \<noteq> [] \<Longrightarrow> \<forall>t\<in>set (result_types L st n ys). known_type t"
  using first_type_known by (auto simp: result_types_def split: list.splits)

text \<open>With memory the row loop returns, and collects exactly the decoded rows.\<close>

lemma fetch_more:
  assumes "columns_readable L" and "0 \<le> cols" and "\<forall>t\<in>set ts. known_type t"
  shows "yields L st x ys rc x' \<Longrightarrow> fetch_rows L st x cols rs cap ts [] = Some (Inr (rc, ts), rs @ map (row_at L st ts) ys, x', [])"
proof (induction ys arbitrary: x rs cap)
  case Nil
  then show ?case by (subst fetch_rows.simps) simp
next
  case (Cons y ys)
  obtain cap1 where g: "grow_array (length rs) cap [] = (cap1, True, [])" by (cases "cap \<le> length rs") (simp_all add: grow_array_def)
  have c: "fetch_cells L y st 0 ts [] = Some (row_at L st ts y, ts, [])"
    using cells_full [OF assms(1), of ts y st 0] assms(3) by (simp add: types_after_known row_cells)
  from Cons.prems have "sqlite3_step L st x = (SQLITE_ROW, y)" "yields L st y ys rc x'" by simp_all
  with Cons.IH [of y "rs @ [row_at L st ts y]" cap1] g c assms(2) show ?case
    by (subst fetch_rows.simps) (simp add: calloc_n_def)
qed

lemma fetch_full:
  assumes "columns_readable L" and "yields L st x ys rc x'"
  shows "fetch_rows L st x (int n) [] 16 (replicate n CORM_INT) [] =
    Some (Inr (rc, result_types L st n ys), map (row_at L st (result_types L st n ys)) ys, x', [])"
proof (cases ys)
  case Nil
  with assms(2) show ?thesis by (subst fetch_rows.simps) (simp add: result_types_def)
next
  case (Cons y zs)
  define ts where "ts = result_types L st n ys"
  have k: "\<forall>t\<in>set ts. known_type t" unfolding ts_def by (rule result_types_known) (simp add: Cons)
  have "types_after L y st 0 (replicate n CORM_INT) = ts" by (simp add: types_after_first result_types_def Cons ts_def)
  then have c: "fetch_cells L y st 0 (replicate n CORM_INT) [] = Some (row_at L st ts y, ts, [])"
    using cells_full [OF assms(1), of "replicate n CORM_INT" y st 0] by (simp add: row_cells)
  from assms(2) Cons have s: "sqlite3_step L st x = (SQLITE_ROW, y)" "yields L st y zs rc x'" by simp_all
  have "fetch_rows L st x (int n) [] 16 (replicate n CORM_INT) [] = fetch_rows L st y (int n) [row_at L st ts y] 16 ts []"
    by (subst fetch_rows.simps) (simp add: s(1) c grow_array_def calloc_n_def)
  also have "\<dots> = Some (Inr (rc, ts), [row_at L st ts y] @ map (row_at L st ts) zs, x', [])"
    by (rule fetch_more [OF assms(1) _ k s(2)]) simp
  finally show ?thesis unfolding ts_def [symmetric] by (simp add: Cons)
qed

lemma names_full:
  assumes "columns_readable L"
  shows "copy_names L x st i n [] = Some (map (\<lambda>j. sqlite3_column_name L x st (i + int j)) [0..<n], [])"
proof (induction n arbitrary: i)
  case (Suc n)
  obtain s where "sqlite3_column_name L x st i = Some s" using assms unfolding columns_readable_def by fastforce
  with Suc.IH [of "i + 1"] show ?case by (simp add: upt_0_Suc comp_def add.assoc del: upt_Suc)
qed simp

text \<open>The statement a call works with, and the cache afterwards: a cached statement is reset and
  moves to the front, a new one is prepared and stored, and the least recently used one leaves a full
  cache and is finalised.\<close>

definition stmt_ready ::
  "('c, 's) sqlite_api \<Rightarrow> 's corm_stmt_cache_t \<Rightarrow> (string \<times> 's) list \<Rightarrow> 'c \<Rightarrow> string \<Rightarrow> 's \<Rightarrow> 'c \<Rightarrow> bool" where
  "stmt_ready L k xs x sql st x1 \<longleftrightarrow>
     (case map_of xs sql of
        Some s \<Rightarrow> s = st \<and> x1 = sqlite3_clear_bindings L st (sqlite3_reset L st x)
      | None \<Rightarrow> \<exists>x0. sqlite3_prepare_v2 L x sql = ((SQLITE_OK, Some st), x0) \<and>
          x1 = sqlite_finalize_stmt L (if capacity k \<le> length xs \<and> entry_destroy_fn k then [snd (last xs)] else []) x0)"

definition cached_after :: "'s corm_stmt_cache_t \<Rightarrow> (string \<times> 's) list \<Rightarrow> string \<Rightarrow> (string \<times> 's) list" where
  "cached_after k xs sql = (case map_of xs sql of Some s \<Rightarrow> lru_remove xs sql | None \<Rightarrow> lru_trim (capacity k) xs)"

fun bind_all :: "('c, 's) sqlite_api \<Rightarrow> 's \<Rightarrow> sqlite_arg list \<Rightarrow> nat \<Rightarrow> 'c \<Rightarrow> 'c" where
  "bind_all L st [] i x = x"
| "bind_all L st (a # as) i x = bind_all L st as (i + 1) (sqlite3_bind L st (int i + 1) a x)"

lemma sqlite_bind_full: "map bind_arg ps = map Some as \<Longrightarrow> sqlite_bind_params L st ps i x = Some (bind_all L st as i x)"
proof (induction ps arbitrary: as i x)
  case (Cons p ps)
  then obtain b bs where "as = b # bs" "bind_arg p = Some b" "map bind_arg ps = map Some bs" by (cases as) auto
  with Cons.IH show ?case by simp
qed simp

lemma get_stmt_full:
  assumes k: "stmt_cache c = Some k" "cache_rel k xs" and r: "stmt_ready L k xs x sql st x1"
  shows "\<exists>k'. sqlite_get_stmt L c x sql [] = Some (Some st, c\<lparr>stmt_cache := Some k'\<rparr>, x1, []) \<and>
    cache_rel k' ((sql, st) # cached_after k xs sql)"
proof -
  from get_refines [OF k(2), of sql] obtain k1 where g: "corm_stmt_cache_get_unlocked k sql = Some (fst (lru_get xs sql), k1)"
    "cache_rel k1 (snd (lru_get xs sql))" "capacity k1 = capacity k" "entry_destroy_fn k1 = entry_destroy_fn k" by blast
  show ?thesis
  proof (cases "map_of xs sql")
    case (Some s)
    with g r k show ?thesis
      by (auto simp: sqlite_get_stmt_def corm_stmt_cache_get_def lru_get_def stmt_ready_def cached_after_def lru_remove_def)
  next
    case None
    with g have g': "corm_stmt_cache_get_unlocked k sql = Some (None, k1)" "cache_rel k1 xs" by (simp_all add: lru_get_def)
    from r None obtain x0 where p: "sqlite3_prepare_v2 L x sql = ((SQLITE_OK, Some st), x0)"
      "x1 = sqlite_finalize_stmt L (if capacity k \<le> length xs \<and> entry_destroy_fn k then [snd (last xs)] else []) x0"
      by (auto simp: stmt_ready_def)
    from put_refines_new [OF g'(2) None, of st "[]"] obtain err k' m' where
      pt: "corm_stmt_cache_put (Some k1) (Some sql) (Some st) [] =
        Some (err, if capacity k1 \<le> length xs \<and> entry_destroy_fn k1 then [snd (last xs)] else [], Some k', m')"
      "cache_rel k' ((sql, st) # lru_trim (capacity k1) xs)" by blast
    with put_mem [OF pt(1)] g' g(3,4) p k None show ?thesis
      by (intro exI [of _ k']) (simp add: sqlite_get_stmt_def corm_stmt_cache_get_def cached_after_def)
  qed
qed

lemma cleanup_full:
  assumes "stmt_cache c = Some k'" and "cache_rel k' ((sql, st) # ys)"
  shows "\<exists>k2. sqlite_cleanup_stmt L c x sql = Some (c\<lparr>stmt_cache := Some k2\<rparr>, sqlite3_finalize L st x) \<and> cache_rel k2 ys"
proof -
  from cache_rel_bounds [OF assms(2)] have "sql \<notin> fst ` set ys" by simp
  then have "lru_remove ((sql, st) # ys) sql = ys" by (auto simp: lru_remove_def filter_id_conv)
  with remove_refines [OF assms(2), of sql] assms(1) show ?thesis by (auto simp: sqlite_cleanup_stmt_def)
qed

definition query_result :: "('c, 's) sqlite_api \<Rightarrow> 's \<Rightarrow> nat \<Rightarrow> 'c list \<Rightarrow> 'c \<Rightarrow> corm_result_t" where
  "query_result L st n ys x =
     \<lparr>column_count = int n, column_names = map (\<lambda>j. sqlite3_column_name L x st (int j)) [0..<n],
      column_types = result_types L st n ys, rows = Some (map (row_at L st (result_types L st n ys)) ys),
      row_count = int (length ys), current_row = -1, refcount = 1\<rparr>"

lemma query_full:
  assumes cn: "conn c = Some x" and k: "stmt_cache c = Some k" "cache_rel k xs" and lib: "columns_readable L"
    and r: "stmt_ready L k xs x sql st x1" and b: "map bind_arg ps = map Some args"
    and n: "sqlite3_column_count L (bind_all L st args 0 x1) st = int n"
    and y: "yields L st (bind_all L st args 0 x1) ys rc x2"
  shows "\<exists>k'. cache_rel k' ((sql, st) # cached_after k xs sql) \<and>
    sqlite_query L c sql ps [] =
      (if rc = SQLITE_DONE then Some ((CORM_OK, Some (query_result L st n ys x2)), [], c\<lparr>stmt_cache := Some k', conn := Some x2\<rparr>, [])
       else (case sqlite_cleanup_stmt L (c\<lparr>stmt_cache := Some k'\<rparr>) x2 sql of
               None \<Rightarrow> None
             | Some (c2, x4) \<Rightarrow> Some ((CORM_ERR_BACKEND, None), cell_blocks (map (row_at L st (result_types L st n ys)) ys),
                 corm_set_err_msg (c2\<lparr>conn := Some x4\<rparr>) (sqlite3_errmsg L x4), [])))"
proof -
  from get_stmt_full [OF k r] obtain k' where g: "sqlite_get_stmt L c x sql [] = Some (Some st, c\<lparr>stmt_cache := Some k'\<rparr>, x1, [])"
    "cache_rel k' ((sql, st) # cached_after k xs sql)" by blast
  note bf = sqlite_bind_full [OF b, of L st 0 x1] and ff = fetch_full [OF lib y, of n] and nf = names_full [OF lib, of x2 st 0 n]
  have new: "corm_result_new (int n) 0 [] =
      (Some \<lparr>column_count = int n, column_names = replicate n None, column_types = replicate n CORM_INT, rows = None,
             row_count = 0, current_row = -1, refcount = 1\<rparr>, [B_Result, B_Names, B_Types], [], [])"
    by (simp add: corm_result_new_def calloc_n_def)
  have ca: "calloc_n (int n) [] = (True, [])" by (simp add: calloc_n_def)
  show ?thesis
    by (intro exI [of _ k'] conjI g(2))
      (simp add: sqlite_query_def cn g(1) bf n ca ff new nf query_result_def Let_def)
qed

text \<open>What the driver promises for a statement \<open>sql\<close> with the parameters \<open>ps\<close>: it can get the
  statement \<open>st\<close>, bind the parameters, and stepping yields the rows \<open>ys\<close>.\<close>

definition answers_with ::
  "('c, 's) sqlite_api \<Rightarrow> ('c, 's) conn_core \<Rightarrow> string \<Rightarrow> corm_value_t list \<Rightarrow> (string \<times> 's) list \<Rightarrow>
     's \<Rightarrow> nat \<Rightarrow> 'c list \<Rightarrow> 'c \<Rightarrow> bool" where
  "answers_with L c sql ps xs st n ys x2 \<longleftrightarrow>
     (\<exists>x k x1 args. conn c = Some x \<and> stmt_cache c = Some k \<and> cache_rel k xs \<and> columns_readable L \<and>
        stmt_ready L k xs x sql st x1 \<and> map bind_arg ps = map Some args \<and>
        sqlite3_column_count L (bind_all L st args 0 x1) st = int n \<and>
        yields L st (bind_all L st args 0 x1) ys SQLITE_DONE x2)"

lemma rows_full:
  assumes "answers_with L c sql ps xs st n ys x2"
  shows "\<exists>k'. sqlite_rows L c sql ps [] =
      Some ((CORM_OK, Some (query_result L st n ys x2)), c\<lparr>stmt_cache := Some k', conn := Some x2\<rparr>, [])"
proof -
  from assms obtain x k x1 args where a: "conn c = Some x" "stmt_cache c = Some k" "cache_rel k xs" "columns_readable L"
    "stmt_ready L k xs x sql st x1" "map bind_arg ps = map Some args"
    "sqlite3_column_count L (bind_all L st args 0 x1) st = int n" "yields L st (bind_all L st args 0 x1) ys SQLITE_DONE x2"
    by (auto simp: answers_with_def)
  from query_full [OF a] show ?thesis by (auto simp: sqlite_rows_def)
qed

section \<open>Types of the cells\<close>

lemma content_fits:
  "cell_content L x st i t m = Some (u, m') \<Longrightarrow> known_type t \<Longrightarrow> fits t u"
  by (cases t) (auto simp: cell_content_def Let_def split: option.splits if_splits prod.splits bool.splits)

lemma cells_typed:
  "fetch_cells L x st i ts m = Some (cs, ts', m') \<Longrightarrow> \<forall>t\<in>set ts. t = CORM_INT \<or> known_type t \<Longrightarrow>
    ts' = types_after L x st i ts \<and> list_all2 cell_typed ts' cs"
proof (induction ts arbitrary: i m cs ts')
  case (Cons t ts)
  let ?s = "sqlite3_column_type L x st i" and ?t = "column_type_step (sqlite3_column_type L x st i) t"
  have k: "known_type ?t" by (rule step_known) (use Cons.prems in simp)
  from Cons.prems(1) obtain u m1 cs1 ts1 where c: "(if ?s = SQLITE_NULL then Some (VZero, m) else cell_content L x st i ?t m) = Some (u, m1)"
    and r: "fetch_cells L x st (i + 1) ts m1 = Some (cs1, ts1, m')"
    and e: "cs = \<lparr>vtype = ?t, is_null = (?s = SQLITE_NULL), uval = u\<rparr> # cs1" "ts' = ?t # ts1"
    by (auto simp: Let_def split: option.splits)
  have "cell_typed ?t \<lparr>vtype = ?t, is_null = (?s = SQLITE_NULL), uval = u\<rparr>"
    using c k content_fits [of L x st i ?t m u m1] by (auto simp: cell_typed_def split: if_splits)
  moreover have h: "\<forall>t\<in>set ts. t = CORM_INT \<or> known_type t" using Cons.prems(2) by simp
  moreover have "ts1 = types_after L x st (i + 1) ts" "list_all2 cell_typed ts1 cs1" using Cons.IH [OF r h] by blast+
  ultimately show ?case using e by simp
qed simp

lemma types_after_len: "length (types_after L x st i ts) = length ts"
  by (induction ts arbitrary: i) simp_all

lemma types_after_all: "\<forall>t\<in>set ts. t = CORM_INT \<or> known_type t \<Longrightarrow> \<forall>t\<in>set (types_after L x st i ts). known_type t"
  by (induction ts arbitrary: i) (use step_known in auto)

text \<open>The loop invariant: until the first row no type is known, after it all are and stay.\<close>

lemma fetch_typed:
  assumes "fetch_rows L st x cols [] cap (replicate n CORM_INT) m = Some (Inr (rc, ts), rs, x', m')"
  shows "length ts = n \<and> (\<forall>row\<in>set rs. list_all2 cell_typed ts row)"
proof -
  let ?I = "\<lambda>(_ :: 'a) rs ts (_ :: mem). length ts = n \<and> (if rs = [] then ts = replicate n CORM_INT else \<forall>t\<in>set ts. known_type t) \<and>
      (\<forall>row\<in>set rs. list_all2 cell_typed ts row)"
  have step: "?I x1 (rs @ [cs]) ts' m3" if I: "?I x rs ts m" and f: "fetch_cells L x1 st 0 ts m2 = Some (cs, ts', m3)"
    for x1 x :: 'a and rs cs ts ts' and m m2 m3 :: mem
  proof -
    have a: "\<forall>t\<in>set ts. t = CORM_INT \<or> known_type t" using I by (auto split: if_splits)
    from cells_typed [OF f a] have c: "ts' = types_after L x1 st 0 ts" "list_all2 cell_typed ts' cs" by auto
    have k: "\<forall>t\<in>set ts'. known_type t" unfolding c(1) by (rule types_after_all [OF a])
    have "rs \<noteq> [] \<Longrightarrow> ts' = ts" using I types_after_known [of ts L x1 st 0] c(1) by simp
    with I c k types_after_len [of L x1 st 0 ts] show ?thesis by (cases "rs = []") simp_all
  qed
  have "\<exists>x0 ts0 m0 rc'. ?I x0 rs ts0 m0 \<and> sqlite3_step L st x0 = (rc', x') \<and>
    (case Inr (rc, ts) of Inl err \<Rightarrow> rc' = SQLITE_ROW \<and> err = CORM_ERR_NOMEM \<and> (m0 = [] \<longrightarrow> m' = [])
     | Inr (rc'', ts') \<Rightarrow> rc' \<noteq> SQLITE_ROW \<and> rc'' = rc' \<and> ts' = ts0 \<and> m' = m0)"
    by (rule fetch_rows_rule [OF assms, of ?I]) (simp, rule step)
  then show ?thesis by auto
qed

lemma copy_names_len: "copy_names L x st i n m = Some (ns, m') \<Longrightarrow> length ns = n"
  by (induction n arbitrary: i m ns) (auto split: option.splits prod.splits)

lemma query_typed:
  assumes run: "sqlite_query L c sql ps m = Some ((err, Some r), lost, c', m')"
  shows "err = CORM_OK \<and> result_typed r \<and> lost = []"
proof -
  obtain x where cn: "conn c = Some x" using run by (auto simp: sqlite_query_def split: option.splits)
  with run obtain s c1 x1 m1 where g: "sqlite_get_stmt L c x sql m = Some (Some s, c1, x1, m1)"
    by (auto simp: sqlite_query_def split: option.splits)
  with run cn obtain x2 where b: "sqlite_bind_params L s ps 0 x1 = Some x2" by (auto simp: sqlite_query_def split: option.splits)
  let ?cols = "sqlite3_column_count L x2 s"
  obtain ok1 m2 where a1: "alloc m1 = (ok1, m2)" by fastforce
  obtain ok2 m3 where a2: "calloc_n ?cols m2 = (ok2, m3)" by fastforce
  note run' = run [unfolded sqlite_query_def cn option.case g prod.case b Let_def a1 a2]
  from run' have ok: "ok1 \<and> ok2" by (cases "ok1 \<and> ok2") (auto split: option.splits)
  with a2 have cols: "0 \<le> ?cols" by (auto simp: calloc_n_def split: if_splits)
  from run' ok obtain ts rs x3 m4 where f: "fetch_rows L s x2 ?cols [] 16 (replicate (nat ?cols) CORM_INT) m3 =
      Some (Inr (SQLITE_DONE, ts), rs, x3, m4)" by (auto split: option.splits sum.splits if_splits)
  obtain res a fr m5 where n: "corm_result_new ?cols 0 m4 = (res, a, fr, m5)" using prod_cases4 by blast
  with run' ok f obtain r0 where r0: "res = Some r0" by (auto split: option.splits)
  have cc: "column_count r0 = ?cols" using n r0
    by (auto simp: corm_result_new_def Let_def split: prod.splits bool.splits if_splits)
  from run' ok f n r0 obtain ns m6 where nm: "copy_names L x3 s 0 (nat ?cols) m5 = Some (ns, m6)"
    and r: "r = r0\<lparr>row_count := int (length rs), rows := Some rs, column_names := ns, column_types := ts\<rparr>" "err = CORM_OK" "lost = []"
    by (auto split: option.splits)
  from fetch_typed [OF f] copy_names_len [OF nm] r cc cols show ?thesis by (simp add: result_typed_def)
qed

interpretation sqlite_typed: typed_driver "sqlite_rows L" for L
  by unfold_locales (auto simp: sqlite_rows_def dest: query_typed)

section \<open>Properties\<close>

lemma toy_readable: "columns_readable toy_sqlite" "columns_readable toy_failing"
  by (simp_all add: columns_readable_def toy_sqlite_def toy_failing_def)

text \<open>(C12) A SQLite query (memory available): the parameters are bound in order, the statement comes from
  the cache or is prepared and cached, and the result has exactly the rows the statement yields, every
  value read with the type that its column has in the first row, with the column names in order. The
  driver keeps the statement at the front of the cache.\<close>

theorem sqlite_query_correct:
  assumes "conn c = Some x" and "stmt_cache c = Some k" and "cache_rel k xs" and "columns_readable L"
    and "stmt_ready L k xs x sql st x1" and "map bind_arg ps = map Some args"
    and "sqlite3_column_count L (bind_all L st args 0 x1) st = int n"
    and "yields L st (bind_all L st args 0 x1) ys SQLITE_DONE x2"
  shows "\<exists>k'. sqlite_query L c sql ps [] =
      Some ((CORM_OK, Some (query_result L st n ys x2)), [], c\<lparr>stmt_cache := Some k', conn := Some x2\<rparr>, []) \<and>
    cache_rel k' ((sql, st) # cached_after k xs sql)"
  using query_full [OF assms] by auto

theorem sqlite_query_correct_witness:
  "\<exists>k'. sqlite_query toy_sqlite toy_core ''SELECT id, name FROM t'' [] [] =
      Some ((CORM_OK, Some \<lparr>column_count = 2, column_names = [Some ''id'', Some ''name''], column_types = [CORM_INT64, CORM_TEXT],
          rows = Some [[\<lparr>vtype = CORM_INT64, is_null = False, uval = VI 10\<rparr>, \<lparr>vtype = CORM_TEXT, is_null = False, uval = VS (Some ''ann'')\<rparr>],
            [\<lparr>vtype = CORM_INT64, is_null = False, uval = VI 20\<rparr>, \<lparr>vtype = CORM_TEXT, is_null = True, uval = VZero\<rparr>]],
          row_count = 2, current_row = -1, refcount = 1\<rparr>), [],
        toy_core\<lparr>stmt_cache := Some k', conn := Some ([1], 2)\<rparr>, []) \<and>
    cache_rel k' [(''SELECT id, name FROM t'', 1)]"
proof -
  let ?sql = "''SELECT id, name FROM t''"
  have r: "stmt_ready toy_sqlite empty_cache [] ([], 0) ?sql 1 ([1], 0)"
    by (simp add: stmt_ready_def toy_sqlite_def sqlite_finalize_stmt_def empty_cache_def)
  have n: "sqlite3_column_count toy_sqlite (bind_all toy_sqlite 1 [] 0 ([1], 0)) 1 = int 2" by (simp add: toy_sqlite_def)
  have y: "yields toy_sqlite 1 (bind_all toy_sqlite 1 [] 0 ([1], 0)) [([1], 1), ([1], 2)] SQLITE_DONE ([1], 2)"
    by (simp add: toy_sqlite_def)
  have c: "conn toy_core = Some ([], 0)" "stmt_cache toy_core = Some empty_cache" by (simp_all add: toy_core_def)
  have two: "[0..<2] = [0, 1 :: nat]" by (simp add: upt_rec)
  show ?thesis
    using sqlite_query_correct [OF c empty_cache_rel toy_readable(1) r _ n y, of "[]"]
    by (simp add: query_result_def row_at_def result_types_def cell_at_def content_at_def first_type_def toy_sqlite_def
        cached_after_def lru_trim_def empty_cache_def two)
qed

text \<open>(C15) A SQLite query whose statement fails after some rows (memory available): the call returns
  CORM_ERR_BACKEND with the library's message and no result, and the statement is finalised and leaves
  the cache; but the strings and blobs of the rows read so far are not freed: exactly the block of
  every text or blob cell that is not NULL stays live and is lost.\<close>

theorem sqlite_query_failure_leaks:
  assumes "conn c = Some x" and "stmt_cache c = Some k" and "cache_rel k xs" and "columns_readable L"
    and "stmt_ready L k xs x sql st x1" and "map bind_arg ps = map Some args"
    and "sqlite3_column_count L (bind_all L st args 0 x1) st = int n"
    and "yields L st (bind_all L st args 0 x1) ys rc x2" and "rc \<noteq> SQLITE_DONE"
  shows "\<exists>c' k'. sqlite_query L c sql ps [] =
      Some ((CORM_ERR_BACKEND, None), cell_blocks (map (row_at L st (result_types L st n ys)) ys), c', []) \<and>
    conn c' = Some (sqlite3_finalize L st x2) \<and> err_msg c' = truncated 512 (sqlite3_errmsg L (sqlite3_finalize L st x2)) \<and>
    stmt_cache c' = Some k' \<and> cache_rel k' (cached_after k xs sql)"
proof -
  from query_full [OF assms(1-8)] assms(9) obtain k' where k': "cache_rel k' ((sql, st) # cached_after k xs sql)"
    and q: "sqlite_query L c sql ps [] = (case sqlite_cleanup_stmt L (c\<lparr>stmt_cache := Some k'\<rparr>) x2 sql of
       None \<Rightarrow> None
     | Some (c2, x4) \<Rightarrow> Some ((CORM_ERR_BACKEND, None), cell_blocks (map (row_at L st (result_types L st n ys)) ys),
         corm_set_err_msg (c2\<lparr>conn := Some x4\<rparr>) (sqlite3_errmsg L x4), []))" by auto
  have "stmt_cache (c\<lparr>stmt_cache := Some k'\<rparr>) = Some k'" by simp
  from cleanup_full [OF this k', of L x2] q show ?thesis by (auto simp: corm_set_err_msg_def)
qed

theorem sqlite_query_failure_leaks_witness:
  "\<exists>c'. sqlite_query toy_failing toy_core ''SELECT id, name FROM t'' [] [] = Some ((CORM_ERR_BACKEND, None), [B_Cell 0 1], c', []) \<and>
     err_msg c' = ''disk I/O error'' \<and> conn c' = Some ([], 1)"
proof -
  let ?sql = "''SELECT id, name FROM t''" and ?L = toy_failing
  have r: "stmt_ready ?L empty_cache [] ([], 0) ?sql 1 ([1], 0)"
    by (simp add: stmt_ready_def toy_failing_def toy_sqlite_def sqlite_finalize_stmt_def empty_cache_def)
  have n: "sqlite3_column_count ?L (bind_all ?L 1 [] 0 ([1], 0)) 1 = int 2" by (simp add: toy_failing_def toy_sqlite_def)
  have y: "yields ?L 1 (bind_all ?L 1 [] 0 ([1], 0)) [([1], 1)] (SQLITE_FAILED 10) ([1], 1)"
    by (simp add: toy_failing_def)
  have c: "conn toy_core = Some ([], 0)" "stmt_cache toy_core = Some empty_cache" by (simp_all add: toy_core_def)
  have two: "[0..<2] = [0, 1 :: nat]" by (simp add: upt_rec)
  have b: "cell_blocks (map (row_at ?L 1 (result_types ?L 1 2 [([1], 1)])) [([1], 1)]) = [B_Cell 0 1]"
    by (simp add: row_at_def result_types_def cell_at_def content_at_def first_type_def toy_failing_def toy_sqlite_def two
        cell_blocks_def owns_block_def)
  show ?thesis
    using sqlite_query_failure_leaks [OF c empty_cache_rel toy_readable(2) r _ n y, of "[]"] b
    by (auto simp: truncated_def snprintf_buf_def toy_failing_def toy_sqlite_def)
qed

text \<open>(C13) Every result a SQLite query returns, whatever memory was available, is well formed: it has as
  many rows and columns as it says, and every cell carries the type of its column with contents of
  that type (or NULL), so the typed accessors read a member that was written.\<close>

theorem sqlite_result_typed:
  assumes "sqlite_query L c sql ps m = Some ((err, Some r), lost, c', m')"
    and "0 \<le> row" and "row < row_count r" and "0 \<le> col" and "col < column_count r"
  shows "err = CORM_OK \<and> (\<exists>v. corm_result_value r row col = Some (Some v) \<and> cell_typed (column_types r ! nat col) v) \<and>
    access_ok r row col"
proof -
  have "sqlite_rows L c sql ps m = Some ((err, Some r), c', m')" using assms(1) by (simp add: sqlite_rows_def)
  from sqlite_typed.read_cell [OF this assms(2-5)] show ?thesis .
qed

theorem sqlite_result_typed_witness:
  "\<exists>r c'. sqlite_query toy_sqlite toy_core ''SELECT 1'' [] [] = Some ((CORM_OK, Some r), [], c', []) \<and> row_count r = 2 \<and>
     (\<exists>v. corm_result_value r 1 1 = Some (Some v) \<and> cell_typed (column_types r ! 1) v)"
proof -
  have "case sqlite_query toy_sqlite toy_core ''SELECT 1'' [] [] of
      Some ((err, Some r), lost, c', m') \<Rightarrow> row_count r = 2 \<and> column_count r = 2 \<and> err = CORM_OK \<and> lost = [] \<and> m' = [] | _ \<Rightarrow> False"
    by code_simp
  then obtain r c' where q: "sqlite_query toy_sqlite toy_core ''SELECT 1'' [] [] = Some ((CORM_OK, Some r), [], c', [])"
    and rc: "row_count r = 2" "column_count r = 2" by (auto split: option.splits prod.splits)
  with sqlite_result_typed [OF q, of 1 1] show ?thesis by auto
qed

text \<open>How SQL reads the rest of a quoted literal: a doubled quote stands for one, a single one ends it.\<close>

fun read_literal :: "string \<Rightarrow> (string \<times> string) option" where
  "read_literal [] = None"
| "read_literal [ch] = (if ch = CHR 0x27 then Some ([], []) else None)"
| "read_literal (ch # d # s) =
     (if ch = CHR 0x27 then
        (if d = CHR 0x27 then map_option (\<lambda>(a, b). (ch # a, b)) (read_literal s) else Some ([], d # s))
      else map_option (\<lambda>(a, b). (ch # a, b)) (read_literal (d # s)))"

lemma read_literal_Cons: "ch \<noteq> CHR 0x27 \<Longrightarrow> read_literal (ch # s) = map_option (\<lambda>(a, b). (ch # a, b)) (read_literal s)"
  by (cases s) simp_all

lemma read_escaped:
  assumes "rest = [] \<or> hd rest \<noteq> CHR 0x27"
  shows "cstring s \<Longrightarrow> read_literal (escape_loop s n @ CHR 0x27 # rest) = Some (take n s, rest)"
proof (induction s n rule: escape_loop.induct)
  case (1 ch s n)
  then show ?case by (cases "ch = CHR 0x27") (auto simp: read_literal_Cons)
qed (cases rest; use assms in auto)+

lemma length_escaped: "cstring s \<Longrightarrow> length (escape_loop s n) = length (take n s) + count_char (CHR 0x27) (take n s)"
  by (induction s n rule: escape_loop.induct) auto

text \<open>(C14) Escaping for SQLite: for a source of which \<open>n\<close> characters are given, the text written is as
  long as reported, at most twice the source, and reading it back as the body of a quoted literal gives
  those characters and leaves what follows the closing quote, so no input can end the literal early.\<close>

theorem sqlite_escape_roundtrip:
  assumes "cstring s" and "rest = [] \<or> hd rest \<noteq> CHR 0x27" and "sqlite_escape True s n = (Some e, j)"
  shows "j = length e \<and> j = length (take n s) + count_char (CHR 0x27) (take n s) \<and> j \<le> 2 * n \<and>
    read_literal (e @ CHR 0x27 # rest) = Some (take n s, rest)"
proof -
  from assms(3) have e: "e = escape_loop s n" "j = length e" by (auto simp: sqlite_escape_def)
  have "count_char (CHR 0x27) (take n s) \<le> length (take n s)" by (rule count_le_length)
  moreover have "length (take n s) \<le> n" by simp
  ultimately have "length (take n s) + count_char (CHR 0x27) (take n s) \<le> 2 * n" by linarith
  with e length_escaped [OF assms(1), of n] read_escaped [OF assms(2,1), of n] show ?thesis by simp
qed

theorem sqlite_escape_roundtrip_witness:
  "sqlite_escape True [CHR ''a'', CHR 0x27, CHR '';''] 3 = (Some [CHR ''a'', CHR 0x27, CHR 0x27, CHR '';''], 4) \<and>
   read_literal ([CHR ''a'', CHR 0x27, CHR 0x27, CHR '';''] @ CHR 0x27 # '')'') = Some ([CHR ''a'', CHR 0x27, CHR '';''], '')'')"
proof -
  have s: "cstring [CHR ''a'', CHR 0x27, CHR '';'']" by simp
  have e: "sqlite_escape True [CHR ''a'', CHR 0x27, CHR '';''] 3 = (Some [CHR ''a'', CHR 0x27, CHR 0x27, CHR '';''], 4)"
    by (simp add: sqlite_escape_def eval_nat_numeral)
  from sqlite_escape_roundtrip [OF s _ e, of "'')''"] e show ?thesis by (simp add: eval_nat_numeral)
qed

section \<open>Execution and introspection\<close>

text \<open>SQLite execution (memory available): the parameters are bound in order and the statement is
  stepped once; a row or completion is success and leaves the statement cached, any other code gives
  CORM_ERR_BACKEND with the library's message, and the statement is finalised and leaves the cache.\<close>

theorem sqlite_exec_correct:
  assumes "conn c = Some x" and "stmt_cache c = Some k" and "cache_rel k xs"
    and "stmt_ready L k xs x sql st x1" and "map bind_arg ps = map Some args"
    and "sqlite3_step L st (bind_all L st args 0 x1) = (rc, x2)"
  shows "\<exists>err c' k'. sqlite_exec L c sql ps [] = Some (err, c', []) \<and> stmt_cache c' = Some k' \<and>
    (if rc = SQLITE_DONE \<or> rc = SQLITE_ROW
     then err = CORM_OK \<and> conn c' = Some x2 \<and> err_msg c' = err_msg c \<and> cache_rel k' ((sql, st) # cached_after k xs sql)
     else err = CORM_ERR_BACKEND \<and> conn c' = Some (sqlite3_finalize L st x2) \<and>
       err_msg c' = truncated 512 (sqlite3_errmsg L x2) \<and> cache_rel k' (cached_after k xs sql))"
proof -
  from get_stmt_full [OF assms(2-4)] obtain k' where g: "sqlite_get_stmt L c x sql [] = Some (Some st, c\<lparr>stmt_cache := Some k'\<rparr>, x1, [])"
    "cache_rel k' ((sql, st) # cached_after k xs sql)" by blast
  note bf = sqlite_bind_full [OF assms(5), of L st 0 x1]
  show ?thesis
  proof (cases "rc = SQLITE_DONE \<or> rc = SQLITE_ROW")
    case True
    with g assms(1,6) bf show ?thesis by (auto simp: sqlite_exec_def)
  next
    case False
    let ?c = "corm_set_err_msg (c\<lparr>stmt_cache := Some k'\<rparr>) (sqlite3_errmsg L x2)"
    have "stmt_cache ?c = Some k'" by (simp add: corm_set_err_msg_def)
    from cleanup_full [OF this g(2), of L x2] obtain k2 where
      "sqlite_cleanup_stmt L ?c x2 sql = Some (?c\<lparr>stmt_cache := Some k2\<rparr>, sqlite3_finalize L st x2)" "cache_rel k2 (cached_after k xs sql)" by blast
    with False g(1) assms(1,6) bf show ?thesis by (auto simp: sqlite_exec_def corm_set_err_msg_def)
  qed
qed

theorem sqlite_exec_correct_witness:
  "\<exists>c' k'. sqlite_exec toy_sqlite toy_core ''DELETE FROM t'' [] [] = Some (CORM_OK, c', []) \<and> stmt_cache c' = Some k' \<and>
     cache_rel k' [(''DELETE FROM t'', 1)]"
proof -
  have r: "stmt_ready toy_sqlite empty_cache [] ([], 0) ''DELETE FROM t'' 1 ([1], 0)"
    by (simp add: stmt_ready_def toy_sqlite_def sqlite_finalize_stmt_def empty_cache_def)
  have c: "conn toy_core = Some ([], 0)" "stmt_cache toy_core = Some empty_cache" by (simp_all add: toy_core_def)
  have s: "sqlite3_step toy_sqlite 1 (bind_all toy_sqlite 1 [] 0 ([1], 0)) = (SQLITE_ROW, ([1], 1))" by (simp add: toy_sqlite_def)
  from sqlite_exec_correct [OF c empty_cache_rel r _ s, of "[]"] show ?thesis
    by (auto simp: cached_after_def lru_trim_def empty_cache_def)
qed

definition column_info :: "('c, 's) sqlite_api \<Rightarrow> 's \<Rightarrow> 'c \<Rightarrow> corm_column_info_t" where
  "column_info L st y =
     \<lparr>cname = sqlite3_column_text L y st 1, type_name = sqlite3_column_text L y st 2, col_not_null = sqlite3_column_int L y st 3,
      is_pk = sqlite3_column_int L y st 5, col_default = sqlite3_column_text L y st 4\<rparr>"

lemma describe_full:
  "yields L st x ys rc x' \<Longrightarrow> describe_rows L st x cs cap [] = Some (Some (cs @ map (column_info L st) ys), x', [])"
proof (induction ys arbitrary: x cs cap)
  case Nil
  then show ?case by (subst describe_rows.simps) simp
next
  case (Cons y ys)
  obtain cap1 where g: "grow_array (length cs) cap [] = (cap1, True, [])" by (cases "cap \<le> length cs") (simp_all add: grow_array_def)
  have d: "describe_column L y st [] = (column_info L st y, [])"
    by (simp add: describe_column_def strdup_opt_def column_info_def split: option.split)
  from Cons.prems have "sqlite3_step L st x = (SQLITE_ROW, y)" "yields L st y ys rc x'" by simp_all
  with Cons.IH [of y "cs @ [column_info L st y]" cap1] g d show ?case by (subst describe_rows.simps) simp
qed

text \<open>Describing a SQLite table (memory available): one entry per row of PRAGMA table_info, in order,
  and the statement is finalised. The code that ends the rows is not looked at: when the library fails
  half way the call still returns CORM_OK, with the columns read so far.\<close>

theorem sqlite_describe_correct:
  assumes "conn c = Some x" and "sqlite3_mprintf_w L t = Some q"
    and "sqlite3_prepare_v2 L x (snprintf_buf 512 (''PRAGMA table_info('' @ q @ '')'')) = ((SQLITE_OK, Some st), x1)"
    and "yields L st x1 ys rc x2"
  shows "sqlite_describe_table L c t [] =
    Some ((CORM_OK, Some (map (column_info L st) ys)), c\<lparr>conn := Some (sqlite3_finalize L st x2)\<rparr>, [])"
  using assms describe_full [OF assms(4), of "[]" 16] by (simp add: sqlite_describe_table_def Let_def)

theorem sqlite_describe_correct_witness:
  "\<exists>c' ci. sqlite_describe_table toy_failing toy_core ''t'' [] = Some ((CORM_OK, Some [ci]), c', []) \<and> cname ci = Some ''ann''"
proof -
  have c: "conn toy_core = Some ([], 0)" by (simp add: toy_core_def)
  have m: "sqlite3_mprintf_w toy_failing ''t'' = Some ''t''" by (simp add: toy_failing_def toy_sqlite_def)
  have p: "sqlite3_prepare_v2 toy_failing ([], 0) (snprintf_buf 512 (''PRAGMA table_info('' @ ''t'' @ '')'')) = ((SQLITE_OK, Some 1), ([1], 0))"
    by (simp add: toy_failing_def toy_sqlite_def)
  have y: "yields toy_failing 1 ([1], 0) [([1], 1)] (SQLITE_FAILED 10) ([1], 1)" by (simp add: toy_failing_def)
  from sqlite_describe_correct [OF c m p y] show ?thesis
    by (auto simp: column_info_def toy_failing_def toy_sqlite_def)
qed

end
