(* ===== verification/Sqlite_Records.thy ===== *)
theory Sqlite_Records
  imports Record_Roundtrip Sqlite_Results
begin

text \<open>
  Records over the SQLite driver: \<^verbatim>\<open>corm_first\<close> through every layer, and what becomes of a
  record that is written with \<^verbatim>\<open>corm_create\<close> and read back.
\<close>

section \<open>Reading a record through the SQLite driver\<close>

lemma backend_query_full:
  assumes "answers_with L c sql ps xs st n ys x2"
  shows "\<exists>k'. b_query (sqlite3_backend L) c sql ps [] =
      ((CORM_OK, Some (query_result L st n ys x2)), c\<lparr>stmt_cache := Some k', conn := Some x2\<rparr>, [])"
proof -
  from rows_full [OF assms] show ?thesis by (auto simp: sqlite3_backend_def)
qed

lemma query_result_count: "row_count (query_result L st n ys x) = int (length ys)"
  by (simp add: query_result_def)

lemma sqlite_first_full:
  assumes "query_wf q" and "valid_model (qmodel q)" and "names_ok (qmodel q)" and "after_find (qmodel q) = None"
    and "flat_layout (model_fields (qmodel q)) rec"
    and "answers_with L c (sql_of (query_bt q) (find_query (q\<lparr>limit := 1, offset := 0\<rparr>))) (param_values q) xs st n ys x2"
    and "ys \<noteq> [] \<longrightarrow> row_for (model_fields (qmodel q)) (query_result L st n ys x2) 0"
  shows "\<exists>err rec' c' q'. corm_first (sqlite3_backend L) c q rec as [] = Some (err, rec', c', q', []) \<and>
    conn c' = Some x2 \<and>
    calls c' = calls c @ [Ev_Query (sql_of (query_bt q) (find_query (q\<lparr>limit := 1, offset := 0\<rparr>))) (param_values q) CORM_OK] \<and>
    (if ys = [] then err = CORM_ERR_NOTFOUND \<and> rec' = rec
     else err = CORM_OK \<and> filled (model_fields (qmodel q)) (query_result L st n ys x2) 0 rec rec')"
proof -
  let ?r = "query_result L st n ys x2"
  from backend_query_full [OF assms(6)] obtain k' where
    b: "b_query (sqlite3_backend L) c (first_sql q) (param_values q) [] = ((CORM_OK, Some ?r), c\<lparr>stmt_cache := Some k', conn := Some x2\<rparr>, [])"
    by blast
  have "row_count ?r \<noteq> 0 \<longrightarrow> row_for (model_fields (qmodel q)) ?r 0" using assms(7) by (auto simp: query_result_count)
  from first_through [OF assms(1-5) b this, of as] obtain err rec' c1 q' where
    f: "corm_first (sqlite3_backend L) c q rec as [] = Some (err, rec', c1, q', [])"
      "c1 = logged c (Ev_Query (first_sql q) (param_values q) CORM_OK) (c\<lparr>stmt_cache := Some k', conn := Some x2\<rparr>)"
      "if row_count ?r = 0 then err = CORM_ERR_NOTFOUND \<and> rec' = rec else err = CORM_OK \<and> filled (model_fields (qmodel q)) ?r 0 rec rec'"
    by (elim exE conjE)
  from f(2) have "conn c1 = Some x2" "calls c1 = calls c @ [Ev_Query (first_sql q) (param_values q) CORM_OK]"
    by (simp_all add: logged_def)
  with f(1,3) show ?thesis
    by (intro exI [of _ err] exI [of _ rec'] exI [of _ c1] exI [of _ q']) (simp add: query_result_count)
qed

text \<open>The users of the example, read with the small client library: two rows, the first (10, 'ann').\<close>

definition users_result :: corm_result_t where
  "users_result = query_result toy_sqlite 1 2 [([1], 1), ([1], 2)] ([1], 2)"

lemma users_result_eq:
  "users_result = \<lparr>column_count = 2, column_names = [Some ''id'', Some ''name''], column_types = [CORM_INT64, CORM_TEXT],
     rows = Some [[\<lparr>vtype = CORM_INT64, is_null = False, uval = VI 10\<rparr>, \<lparr>vtype = CORM_TEXT, is_null = False, uval = VS (Some ''ann'')\<rparr>],
       [\<lparr>vtype = CORM_INT64, is_null = False, uval = VI 20\<rparr>, \<lparr>vtype = CORM_TEXT, is_null = True, uval = VZero\<rparr>]],
     row_count = 2, current_row = -1, refcount = 1\<rparr>"
proof -
  have two: "[0..<2] = [0, 1 :: nat]" by (simp add: upt_rec)
  show ?thesis
    by (simp add: users_result_def query_result_def row_at_def result_types_def cell_at_def content_at_def first_type_def
        toy_sqlite_def two)
qed

lemma users_answer: "answers_with toy_sqlite toy_core sql [] [] 1 2 [([1], 1), ([1], 2)] ([1], 2)"
proof -
  have r: "stmt_ready toy_sqlite empty_cache [] ([], 0) sql 1 ([1], 0)"
    by (simp add: stmt_ready_def toy_sqlite_def sqlite_finalize_stmt_def empty_cache_def)
  have n: "sqlite3_column_count toy_sqlite (bind_all toy_sqlite 1 [] 0 ([1], 0)) 1 = int 2" by (simp add: toy_sqlite_def)
  have y: "yields toy_sqlite 1 (bind_all toy_sqlite 1 [] 0 ([1], 0)) [([1], 1), ([1], 2)] SQLITE_DONE ([1], 2)"
    by (simp add: toy_sqlite_def)
  have c: "conn toy_core = Some ([], 0)" "stmt_cache toy_core = Some empty_cache" by (simp_all add: toy_core_def)
  show ?thesis unfolding answers_with_def
    by (intro exI [of _ "([], 0)"] exI [of _ empty_cache] exI [of _ "([1], 0)"] exI [of _ "[]"] conjI c empty_cache_rel
        toy_readable(1) r n y) simp
qed

lemma users_row: "row_for user_fields users_result 0"
  by (auto simp: row_for_def result_wf_def users_result_eq user_fields_def CORM_FIELD_def field_name_def less_2_cases_iff)

text \<open>(C9) Reading one record through every layer (memory available, no \<^verbatim>\<open>after_find\<close> hook, members
  without pointers): \<^verbatim>\<open>corm_first\<close> on a SQLite connection builds the filtered SELECT with limit 1,
  sends it once with the query's parameters, and fills the record from the first row the statement
  yields -- each member with a column of its name takes what its C type keeps of the cell (a NULL string
  or blob leaves it alone), the others keep their value. If the statement yields no row the call gives CORM_ERR_NOTFOUND and the record is
  unchanged.\<close>

theorem sqlite_first_reads_row:
  assumes "query_wf q" and "valid_model (qmodel q)" and "names_ok (qmodel q)" and "after_find (qmodel q) = None"
    and "flat_layout (model_fields (qmodel q)) rec"
    and "answers_with L c (sql_of (query_bt q) (find_query (q\<lparr>limit := 1, offset := 0\<rparr>))) (param_values q) xs st n ys x2"
    and "ys \<noteq> [] \<longrightarrow> row_for (model_fields (qmodel q)) (query_result L st n ys x2) 0"
  shows "\<exists>err rec' c' q'. corm_first (sqlite3_backend L) c q rec as [] = Some (err, rec', c', q', []) \<and>
    conn c' = Some x2 \<and>
    calls c' = calls c @ [Ev_Query (sql_of (query_bt q) (find_query (q\<lparr>limit := 1, offset := 0\<rparr>))) (param_values q) CORM_OK] \<and>
    (if ys = [] then err = CORM_ERR_NOTFOUND \<and> rec' = rec
     else err = CORM_OK \<and> filled (model_fields (qmodel q)) (query_result L st n ys x2) 0 rec rec')"
  using assms by (rule sqlite_first_full)

theorem sqlite_first_reads_row_witness:
  "\<exists>q rec' c' q'. query_for (sqlite3_backend toy_sqlite) user_model [] = (Some q, []) \<and>
     corm_first (sqlite3_backend toy_sqlite) toy_core q (zeroed 76) [] [] = Some (CORM_OK, rec', c', q', []) \<and>
     corm_field_get_value rec' (user_fields ! 0) = Some (mk_value CORM_INT (VI 10)) \<and>
     corm_field_get_value rec' (user_fields ! 1) = Some (mk_value CORM_STRING (VS (Some ''ann''))) \<and>
     corm_field_get_value rec' (user_fields ! 2) = Some (mk_value CORM_INT (VI 0))"
proof -
  obtain q where q: "query_for (sqlite3_backend toy_sqlite) user_model [] = (Some q, [])" "query_wf q" "qmodel q = user_model"
    "params q = []" by (rule query_for_full)
  have p: "param_values q = []" using q(4) by (simp add: param_values_def)
  have r: "query_result toy_sqlite 1 2 [([1], 1), ([1], 2)] ([1], 2) = users_result" by (simp add: users_result_def)
  from sqlite_first_reads_row [OF q(2), of "zeroed 76" toy_sqlite toy_core "[]" 1 2 "[([1], 1), ([1], 2)]" "([1], 2)" "[]"]
    users_answer users_row user_layout example_valid(1) example_names_ok(1) example_hooks(1)
  obtain rec' c' q' where
    f: "corm_first (sqlite3_backend toy_sqlite) toy_core q (zeroed 76) [] [] = Some (CORM_OK, rec', c', q', [])"
      "filled user_fields users_result 0 (zeroed 76) rec'"
    unfolding q(3) p r by auto
  have z: "corm_field_get_value (zeroed 76) (user_fields ! 2) = Some (mk_value CORM_INT (VI 0))"
    by (simp add: corm_field_get_value_def load_bytes_def zeroed_def user_fields_def CORM_FIELD_def eval_nat_numeral)
  from f(2) have "corm_field_get_value rec' (user_fields ! 0) = Some (mk_value CORM_INT (VI (signed_take_bit 31 10)))"
    "corm_field_get_value rec' (user_fields ! 1) = Some (mk_value CORM_STRING (VS (Some ''ann'')))"
    "corm_field_get_value rec' (user_fields ! 2) = corm_field_get_value (zeroed 76) (user_fields ! 2)"
    by (simp_all add: filled_def taken_def leaves_def users_result_eq user_fields_def CORM_FIELD_def field_name_def numeral_2_eq_2 All_less_Suc)
  with f(1) q(1) z show ?thesis by auto
qed

section \<open>A record written and read back\<close>

text \<open>Cell \<open>i\<close> of the row the statement is at holds a value as it was bound: SQLite keeps the storage
  class and the contents.\<close>

definition cell_holds :: "('c, 's) sqlite_api \<Rightarrow> 'c \<Rightarrow> 's \<Rightarrow> int \<Rightarrow> sqlite_arg \<Rightarrow> bool" where
  "cell_holds L y st i a \<longleftrightarrow>
     (case a of
        Bind_int64 w \<Rightarrow> sqlite3_column_type L y st i = SQLITE_INTEGER \<and> sqlite3_column_int64 L y st i = w
      | Bind_int n \<Rightarrow> sqlite3_column_type L y st i = SQLITE_INTEGER \<and> sqlite3_column_int64 L y st i = scast n
      | Bind_double w \<Rightarrow> sqlite3_column_type L y st i = SQLITE_FLOAT \<and> sqlite3_column_double L y st i = w
      | Bind_text (Some s) \<Rightarrow> sqlite3_column_type L y st i = SQLITE_TEXT \<and> sqlite3_column_text L y st i = Some s
      | Bind_blob (Some d) n \<Rightarrow> sqlite3_column_type L y st i = SQLITE_BLOB \<and> sqlite3_column_bytes L y st i = sint n \<and>
          sqlite3_column_blob L y st i = Some d
      | _ \<Rightarrow> sqlite3_column_type L y st i = SQLITE_NULL)"

text \<open>The row has one column per member, each holding what was bound for the member; the key column of an
  auto-increment member holds a number the database chose.\<close>

definition row_saved ::
  "('c, 's) sqlite_api \<Rightarrow> 's \<Rightarrow> nat \<Rightarrow> 'c \<Rightarrow> 'c \<Rightarrow> corm_field_t list \<Rightarrow> c_struct \<Rightarrow> 64 word \<Rightarrow> bool" where
  "row_saved L st n x y fs rec key \<longleftrightarrow>
     distinct (map (\<lambda>j. sqlite3_column_name L x st (int j)) [0..<n]) \<and>
     (\<forall>f\<in>set fs. \<exists>j<n. sqlite3_column_name L x st (int j) = Some (field_name f) \<and>
        cell_holds L y st (int j) (the (bind_arg (stored_value rec key f))))"

definition sqlite_saved ::
  "('c, 's) sqlite_api \<Rightarrow> ('c, 's) conn_core \<Rightarrow> string \<Rightarrow> corm_value_t list \<Rightarrow> corm_field_t list \<Rightarrow> c_struct \<Rightarrow> 64 word \<Rightarrow> bool" where
  "sqlite_saved L c sql ps fs rec key \<longleftrightarrow>
     (\<exists>xs st n y ys x. answers_with L c sql ps xs st n (y # ys) x \<and> row_saved L st n x y fs rec key)"

lemma low_bool_int: "low_bool (scast (if b then 1 else 0 :: 32 word)) = Some b"
  by (simp add: low_bool_def)

text \<open>One member, from the struct into a cell and back.\<close>

lemmas cell_simps = cell_holds_def cell_at_def first_type_def content_at_def bind_arg_def gives_back_def

lemma column_gives_back:
  assumes "flat_layout fs rec" and "keys_numeric fs" and "f \<in> set fs" and "\<not> has_flag f CORM_FLAG_AUTOINC \<longrightarrow> storable rec f"
    and "cell_holds L y st i (the (bind_arg (stored_value rec key f)))"
  shows "gives_back f (uval (cell_at L y st i (first_type (sqlite3_column_type L y st i)))) (expected rec key f)"
proof (cases "has_flag f CORM_FLAG_AUTOINC")
  case True
  with assms(2,3,5) show ?thesis by (auto simp: stored_value_def expected_def keys_numeric_def cell_simps)
next
  case False
  have l: "Struct_Access.fits rec f" "terminated rec f" "ftype f \<noteq> CORM_TEXT" using assms(1,3) by (auto simp: flat_layout_def)
  from False assms(4) have "storable rec f" by simp
  from l this show ?thesis
  proof (cases rule: storable_cases)
    case (bool b)
    with assms(5) False low_bool_int [of b] show ?thesis by (auto simp: stored_value_def expected_def cell_simps)
  qed (use assms(5) False in \<open>auto simp: stored_value_def expected_def cell_simps\<close>)
qed

lemma saved_row:
  assumes "flat_layout fs rec" and "keys_numeric fs" and "\<forall>f\<in>set fs. \<not> has_flag f CORM_FLAG_AUTOINC \<longrightarrow> storable rec f"
    and "row_saved L st n x y fs rec key" and "columns_readable L"
  shows "row_of_record fs (query_result L st n (y # ys) x) rec key"
proof -
  let ?r = "query_result L st n (y # ys) x" and ?name = "\<lambda>j. sqlite3_column_name L x st (int j)"
  have names: "column_names ?r = map ?name [0..<n]" "column_count ?r = int n" by (simp_all add: query_result_def)
  have "?name j \<noteq> None" for j using assms(5) by (simp add: columns_readable_def)
  then have "None \<notin> set (column_names ?r)" unfolding names by (metis (no_types, lifting) imageE set_map)
  moreover have "result_wf ?r" "0 < row_count ?r"
    by (simp_all add: result_wf_def query_result_def row_at_def result_types_def)
  moreover have "the (rows ?r) ! 0 ! j = cell_at L y st (int j) (first_type (sqlite3_column_type L y st (int j)))" if "j < n" for j
    using that by (simp add: query_result_def row_at_def result_types_def)
  then have "\<exists>j<nat (column_count ?r). column_names ?r ! j = Some (field_name f) \<and>
      gives_back f (uval (the (rows ?r) ! 0 ! j)) (expected rec key f)" if "f \<in> set fs" for f
    using assms(3,4) column_gives_back [OF assms(1,2) that] that unfolding names row_saved_def by fastforce
  ultimately show ?thesis using assms(4) by (simp add: row_of_record_def row_saved_def names)
qed

interpretation sqlite_store: record_store "sqlite3_backend L" "sqlite_saved L" for L
proof
  fix fs rec c sql ps key
  assume a: "flat_layout fs rec" "keys_numeric fs" "\<forall>f\<in>set fs. \<not> has_flag f CORM_FLAG_AUTOINC \<longrightarrow> storable rec f"
    "sqlite_saved L c sql ps fs rec key"
  then obtain xs st n y ys x where w: "answers_with L c sql ps xs st n (y # ys) x" "row_saved L st n x y fs rec key"
    by (auto simp: sqlite_saved_def)
  from w(1) have "columns_readable L" by (auto simp: answers_with_def)
  from saved_row [OF a(1-3) w(2) this] backend_query_full [OF w(1)] show
    "\<exists>r c'. b_query (sqlite3_backend L) c sql ps [] = ((CORM_OK, Some r), c', []) \<and> row_of_record fs r rec key" by blast
qed

text \<open>(C6) A record survives a SQLite database (memory available, no hooks, members without pointers):
  \<^verbatim>\<open>corm_create\<close> sends one INSERT whose parameters are the values of the members; and whenever
  later the statement of a \<^verbatim>\<open>corm_first\<close> on the model yields a row that holds these values as the
  driver bound them, each in the column of its member, the record it fills has the same value in every
  member -- integers, booleans, texts, floating-point numbers and blobs, bound and read through different
  SQLite types --, and the auto-increment member holds the number the database chose.\<close>

theorem sqlite_record_roundtrip:
  assumes "record_ready q q2 rec rec0" and "sqlite_saved L c2 (first_sql q2) (param_values q2) (model_fields (qmodel q)) rec key"
  shows "record_kept (sqlite3_backend L) c q rec c2 q2 rec0 as key"
  using assms by (rule sqlite_store.keeps_record)

definition ann_sqlite :: "(toy, nat) sqlite_api" where
  "ann_sqlite = toy_sqlite\<lparr>sqlite3_column_count := (\<lambda>x s. 4),
     sqlite3_column_name := (\<lambda>x s i. Some (if i = 0 then ''id'' else if i = 1 then ''name'' else if i = 2 then ''age'' else ''score'')),
     sqlite3_column_type := (\<lambda>x s i. if i = 1 then SQLITE_TEXT else if i = 3 then SQLITE_FLOAT else SQLITE_INTEGER),
     sqlite3_column_int64 := (\<lambda>x s i. if i = 0 then 7 else 30), sqlite3_column_double := (\<lambda>x s i. 0x4057E00000000000)\<rparr>"

lemma ann_answer: "answers_with ann_sqlite toy_core sql [] [] 1 4 [([1], 1), ([1], 2)] ([1], 2)"
proof -
  have r: "stmt_ready ann_sqlite empty_cache [] ([], 0) sql 1 ([1], 0)"
    by (simp add: stmt_ready_def ann_sqlite_def toy_sqlite_def sqlite_finalize_stmt_def empty_cache_def)
  have n: "sqlite3_column_count ann_sqlite (bind_all ann_sqlite 1 [] 0 ([1], 0)) 1 = int 4" by (simp add: ann_sqlite_def)
  have y: "yields ann_sqlite 1 (bind_all ann_sqlite 1 [] 0 ([1], 0)) [([1], 1), ([1], 2)] SQLITE_DONE ([1], 2)"
    by (simp add: ann_sqlite_def toy_sqlite_def)
  have c: "conn toy_core = Some ([], 0)" "stmt_cache toy_core = Some empty_cache" by (simp_all add: toy_core_def)
  have l: "columns_readable ann_sqlite" by (simp add: columns_readable_def ann_sqlite_def toy_sqlite_def)
  show ?thesis unfolding answers_with_def
    by (intro exI [of _ "([], 0)"] exI [of _ empty_cache] exI [of _ "([1], 0)"] exI [of _ "[]"] conjI c empty_cache_rel l r n y) simp
qed

lemma ann_saved: "sqlite_saved ann_sqlite toy_core sql [] user_fields ann 7"
proof -
  have four: "[0..<4] = [0, 1, 2, 3 :: nat]" by (simp add: upt_rec)
  have "sqlite3_column_name ann_sqlite ([1], 2) 1 (int i) = Some (field_name (user_fields ! i)) \<and>
      cell_holds ann_sqlite ([1], 1) 1 (int i) (the (bind_arg (stored_value ann 7 (user_fields ! i))))" if "i < 4" for i
    using that ann_stored ann_names unfolding less_4 by (elim disjE) (simp_all add: ann_sqlite_def toy_sqlite_def cell_holds_def bind_arg_def)
  then have "\<exists>j<4. sqlite3_column_name ann_sqlite ([1], 2) 1 (int j) = Some (field_name f) \<and>
      cell_holds ann_sqlite ([1], 1) 1 (int j) (the (bind_arg (stored_value ann 7 f)))" if "f \<in> set user_fields" for f
    using user_members [OF that] by blast
  moreover have "distinct (map (\<lambda>j. sqlite3_column_name ann_sqlite ([1], 2) 1 (int j)) [0..<4])"
    by (simp add: four ann_sqlite_def)
  ultimately have "row_saved ann_sqlite 1 4 ([1], 2) ([1], 1) user_fields ann 7" by (simp add: row_saved_def)
  with ann_answer show ?thesis unfolding sqlite_saved_def by blast
qed

theorem sqlite_record_roundtrip_witness:
  "\<exists>q err id c1 q1 m1 rec' c3 q3. query_for (sqlite3_backend ann_sqlite) user_model [] = (Some q, []) \<and>
     corm_create (sqlite3_backend ann_sqlite) toy_core q ann True [] = Some (err, id, ann, c1, q1, m1) \<and>
     corm_first (sqlite3_backend ann_sqlite) toy_core q (zeroed 76) [] [] = Some (CORM_OK, rec', c3, q3, []) \<and>
     corm_field_get_value rec' (user_fields ! 0) = Some (mk_value CORM_INT (VI 7)) \<and>
     corm_field_get_value rec' (user_fields ! 1) = Some (mk_value CORM_STRING (VS (Some ''ann''))) \<and>
     corm_field_get_value rec' (user_fields ! 3) = Some (mk_value CORM_FLOAT (VF 0x4057E00000000000))"
proof -
  obtain q where q: "query_for (sqlite3_backend ann_sqlite) user_model [] = (Some q, [])" "query_wf q" "qmodel q = user_model"
    "params q = []" by (rule query_for_full)
  have s: "sqlite_saved ann_sqlite toy_core (first_sql q) (param_values q) (model_fields (qmodel q)) ann 7"
    using ann_saved q(3,4) by (simp add: param_values_def)
  from ann_kept [OF sqlite_record_roundtrip [OF ann_ready [OF q(2,3,4)] s] q(3)] q(1) show ?thesis by blast
qed

end
