(* ===== verification/Dsn.thy ===== *)
theory Dsn
  imports Corm_Prelude
begin

text \<open>
  Parsing of \<^verbatim>\<open>[user[:pass]@][host][:port][/dbname]\<close>, the same code in
  \<^verbatim>\<open>mysql_open\<close> (\<^verbatim>\<open>src/backend/mysql.c\<close>) and \<^verbatim>\<open>pg_open\<close>
  (\<^verbatim>\<open>src/backend/postgres.c\<close>) with other defaults. The fixed arrays are character lists of
  their size; a write past an array, or reading one without a terminator, is \<open>None\<close>. So is a
  source of 1023 characters or more: its copy has no terminator.
\<close>

section \<open>The C library functions used\<close>

text \<open>\<^verbatim>\<open>strncpy(dst, src, n)\<close> writes exactly \<open>n\<close> characters, padding with terminators.\<close>

definition strncpy :: "string \<Rightarrow> string \<Rightarrow> nat \<Rightarrow> string option" where
  "strncpy dst src n = (if n > length dst then None else Some (take n (src @ replicate n NUL) @ drop n dst))"

definition char_array :: "nat \<Rightarrow> string \<Rightarrow> string" where
  "char_array n s = s @ replicate (n - length s) NUL"

definition cstr_of :: "string \<Rightarrow> string option" where
  "cstr_of b = (if NUL \<in> set b then Some (takeWhile (\<lambda>ch. ch \<noteq> NUL) b) else None)"

definition is_space :: "char \<Rightarrow> bool" where
  "is_space ch \<longleftrightarrow> ch \<in> {CHR 0x20, CHR 0x09, CHR 0x0A, CHR 0x0B, CHR 0x0C, CHR 0x0D}"

definition is_digit :: "char \<Rightarrow> bool" where
  "is_digit ch \<longleftrightarrow> ch \<in> set ''0123456789''"

text \<open>The number at the start of a string: white space, a sign, digits.\<close>

definition scan_int :: "string \<Rightarrow> int" where
  "scan_int s =
     (let s1 = dropWhile is_space s in
      case s1 of
        [] \<Rightarrow> 0
      | ch # s2 \<Rightarrow>
          if ch = CHR ''-'' then - int (undec (takeWhile is_digit s2))
          else if ch = CHR ''+'' then int (undec (takeWhile is_digit s2))
          else int (undec (takeWhile is_digit s1)))"

text \<open>\<^verbatim>\<open>atoi\<close> has no defined value outside the range of \<^verbatim>\<open>int\<close>;
  \<^verbatim>\<open>strtoll\<close> stops at the bounds of its type.\<close>

definition c_atoi :: "string \<Rightarrow> int option" where
  "c_atoi s = (let v = scan_int s in if - (2 ^ 31) \<le> v \<and> v < 2 ^ 31 then Some v else None)"

definition c_strtoll :: "string \<Rightarrow> 64 word" where
  "c_strtoll s = word_of_int (max (- (2 ^ 63)) (min (2 ^ 63 - 1) (scan_int s)))"

section \<open>The parser\<close>

record dsn_parts =
  dsn_user :: string
  dsn_pass :: string
  dsn_host :: string
  dsn_port :: int
  dsn_dbname :: string

text \<open>User and password as C strings, and the rest of the source.\<close>

definition parse_userinfo :: "string \<Rightarrow> string \<Rightarrow> (string \<times> string \<times> string) option" where
  "parse_userinfo user0 buf =
     (case strchr_split (CHR 0x40) buf of
        None \<Rightarrow> Some (user0, [], buf)
      | Some (u, p) \<Rightarrow>
     (case strchr_split (CHR '':'') u of
        Some (a, b) \<Rightarrow>
          Option.bind (strncpy (char_array 256 user0) a (length a)) (\<lambda>user.
          Option.bind (strncpy (char_array 256 []) b 255) (\<lambda>pass.
          Option.bind (cstr_of user) (\<lambda>us.
          Option.bind (cstr_of pass) (\<lambda>ps. Some (us, ps, p)))))
      | None \<Rightarrow>
          Option.bind (strncpy (char_array 256 user0) u 255) (\<lambda>user.
          Option.bind (cstr_of user) (\<lambda>us. Some (us, [], p)))))"

text \<open>Host, port and database name.\<close>

definition parse_hostinfo :: "string \<Rightarrow> int \<Rightarrow> string \<Rightarrow> (string \<times> int \<times> string) option" where
  "parse_hostinfo host0 port0 p =
     (case strchr_split (CHR ''/'') p of
        Some (h, d) \<Rightarrow>
          Option.bind (strncpy (char_array 256 []) d 255) (\<lambda>dbname.
          Option.bind (if 0 < length h \<and> length h < 256
                       then map_option (\<lambda>b. b[length h := NUL]) (strncpy (char_array 256 host0) h (length h))
                       else Some (char_array 256 host0)) (\<lambda>host.
          Option.bind (cstr_of host) (\<lambda>hs.
          Option.bind (cstr_of dbname) (\<lambda>ds.
            (case strchr_split (CHR '':'') hs of
               Some (h1, prt) \<Rightarrow> map_option (\<lambda>port. (h1, port, ds)) (c_atoi prt)
             | None \<Rightarrow> Some (hs, port0, ds))))))
      | None \<Rightarrow>
     (case strchr_split (CHR '':'') p of
        Some (h1, prt) \<Rightarrow>
          if length h1 > 255 then None
          else
          Option.bind (strncpy (char_array 256 host0) h1 (length h1)) (\<lambda>host.
          Option.bind (cstr_of (host[length h1 := NUL])) (\<lambda>hs. map_option (\<lambda>port. (hs, port, [])) (c_atoi prt)))
      | None \<Rightarrow>
          Option.bind (strncpy (char_array 256 host0) p 255) (\<lambda>host.
          Option.bind (cstr_of host) (\<lambda>hs. Some (hs, port0, [])))))"

definition parse_dsn :: "string \<Rightarrow> string \<Rightarrow> int \<Rightarrow> string \<Rightarrow> dsn_parts option" where
  "parse_dsn user0 host0 port0 dsn =
     (if length dsn \<ge> 1023 then None
      else Option.bind (parse_userinfo user0 dsn) (\<lambda>(us, ps, p).
           map_option (\<lambda>(hs, port, ds). \<lparr>dsn_user = us, dsn_pass = ps, dsn_host = hs, dsn_port = port, dsn_dbname = ds\<rparr>)
             (parse_hostinfo host0 port0 p)))"

section \<open>Lemmas\<close>

lemma length_char_array [simp]: "length s \<le> n \<Longrightarrow> length (char_array n s) = n"
  by (simp add: char_array_def)

lemma takeWhile_cstring: "cstring s \<Longrightarrow> takeWhile (\<lambda>ch. ch \<noteq> NUL) (s @ NUL # t) = s"
  by (induction s) auto

lemma cstr_of_app: "cstring s \<Longrightarrow> cstr_of (s @ NUL # t) = Some s"
  by (simp add: cstr_of_def takeWhile_cstring)

lemma cstr_of_array: "cstring s \<Longrightarrow> length s < n \<Longrightarrow> cstr_of (char_array n s) = Some s"
  by (cases "n - length s") (simp_all add: char_array_def cstr_of_app)

text \<open>A copy with its padding replaces the string; a copy without it leaves the end of the old one.\<close>

lemma strncpy_padded:
  assumes "cstring s" and "length s < n" and "n \<le> length dst"
  shows "Option.bind (strncpy dst s n) cstr_of = Some s"
proof -
  obtain k where k: "n - length s = Suc k" using assms(2) by (metis Suc_diff_Suc)
  have "take n (s @ replicate n NUL) = s @ replicate (n - length s) NUL" using assms(2) by (simp add: min_def)
  then have "strncpy dst s n = Some (s @ NUL # replicate k NUL @ drop n dst)" using assms(3) k by (simp add: strncpy_def)
  with assms(1) show ?thesis by (simp add: cstr_of_app)
qed

lemma strncpy_exact:
  assumes "cstring s" and "cstring old" and "length s < n" and "length old < n"
  shows "Option.bind (strncpy (char_array n old) s (length s)) cstr_of = Some (s @ drop (length s) old)"
proof -
  have "strncpy (char_array n old) s (length s) = Some (s @ drop (length s) (char_array n old))" using assms(3,4)
    by (simp add: strncpy_def)
  moreover obtain k where "drop (length s) (char_array n old) = drop (length s) old @ NUL # replicate k NUL"
  proof -
    have "drop (length s) (char_array n old) = drop (length s) old @ replicate (n - length old - (length s - length old)) NUL"
      by (simp add: char_array_def)
    moreover have "\<exists>k. n - length old - (length s - length old) = Suc k" using assms(3,4) by (intro exI [of _ "n - length old - (length s - length old) - 1"]) linarith
    ultimately show ?thesis using that by (auto)
  qed
  ultimately show ?thesis using assms(1,2) cstr_of_app [of "s @ drop (length s) old"] by simp
qed

lemma strncpy_terminated:
  assumes "cstring s" and "length s < n" and "length old < n"
  shows "Option.bind (map_option (\<lambda>b. b[length s := NUL]) (strncpy (char_array n old) s (length s))) cstr_of = Some s"
proof -
  have "strncpy (char_array n old) s (length s) = Some (s @ drop (length s) (char_array n old))" using assms(2,3)
    by (simp add: strncpy_def)
  moreover obtain d ds where "drop (length s) (char_array n old) = d # ds"
    using assms(2,3) by (cases "drop (length s) (char_array n old)") auto
  ultimately show ?thesis using assms(1) by (simp add: cstr_of_app)
qed

lemma digits_all: "takeWhile is_digit (dec_nat n) = dec_nat n"
  using set_dec_nat [of n] by (simp add: takeWhile_eq_all_conv is_digit_def subset_iff)

lemma scan_dec_nat: "scan_int (dec_nat n) = int n"
proof -
  obtain ch s where d: "dec_nat n = ch # s" by (cases "dec_nat n") auto
  then have ch: "ch \<in> set ''0123456789''" using set_dec_nat [of n] by simp
  then have "\<not> is_space ch" "ch \<noteq> CHR ''-''" "ch \<noteq> CHR ''+''" by (auto simp: is_space_def)
  then show ?thesis using d digits_all [of n] undec_dec_nat [of n] by (simp add: scan_int_def Let_def)
qed

lemma atoi_dec_nat: "n < 2 ^ 31 \<Longrightarrow> c_atoi (dec_nat n) = Some (int n)"
  by (simp add: c_atoi_def scan_dec_nat Let_def)

lemma strtoll_dec_nat: "n < 2 ^ 63 \<Longrightarrow> c_strtoll (dec_nat n) = word_of_nat n"
  by (simp add: c_strtoll_def scan_dec_nat)

text \<open>Printed 64-bit numbers fit the drivers' buffers and read back.\<close>

lemma dec_nat_length: "n < 10 ^ k \<Longrightarrow> 0 < k \<Longrightarrow> length (dec_nat n) \<le> k"
proof (induction k arbitrary: n)
  case (Suc k)
  show ?case
  proof (cases "n < 10")
    case True
    then show ?thesis by (subst dec_nat.simps) simp
  next
    case False
    with Suc.prems have k: "0 < k" by (cases k) auto
    from Suc.prems have "n div 10 < 10 ^ k" by (simp add: div_less_iff_less_mult mult.commute)
    from Suc.IH [OF this k] False show ?thesis by (subst dec_nat.simps) simp
  qed
qed simp

lemma dec_int_length: "\<bar>i\<bar> < 10 ^ k \<Longrightarrow> 0 < k \<Longrightarrow> length (dec_int i) \<le> k + 1"
proof -
  assume a: "\<bar>i\<bar> < 10 ^ k" "0 < k"
  then have "nat \<bar>i\<bar> < 10 ^ k" by (simp add: nat_less_iff)
  from dec_nat_length [OF this a(2)] show ?thesis by (auto simp: dec_int_def)
qed

lemma scan_dec_int: "scan_int (dec_int i) = i"
proof (cases "i < 0")
  case True
  then show ?thesis by (simp add: dec_int_def scan_int_def is_space_def digits_all undec_dec_nat Let_def)
next
  case False
  then show ?thesis using scan_dec_nat [of "nat i"] by (simp add: dec_int_def)
qed

lemma sint_bounds: "- (2 ^ 63) \<le> sint (w :: 64 word)" "sint (w :: 64 word) < 2 ^ 63"
  using sint_ge [of w] sint_lt [of w] by simp_all

lemma printed_int: "snprintf_buf 32 (dec_int (sint (w :: 64 word))) = dec_int (sint w) \<and> c_strtoll (dec_int (sint w)) = w"
proof
  have "\<bar>sint w\<bar> < 10 ^ 20" using sint_bounds [of w] by simp
  from dec_int_length [OF this] show "snprintf_buf 32 (dec_int (sint w)) = dec_int (sint w)" by (simp add: snprintf_buf_def)
  have "max (- (2 ^ 63)) (min (2 ^ 63 - 1) (sint w)) = sint w" using sint_bounds [of w] by simp
  then show "c_strtoll (dec_int (sint w)) = w" by (simp add: c_strtoll_def scan_dec_int)
qed

section \<open>Properties\<close>

lemma bind_cstr:
  "Option.bind (strncpy b s n) (\<lambda>x. Option.bind (cstr_of x) f) = Option.bind (Option.bind (strncpy b s n) cstr_of) f"
  by (simp add: Option.bind_assoc)

lemma userinfo_parsed:
  assumes "cstring user0" and "length user0 < 256" and "cstring a" and "cstring b" and "length a < 256" and "length b < 255"
    and "CHR '':'' \<notin> set a" and "CHR 0x40 \<notin> set a" and "CHR 0x40 \<notin> set b"
  shows "parse_userinfo user0 (a @ CHR '':'' # b @ CHR 0x40 # p) = Some (a @ drop (length a) user0, b, p)"
proof -
  have at: "strchr_split (CHR 0x40) ((a @ CHR '':'' # b) @ CHR 0x40 # p) = Some (a @ CHR '':'' # b, p)"
    by (rule strchr_split_append) (use assms(8,9) in simp)
  have col: "strchr_split (CHR '':'') (a @ CHR '':'' # b) = Some (a, b)" by (rule strchr_split_append [OF assms(7)])
  obtain ub where u: "strncpy (char_array 256 user0) a (length a) = Some ub" "cstr_of ub = Some (a @ drop (length a) user0)"
    using strncpy_exact [OF assms(3,1,5,2)] by (auto simp: bind_eq_Some_conv)
  obtain pb where p: "strncpy (char_array 256 []) b 255 = Some pb" "cstr_of pb = Some b"
    using strncpy_padded [OF assms(4,6), of "char_array 256 []"] by (auto simp: bind_eq_Some_conv)
  from at col u p show ?thesis by (simp add: parse_userinfo_def)
qed

lemma hostinfo_parsed:
  assumes "length host0 < 256" and "cstring h" and "cstring d" and "h \<noteq> []" and "CHR '':'' \<notin> set h" and "CHR ''/'' \<notin> set h"
    and "length (h @ CHR '':'' # dec_nat prt) < 256" and "length d < 255" and "prt < 2 ^ 31"
  shows "parse_hostinfo host0 port0 (h @ CHR '':'' # dec_nat prt @ CHR ''/'' # d) = Some (h, int prt, d)"
proof -
  let ?h = "h @ CHR '':'' # dec_nat prt"
  have sl: "strchr_split (CHR ''/'') (?h @ CHR ''/'' # d) = Some (?h, d)"
    by (rule strchr_split_append) (use assms(6) dec_nat_no_char [of "CHR ''/''" prt] in simp)
  have col: "strchr_split (CHR '':'') ?h = Some (h, dec_nat prt)" by (rule strchr_split_append [OF assms(5)])
  obtain db where d: "strncpy (char_array 256 []) d 255 = Some db" "cstr_of db = Some d"
    using strncpy_padded [OF assms(3,8), of "char_array 256 []"] by (auto simp: bind_eq_Some_conv)
  have "cstring ?h" using assms(2) by simp
  from strncpy_terminated [OF this assms(7,1)] obtain hb where
    h: "map_option (\<lambda>b. b[length ?h := NUL]) (strncpy (char_array 256 host0) ?h (length ?h)) = Some hb" "cstr_of hb = Some ?h"
    by (auto simp: bind_eq_Some_conv)
  have sl': "strchr_split (CHR ''/'') (h @ CHR '':'' # dec_nat prt @ CHR ''/'' # d) = Some (?h, d)" using sl by simp
  have pos: "0 < length ?h" by simp
  show ?thesis
    unfolding parse_hostinfo_def sl' option.case prod.case d(1) Option.bind.bind_lunit
    using pos assms(7) h d(2) col atoi_dec_nat [OF assms(9)] by (simp only: if_P conj_absorb simp_thms Option.bind.bind_lunit option.case prod.case option.map)
qed

text \<open>(C28) Parsing a complete data source name \<^verbatim>\<open>user:pass@host:port/dbname\<close> with parts that fit
  gives back its parts, except the user: the copy of a user name that is followed by a password is not
  terminated, so the end of a longer default name stays behind it.\<close>

theorem dsn_roundtrip:
  assumes "cstring user0" and "length user0 < 256" and "length host0 < 256"
    and "cstring a" and "length a < 256" and "CHR '':'' \<notin> set a" and "CHR 0x40 \<notin> set a"
    and "cstring b" and "length b < 255" and "CHR 0x40 \<notin> set b"
    and "cstring h" and "h \<noteq> []" and "CHR '':'' \<notin> set h" and "CHR ''/'' \<notin> set h"
    and "length (h @ CHR '':'' # dec_nat prt) < 256" and "prt < 2 ^ 31" and "cstring d" and "length d < 255"
    and "length a + length b + length d < 760"
  shows "parse_dsn user0 host0 port0 (a @ CHR '':'' # b @ CHR 0x40 # h @ CHR '':'' # dec_nat prt @ CHR ''/'' # d) =
    Some \<lparr>dsn_user = a @ drop (length a) user0, dsn_pass = b, dsn_host = h, dsn_port = int prt, dsn_dbname = d\<rparr>"
proof -
  have "length (a @ CHR '':'' # b @ CHR 0x40 # h @ CHR '':'' # dec_nat prt @ CHR ''/'' # d) < 1023"
    using assms(15,19) by simp
  with userinfo_parsed [OF assms(1,2,4,8,5,9,6,7,10)] hostinfo_parsed [OF assms(3,11,17,12,13,14,15,18,16)] show ?thesis
    by (simp add: parse_dsn_def)
qed

theorem dsn_roundtrip_witness:
  "parse_dsn ''root'' ''127.0.0.1'' 3306 (''bob'' @ CHR '':'' # ''pw'' @ CHR 0x40 # ''db1'' @ CHR '':'' # dec_nat 3307 @ CHR ''/'' # ''shop'') =
     Some \<lparr>dsn_user = ''bobt'', dsn_pass = ''pw'', dsn_host = ''db1'', dsn_port = 3307, dsn_dbname = ''shop''\<rparr>"
proof -
  have "dec_nat 3307 = ''3307''" by (simp add: dec_nat.simps digit_char_def)
  then have "length (''db1'' @ CHR '':'' # dec_nat 3307) < 256" by simp
  from dsn_roundtrip [of "''root''" "''127.0.0.1''" "''bob''" "''pw''" "''db1''" 3307 "''shop''" 3306, OF _ _ _ _ _ _ _ _ _ _ _ _ _ _ this]
  show ?thesis by simp
qed

end
