(* ===== verification/Pg_Driver.thy ===== *)
theory Pg_Driver
  imports Connection Dsn Typed_Result
begin

text \<open>
  The PostgreSQL driver (\<^verbatim>\<open>src/backend/postgres.c\<close>). The client library \<^verbatim>\<open>libpq\<close> is not
  part of the repository: its functions are a record of arguments, as are the two conversions between
  doubles and text (\<^verbatim>\<open>strtod\<close> and \<^verbatim>\<open>snprintf\<close> with \<^verbatim>\<open>%.15g\<close>). A result
  handle \<open>'r\<close> is a value that the reading functions inspect; \<open>'c\<close> is the connection with the
  database behind it. A call through a NULL pointer, or one with undefined behaviour, is \<open>None\<close>.
\<close>

section \<open>The client library\<close>

datatype pg_status = PGRES_COMMAND_OK | PGRES_TUPLES_OK | PGRES_OTHER int

text \<open>A parameter: NULL, text, or a block of bytes sent in the binary format with its length.\<close>

datatype pg_arg = Pg_Null | Pg_Text string | Pg_Binary "byte list option" int

record ('c, 'r) pg_api =
  PQconnectdb :: "string \<Rightarrow> 'c"
  PQstatus_ok :: "'c \<Rightarrow> bool"
  PQerrorMessage :: "'c \<Rightarrow> string"
  PQexec :: "'c \<Rightarrow> string \<Rightarrow> 'r option \<times> 'c"
  PQexecParams :: "'c \<Rightarrow> string \<Rightarrow> pg_arg list \<Rightarrow> 'r option \<times> 'c"
  PQresultStatus :: "'r \<Rightarrow> pg_status"
  PQcmdTuples :: "'r \<Rightarrow> string option"
  PQntuples :: "'r \<Rightarrow> int"
  PQnfields :: "'r \<Rightarrow> int"
  PQfname :: "'r \<Rightarrow> int \<Rightarrow> string option"
  PQftype :: "'r \<Rightarrow> int \<Rightarrow> nat"
  PQgetisnull :: "'r \<Rightarrow> int \<Rightarrow> int \<Rightarrow> bool"
  PQgetvalue :: "'r \<Rightarrow> int \<Rightarrow> int \<Rightarrow> string option"
  PQunescapeBytea :: "string \<Rightarrow> byte list option"
  PQescapeStringConn :: "'c \<Rightarrow> string \<Rightarrow> nat \<Rightarrow> string"
  strtod :: "string \<Rightarrow> 64 word"
  print_g15 :: "64 word \<Rightarrow> string"

section \<open>Opening, closing, pinging\<close>

text \<open>The connection string: what has been written and the position of the write pointer, which
  advances by the untruncated length. The size given to \<^verbatim>\<open>snprintf\<close> is the space left; once
  the pointer is past the array that difference wraps around.\<close>

definition conninfo_add :: "string \<times> nat \<Rightarrow> string \<Rightarrow> (string \<times> nat) option" where
  "conninfo_add st s =
     (case st of (w, p) \<Rightarrow> if p > 1024 then None else Some (w @ take (1024 - p - 1) s, p + length s))"

definition pg_conninfo :: "dsn_parts \<Rightarrow> string option" where
  "pg_conninfo d =
     Option.bind (conninfo_add ([], 0) (''host='' @ dsn_host d @ '' port='' @ dec_int (dsn_port d))) (\<lambda>s1.
     Option.bind (if dsn_dbname d \<noteq> [] then conninfo_add s1 ('' dbname='' @ dsn_dbname d) else Some s1) (\<lambda>s2.
     Option.bind (if dsn_user d \<noteq> [] then conninfo_add s2 ('' user='' @ dsn_user d) else Some s2) (\<lambda>s3.
     Option.bind (if dsn_pass d \<noteq> [] then conninfo_add s3 ('' password='' @ dsn_pass d) else Some s3) (\<lambda>s4.
     Some (fst s4)))))"

definition pg_dsn :: "string \<Rightarrow> dsn_parts option" where
  "pg_dsn dsn = parse_dsn [] ''localhost'' 5432 dsn"

definition pg_open ::
  "('c, 'r) pg_api \<Rightarrow> ('c, 's) conn_core \<Rightarrow> string \<Rightarrow> mem \<Rightarrow> (corm_err_t \<times> ('c, 's) conn_core \<times> mem) option" where
  "pg_open L c dsn m =
     Option.bind (pg_dsn dsn) (\<lambda>d.
     Option.bind (pg_conninfo d) (\<lambda>ci.
       let x = PQconnectdb L ci in
       Some (if \<not> PQstatus_ok L x then (CORM_ERR_BACKEND, corm_set_err_msg c (PQerrorMessage L x), m)
             else (CORM_OK, c\<lparr>conn := Some x\<rparr>, m))))"

definition pg_close :: "('c, 's) conn_core \<Rightarrow> corm_err_t \<times> ('c, 's) conn_core" where
  "pg_close c = (CORM_OK, case conn c of None \<Rightarrow> c | Some x \<Rightarrow> c\<lparr>conn := None\<rparr>)"

definition pg_ping ::
  "('c, 'r) pg_api \<Rightarrow> ('c, 's) conn_core \<Rightarrow> mem \<Rightarrow> corm_err_t \<times> ('c, 's) conn_core \<times> mem" where
  "pg_ping L c m =
     (case conn c of
        None \<Rightarrow> (CORM_ERR_BACKEND, c, m)
      | Some x \<Rightarrow> (if \<not> PQstatus_ok L x then CORM_ERR_BACKEND else CORM_OK, c, m))"

section \<open>Parameters\<close>

text \<open>The cases that execution and query treat alike.\<close>

definition common_param :: "corm_value_t \<Rightarrow> mem \<Rightarrow> (pg_arg \<times> mem) option" where
  "common_param val m =
     (case vtype val of
        CORM_BOOL \<Rightarrow> map_option (\<lambda>b. (Pg_Text (if b then ''t'' else ''f''), m)) (v_b (uval val))
      | CORM_BLOB \<Rightarrow> map_option (\<lambda>(d, n). (Pg_Binary d (sint (word_of_nat n :: 32 word)), m)) (v_blob (uval val))
      | _ \<Rightarrow> Option.bind (v_s (uval val)) (\<lambda>s. case s of None \<Rightarrow> None | Some t \<Rightarrow> Some (Pg_Text t, m)))"

text \<open>Execution prints numbers; a failed copy of the text is dereferenced.\<close>

definition exec_param :: "('c, 'r) pg_api \<Rightarrow> corm_value_t \<Rightarrow> mem \<Rightarrow> (pg_arg \<times> mem) option" where
  "exec_param L val m =
     (if is_null val then Some (Pg_Null, m)
      else if vtype val \<in> {CORM_INT, CORM_INT64} then
        Option.bind (v_i (uval val)) (\<lambda>w.
          case alloc m of (ok, m1) \<Rightarrow> if ok then Some (Pg_Text (snprintf_buf 32 (dec_int (sint w))), m1) else None)
      else if vtype val \<in> {CORM_FLOAT, CORM_DOUBLE} then
        Option.bind (v_f (uval val)) (\<lambda>w.
          case alloc m of (ok, m1) \<Rightarrow> if ok then Some (Pg_Text (snprintf_buf 64 (print_g15 L w)), m1) else None)
      else common_param val m)"

text \<open>A query sends the bytes of the number as they are in memory (little-endian).\<close>

definition query_param :: "corm_value_t \<Rightarrow> mem \<Rightarrow> (pg_arg \<times> mem) option" where
  "query_param val m =
     (if is_null val then Some (Pg_Null, m)
      else if vtype val \<in> {CORM_INT, CORM_INT64} then
        Option.bind (v_i (uval val)) (\<lambda>w.
          case alloc m of (ok, m1) \<Rightarrow> if ok then Some (Pg_Binary (Some (le_bytes 8 w)) 8, m1) else None)
      else if vtype val \<in> {CORM_FLOAT, CORM_DOUBLE} then
        Option.bind (v_f (uval val)) (\<lambda>w.
          case alloc m of (ok, m1) \<Rightarrow> if ok then Some (Pg_Binary (Some (le_bytes 8 w)) 8, m1) else None)
      else common_param val m)"

fun pg_params :: "(corm_value_t \<Rightarrow> mem \<Rightarrow> (pg_arg \<times> mem) option) \<Rightarrow> corm_value_t list \<Rightarrow> mem \<Rightarrow> (pg_arg list \<times> mem) option" where
  "pg_params f [] m = Some ([], m)"
| "pg_params f (val # vals) m =
     (case f val m of
        None \<Rightarrow> None
      | Some (a, m1) \<Rightarrow> (case pg_params f vals m1 of None \<Rightarrow> None | Some (as, m2) \<Rightarrow> Some (a # as, m2)))"

text \<open>The four arrays: \<open>Some True\<close> when all were allocated. When the last one was not, the clean-up
  reads through its NULL pointer.\<close>

definition pg_arrays :: "mem \<Rightarrow> bool option \<times> mem" where
  "pg_arrays m =
     (case alloc m of (ok1, m1) \<Rightarrow>
     (case alloc m1 of (ok2, m2) \<Rightarrow>
     (case alloc m2 of (ok3, m3) \<Rightarrow>
     (case alloc m3 of (ok4, m4) \<Rightarrow>
        (if ok1 \<and> ok2 \<and> ok3 \<and> ok4 then Some True else if \<not> ok4 then None else Some False, m4)))))"

text \<open>Sending a statement: the error, or the result handle (\<open>None\<close> for NULL).\<close>

definition pg_send ::
  "('c, 'r) pg_api \<Rightarrow> (corm_value_t \<Rightarrow> mem \<Rightarrow> (pg_arg \<times> mem) option) \<Rightarrow> 'c \<Rightarrow> string \<Rightarrow> corm_value_t list \<Rightarrow> mem \<Rightarrow>
     ((corm_err_t + 'r option) \<times> 'c \<times> mem) option" where
  "pg_send L f x sql ps m =
     (if ps \<noteq> [] then
        (case pg_arrays m of
           (None, m1) \<Rightarrow> None
         | (Some False, m1) \<Rightarrow> Some (Inl CORM_ERR_NOMEM, x, m1)
         | (Some True, m1) \<Rightarrow>
             (case pg_params f ps m1 of
                None \<Rightarrow> None
              | Some (as, m2) \<Rightarrow> (case PQexecParams L x sql as of (r, x1) \<Rightarrow> Some (Inr r, x1, m2))))
      else (case PQexec L x sql of (r, x1) \<Rightarrow> Some (Inr r, x1, m)))"

definition pg_success :: "('c, 'r) pg_api \<Rightarrow> 'r option \<Rightarrow> bool" where
  "pg_success L r = (case r of None \<Rightarrow> False | Some q \<Rightarrow> PQresultStatus L q \<in> {PGRES_COMMAND_OK, PGRES_TUPLES_OK})"

section \<open>Executing\<close>

text \<open>The bookkeeping after a statement: affected rows, and the value of a single returned row as the
  last identifier.\<close>

definition pg_account :: "('c, 'r) pg_api \<Rightarrow> 'r \<Rightarrow> ('c, 's) conn_core \<Rightarrow> ('c, 's) conn_core option" where
  "pg_account L q c =
     Option.bind (case PQcmdTuples L q of None \<Rightarrow> Some 0 | Some s \<Rightarrow> c_atoi s) (\<lambda>n.
       let c1 = c\<lparr>rows_affected_val := n\<rparr> in
       Some (if n > 0 \<and> PQntuples L q = 1 \<and> PQnfields L q \<ge> 1 then
               (case PQgetvalue L q 0 0 of
                  None \<Rightarrow> c1
                | Some s \<Rightarrow> if s \<noteq> [] then c1\<lparr>last_insert_id_val := c_strtoll s\<rparr> else c1)
             else c1))"

definition pg_exec ::
  "('c, 'r) pg_api \<Rightarrow> ('c, 's) conn_core \<Rightarrow> string \<Rightarrow> corm_value_t list \<Rightarrow> mem \<Rightarrow>
     (corm_err_t \<times> ('c, 's) conn_core \<times> mem) option" where
  "pg_exec L c sql ps m =
     (case conn c of
        None \<Rightarrow> None
      | Some x \<Rightarrow>
     (case pg_send L (exec_param L) x sql ps m of
        None \<Rightarrow> None
      | Some (Inl err, x1, m1) \<Rightarrow> Some (err, c\<lparr>conn := Some x1\<rparr>, m1)
      | Some (Inr r, x1, m1) \<Rightarrow>
          if \<not> pg_success L r then Some (CORM_ERR_BACKEND, corm_set_err_msg (c\<lparr>conn := Some x1\<rparr>) (PQerrorMessage L x1), m1)
          else map_option (\<lambda>c2. (CORM_OK, c2, m1)) (pg_account L (the r) (c\<lparr>conn := Some x1\<rparr>))))"

section \<open>Querying\<close>

definition pg_type :: "nat \<Rightarrow> corm_field_type_t" where
  "pg_type oid =
     (if oid \<in> {20, 21, 23, 26} then CORM_INT64
      else if oid \<in> {700, 701} then CORM_DOUBLE
      else if oid = 16 then CORM_BOOL
      else if oid = 17 then CORM_BLOB
      else CORM_TEXT)"

fun pg_columns ::
  "('c, 'r) pg_api \<Rightarrow> 'r \<Rightarrow> int \<Rightarrow> nat \<Rightarrow> mem \<Rightarrow> (string option list \<times> corm_field_type_t list \<times> mem) option" where
  "pg_columns L q i 0 m = Some ([], [], m)"
| "pg_columns L q i (Suc n) m =
     (case PQfname L q i of
        None \<Rightarrow> None
      | Some s \<Rightarrow>
          (case alloc m of
             (ok, m1) \<Rightarrow>
               (case pg_columns L q (i + 1) n m1 of
                  None \<Rightarrow> None
                | Some (ns, ts, m2) \<Rightarrow> Some ((if ok then Some s else None) # ns, pg_type (PQftype L q i) # ts, m2))))"

definition pg_content :: "('c, 'r) pg_api \<Rightarrow> string \<Rightarrow> corm_field_type_t \<Rightarrow> mem \<Rightarrow> (corm_union \<times> mem) option" where
  "pg_content L s t m =
     (case t of
        CORM_INT64 \<Rightarrow> Some (VI (c_strtoll s), m)
      | CORM_DOUBLE \<Rightarrow> Some (VF (strtod L s), m)
      | CORM_BOOL \<Rightarrow> Some (VB (s \<noteq> [] \<and> hd s = CHR ''t''), m)
      | CORM_BLOB \<Rightarrow>
          (case PQunescapeBytea L s of
             None \<Rightarrow> None
           | Some d \<Rightarrow> (case alloc m of (ok, m1) \<Rightarrow> Some (if ok then VBlob (Some d) (length d) else VBlob None 0, m1)))
      | _ \<Rightarrow> (case alloc m of (ok, m1) \<Rightarrow> Some (VS (if ok then Some s else None), m1)))"

fun pg_cells ::
  "('c, 'r) pg_api \<Rightarrow> 'r \<Rightarrow> int \<Rightarrow> int \<Rightarrow> corm_field_type_t list \<Rightarrow> mem \<Rightarrow> (corm_value_t list \<times> mem) option" where
  "pg_cells L q row i [] m = Some ([], m)"
| "pg_cells L q row i (t # ts) m =
     (case (if PQgetisnull L q row i then Some (VZero, m)
            else (case PQgetvalue L q row i of None \<Rightarrow> None | Some s \<Rightarrow> pg_content L s t m)) of
        None \<Rightarrow> None
      | Some (u, m1) \<Rightarrow>
          (case pg_cells L q row (i + 1) ts m1 of
             None \<Rightarrow> None
           | Some (cs, m2) \<Rightarrow> Some (\<lparr>vtype = t, is_null = PQgetisnull L q row i, uval = u\<rparr> # cs, m2)))"

fun pg_rows ::
  "('c, 'r) pg_api \<Rightarrow> 'r \<Rightarrow> int \<Rightarrow> nat \<Rightarrow> corm_field_type_t list \<Rightarrow> mem \<Rightarrow> (corm_value_t list list \<times> mem) option" where
  "pg_rows L q row 0 ts m = Some ([], m)"
| "pg_rows L q row (Suc n) ts m =
     (case pg_cells L q row 0 ts m of
        None \<Rightarrow> None
      | Some (cs, m1) \<Rightarrow>
          (case pg_rows L q (row + 1) n ts m1 of None \<Rightarrow> None | Some (rs, m2) \<Rightarrow> Some (cs # rs, m2)))"

definition pg_result :: "('c, 'r) pg_api \<Rightarrow> 'r \<Rightarrow> mem \<Rightarrow> ((corm_err_t \<times> corm_result_t option) \<times> mem) option" where
  "pg_result L q m =
     (case corm_result_new (PQnfields L q) (PQntuples L q) m of
        (None, a, f, m1) \<Rightarrow> Some ((CORM_ERR_NOMEM, None), m1)
      | (Some res, a, f, m1) \<Rightarrow>
     (case pg_columns L q 0 (nat (PQnfields L q)) m1 of
        None \<Rightarrow> None
      | Some (ns, ts, m2) \<Rightarrow>
     (case pg_rows L q 0 (nat (PQntuples L q)) ts m2 of
        None \<Rightarrow> None
      | Some (rs, m3) \<Rightarrow>
          Some ((CORM_OK, Some (res\<lparr>column_names := ns, column_types := ts, rows := map_option (\<lambda>_. rs) (rows res)\<rparr>)), m3))))"

definition pg_query ::
  "('c, 'r) pg_api \<Rightarrow> ('c, 's) conn_core \<Rightarrow> string \<Rightarrow> corm_value_t list \<Rightarrow> mem \<Rightarrow>
     ((corm_err_t \<times> corm_result_t option) \<times> ('c, 's) conn_core \<times> mem) option" where
  "pg_query L c sql ps m =
     (case conn c of
        None \<Rightarrow> None
      | Some x \<Rightarrow>
     (case pg_send L query_param x sql ps m of
        None \<Rightarrow> None
      | Some (Inl err, x1, m1) \<Rightarrow> Some ((err, None), c\<lparr>conn := Some x1\<rparr>, m1)
      | Some (Inr r, x1, m1) \<Rightarrow>
          if \<not> pg_success L r then
            Some ((CORM_ERR_BACKEND, None), corm_set_err_msg (c\<lparr>conn := Some x1\<rparr>) (PQerrorMessage L x1), m1)
          else map_option (\<lambda>(res, m2). (res, c\<lparr>conn := Some x1\<rparr>, m2)) (pg_result L (the r) m1)))"

section \<open>Transactions, escaping, introspection\<close>

definition pg_begin :: "('c, 'r) pg_api \<Rightarrow> ('c, 's) conn_core \<Rightarrow> mem \<Rightarrow> (corm_err_t \<times> ('c, 's) conn_core \<times> mem) option" where
  "pg_begin L c m = pg_exec L c ''BEGIN'' [] m"

definition pg_commit :: "('c, 'r) pg_api \<Rightarrow> ('c, 's) conn_core \<Rightarrow> mem \<Rightarrow> (corm_err_t \<times> ('c, 's) conn_core \<times> mem) option" where
  "pg_commit L c m = pg_exec L c ''COMMIT'' [] m"

definition pg_rollback :: "('c, 'r) pg_api \<Rightarrow> ('c, 's) conn_core \<Rightarrow> mem \<Rightarrow> (corm_err_t \<times> ('c, 's) conn_core \<times> mem) option" where
  "pg_rollback L c m = pg_exec L c ''ROLLBACK'' [] m"

text \<open>The text written and the length returned; without a connection nothing is written and the length
  is the space an escaped string may need.\<close>

definition pg_escape :: "('c, 'r) pg_api \<Rightarrow> ('c, 's) conn_core \<Rightarrow> string \<Rightarrow> nat \<Rightarrow> string option \<times> nat" where
  "pg_escape L c src len =
     (case conn c of
        None \<Rightarrow> (None, len * 2 + 1)
      | Some x \<Rightarrow> (let e = PQescapeStringConn L x src len in (Some e, length e)))"

definition pg_last_id :: "('c, 's) conn_core \<Rightarrow> 64 word" where
  "pg_last_id c = last_insert_id_val c"

definition pg_affected :: "('c, 's) conn_core \<Rightarrow> int" where
  "pg_affected c = (case conn c of None \<Rightarrow> 0 | Some x \<Rightarrow> rows_affected_val c)"

definition pg_describe_sql :: string where
  "pg_describe_sql =
     ''SELECT c.column_name, c.data_type, c.is_nullable,'' @ ''  CASE WHEN pk.col IS NOT NULL THEN 1 ELSE 0 END,'' @
     ''  c.column_default '' @ ''FROM information_schema.columns c '' @ ''LEFT JOIN ('' @ ''  SELECT ku.column_name AS col'' @
     ''  FROM information_schema.table_constraints tc'' @ ''  JOIN information_schema.key_column_usage ku'' @
     ''    ON tc.constraint_name = ku.constraint_name'' @ ''  WHERE tc.table_name = $1'' @
     ''    AND tc.constraint_type = '' @ [CHR 0x27] @ ''PRIMARY KEY'' @ [CHR 0x27] @ '') pk ON c.column_name = pk.col '' @
     ''WHERE c.table_name = $1 '' @ ''ORDER BY c.ordinal_position''"

definition dup :: "string \<Rightarrow> mem \<Rightarrow> string option \<times> mem" where
  "dup s m = (case alloc m of (ok, m1) \<Rightarrow> (if ok then Some s else None, m1))"

definition pg_column :: "('c, 'r) pg_api \<Rightarrow> 'r \<Rightarrow> int \<Rightarrow> mem \<Rightarrow> (corm_column_info_t \<times> mem) option" where
  "pg_column L q i m =
     (case (PQgetvalue L q i 0, PQgetvalue L q i 1, PQgetvalue L q i 2, PQgetvalue L q i 3) of
        (Some v0, Some v1, Some v2, Some v3) \<Rightarrow>
          (case dup v0 m of (n, m1) \<Rightarrow>
          (case dup v1 m1 of (t, m2) \<Rightarrow>
          (case (case PQgetvalue L q i 4 of None \<Rightarrow> (None, m2) | Some d \<Rightarrow> if d \<noteq> [] then dup d m2 else (None, m2)) of (d, m3) \<Rightarrow>
             Some (\<lparr>cname = n, type_name = t, col_not_null = (if v2 = ''NO'' then 1 else 0),
                    is_pk = (if v3 \<noteq> [] \<and> hd v3 = CHR ''1'' then 1 else 0), col_default = d\<rparr>, m3))))
      | _ \<Rightarrow> None)"

fun pg_column_list :: "('c, 'r) pg_api \<Rightarrow> 'r \<Rightarrow> int \<Rightarrow> nat \<Rightarrow> mem \<Rightarrow> (corm_column_info_t list \<times> mem) option" where
  "pg_column_list L q i 0 m = Some ([], m)"
| "pg_column_list L q i (Suc n) m =
     (case pg_column L q i m of
        None \<Rightarrow> None
      | Some (ci, m1) \<Rightarrow> (case pg_column_list L q (i + 1) n m1 of None \<Rightarrow> None | Some (cs, m2) \<Rightarrow> Some (ci # cs, m2)))"

definition pg_describe_table ::
  "('c, 'r) pg_api \<Rightarrow> ('c, 's) conn_core \<Rightarrow> string \<Rightarrow> mem \<Rightarrow>
     ((corm_err_t \<times> corm_column_info_t list option) \<times> ('c, 's) conn_core \<times> mem) option" where
  "pg_describe_table L c tname m =
     (case conn c of
        None \<Rightarrow> Some ((CORM_ERR_BACKEND, None), c, m)
      | Some x \<Rightarrow>
     (case PQexecParams L x pg_describe_sql [Pg_Text tname] of
        (r, x1) \<Rightarrow>
     (case r of
        Some q \<Rightarrow>
          if PQresultStatus L q \<noteq> PGRES_TUPLES_OK then
            Some ((CORM_ERR_BACKEND, None), corm_set_err_msg (c\<lparr>conn := Some x1\<rparr>) (PQerrorMessage L x1), m)
          else
     (case alloc m of
        (ok, m1) \<Rightarrow>
          if \<not> ok \<and> PQntuples L q > 0 then Some ((CORM_ERR_NOMEM, None), c\<lparr>conn := Some x1\<rparr>, m1)
          else map_option (\<lambda>(cs, m2). ((CORM_OK, if ok then Some cs else None), c\<lparr>conn := Some x1\<rparr>, m2))
                 (pg_column_list L q 0 (nat (PQntuples L q)) m1))
      | None \<Rightarrow> Some ((CORM_ERR_BACKEND, None), corm_set_err_msg (c\<lparr>conn := Some x1\<rparr>) (PQerrorMessage L x1), m))))"

section \<open>The function table\<close>

definition postgres_backend :: "('c, 'r) pg_api \<Rightarrow> ('c, 's) corm_backend_t" where
  "postgres_backend L =
     \<lparr>bname = ''postgres'', btype = CORM_BACKEND_POSTGRES, b_open = Some (\<lambda>c dsn m. answered (pg_open L c dsn m) m), b_close = pg_close,
      b_ping = pg_ping L, b_exec = (\<lambda>c sql ps m. answered (pg_exec L c sql ps m) m), b_query = (\<lambda>c sql ps m. answered (pg_query L c sql ps m) m),
      b_begin = (\<lambda>c m. answered (pg_begin L c m) m), b_commit = (\<lambda>c m. answered (pg_commit L c m) m), b_rollback = (\<lambda>c m. answered (pg_rollback L c m) m),
      b_escape_string = (\<lambda>c s. the (fst (pg_escape L c s (length s)))),
      b_last_insert_id = pg_last_id, b_rows_affected = pg_affected,
      b_describe_table = Some (\<lambda>c t m. answered (pg_describe_table L c t m) m)\<rparr>"

text \<open>Without PostgreSQL support every entry is NULL; opening is refused, so nothing else is called.\<close>

definition postgres_stub_backend :: "('c, 's) corm_backend_t" where
  "postgres_stub_backend =
     \<lparr>bname = ''postgres (unavailable)'', btype = CORM_BACKEND_POSTGRES, b_open = None, b_close = undefined,
      b_ping = undefined, b_exec = undefined, b_query = undefined, b_begin = undefined, b_commit = undefined,
      b_rollback = undefined, b_escape_string = undefined, b_last_insert_id = undefined, b_rows_affected = undefined,
      b_describe_table = None\<rparr>"

definition corm_register_postgres_backend ::
  "('c, 'r) pg_api option \<Rightarrow> ('c, 's) corm_backend_t list \<Rightarrow> corm_err_t \<times> ('c, 's) corm_backend_t list" where
  "corm_register_postgres_backend lib gs =
     corm_register_backend gs CORM_BACKEND_POSTGRES
       (case lib of Some L \<Rightarrow> postgres_backend L | None \<Rightarrow> postgres_stub_backend)"

section \<open>The allocator\<close>

text \<open>While memory lasts, every call leaves the allocator as it was.\<close>

lemma exec_param_mem: "exec_param L val [] = Some (a, m1) \<Longrightarrow> m1 = []"
  by (auto simp: exec_param_def common_param_def bind_eq_Some_conv split: corm_field_type_t.splits option.splits if_splits)

lemma pg_params_mem: "(\<And>val a m1. f val [] = Some (a, m1) \<Longrightarrow> m1 = []) \<Longrightarrow> pg_params f ps [] = Some (as, m1) \<Longrightarrow> m1 = []"
proof (induction ps arbitrary: as)
  case (Cons val ps)
  from Cons.prems(2) obtain a m2 as' where "f val [] = Some (a, m2)" "pg_params f ps m2 = Some (as', m1)" by (auto split: option.splits)
  with Cons.prems(1) Cons.IH show ?case by blast
qed simp

lemma pg_send_mem:
  assumes "\<And>val a m1. f val [] = Some (a, m1) \<Longrightarrow> m1 = []" and "pg_send L f x sql ps [] = Some (r, x1, m1)"
  shows "m1 = []"
proof -
  have "m2 = []" if "pg_params f ps [] = Some (as, m2)" for as m2 by (rule pg_params_mem [OF assms(1) that])
  with assms(2) show ?thesis by (auto simp: pg_send_def pg_arrays_def split: option.splits prod.splits if_splits)
qed

lemma pg_exec_mem: "pg_exec L c sql ps [] = Some (err, c', m') \<Longrightarrow> m' = []"
  using pg_send_mem [of "exec_param L", OF exec_param_mem]
  by (auto simp: pg_exec_def split: option.splits sum.splits if_splits)

lemma pg_column_mem: "pg_column L q i [] = Some (ci, m1) \<Longrightarrow> m1 = []"
  by (auto simp: pg_column_def dup_def split: option.splits if_splits)

lemma pg_column_list_mem: "pg_column_list L q i n [] = Some (cs, m1) \<Longrightarrow> m1 = []"
  by (induction n arbitrary: i cs) (auto dest!: pg_column_mem split: option.splits)

lemma pg_describe_mem: "pg_describe_table L c t [] = Some (r, c', m') \<Longrightarrow> m' = []"
  by (auto simp: pg_describe_table_def dest!: pg_column_list_mem split: option.splits prod.splits if_splits)

lemma postgres_keeps_mem: "keeps_mem (postgres_backend L)"
  by (auto simp: keeps_mem_def postgres_backend_def pg_begin_def intro!: answered_mem dest: pg_exec_mem pg_describe_mem)

interpretation postgres: steady_backend "postgres_backend L" for L
  by unfold_locales (rule postgres_keeps_mem)

end
