(* ===== verification/Pg_Results.thy ===== *)
theory Pg_Results
  imports Pg_Driver
begin

text \<open>
  What the calls of the PostgreSQL driver send and return: the connection string, the parameters, the
  decoded rows of a query with their types, and the bookkeeping after a statement.
\<close>

section \<open>The connection string\<close>

lemma cstr_of_length: "cstr_of b = Some s \<Longrightarrow> length s < length b"
proof -
  assume a: "cstr_of b = Some s"
  then have "NUL \<in> set b" by (auto simp: cstr_of_def split: if_splits)
  then obtain u v where b: "b = u @ NUL # v" "NUL \<notin> set u" by (metis split_list_first)
  then have "s = u" using a cstr_of_app [of u v] by (simp add: cstring_def)
  with b show ?thesis by simp
qed

lemma strncpy_length: "strncpy dst s n = Some b \<Longrightarrow> length b = length dst"
  by (auto simp: strncpy_def split: if_splits)

lemma userinfo_fits:
  assumes "parse_userinfo user0 buf = Some (us, ps, p)" and "length user0 < 256"
  shows "length us < 256 \<and> length ps < 256"
  using assms cstr_of_length strncpy_length
  by (fastforce simp: parse_userinfo_def bind_eq_Some_conv split: option.splits)

lemma split_length: "strchr_split ch s = Some (a, b) \<Longrightarrow> length a \<le> length s"
  using strchr_split_Some(1) by fastforce

lemma hostinfo_fits:
  assumes "parse_hostinfo host0 port0 p = Some (hs, port, ds)" and "length host0 < 256" and "\<bar>port0\<bar> \<le> 2 ^ 31"
  shows "length hs < 256 \<and> length ds < 256 \<and> \<bar>port\<bar> \<le> 2 ^ 31"
proof -
  have at: "c_atoi s = Some i \<Longrightarrow> \<bar>i\<bar> \<le> 2 ^ 31" for s i by (auto simp: c_atoi_def Let_def split: if_splits)
  have len: "Option.bind (strncpy (char_array 256 old) s n) cstr_of = Some z \<Longrightarrow> length old < 256 \<Longrightarrow> length z < 256" for old s n z
    using cstr_of_length strncpy_length by (fastforce simp: bind_eq_Some_conv)
  show ?thesis
  proof (cases "strchr_split (CHR ''/'') p")
    case (Some hd')
    obtain h d where hd: "hd' = (h, d)" by fastforce
    with Some assms(1) obtain db host h1 where
      r: "strncpy (char_array 256 []) d 255 = Some db" "cstr_of db = Some ds" "cstr_of host = Some h1" "length host = 256"
        "(case strchr_split (CHR '':'') h1 of Some (h2, prt) \<Rightarrow> map_option (\<lambda>port. (h2, port, ds)) (c_atoi prt)
          | None \<Rightarrow> Some (h1, port0, ds)) = Some (hs, port, ds)"
      using assms(2) by (auto simp: parse_hostinfo_def bind_eq_Some_conv strncpy_length split: option.splits if_splits)
    have "length h1 < 256" using cstr_of_length [OF r(3)] r(4) by simp
    moreover have "length ds < 256" using len [of "[]" d 255 ds] r(1,2) by simp
    ultimately show ?thesis using r(5) at split_length [of "CHR '':''" h1] assms(3) by (auto split: option.splits)
  next
    case None
    show ?thesis
    proof (cases "strchr_split (CHR '':'') p")
      case None': None
      with None assms(1) have "Option.bind (strncpy (char_array 256 host0) p 255) cstr_of = Some hs" "port = port0" "ds = []"
        by (auto simp: parse_hostinfo_def bind_eq_Some_conv)
      with len [OF _ assms(2)] assms(3) show ?thesis by simp
    next
      case (Some hp)
      with None assms(1) obtain h1 prt host where
        r: "strncpy (char_array 256 host0) h1 (length h1) = Some host" "cstr_of (host[length h1 := NUL]) = Some hs" "ds = []"
          "c_atoi prt = Some port" by (auto simp: parse_hostinfo_def bind_eq_Some_conv split: if_splits prod.splits)
      with cstr_of_length [OF r(2)] strncpy_length [OF r(1)] at assms(2) show ?thesis by auto
    qed
  qed
qed

definition pg_parts :: "dsn_parts \<Rightarrow> string" where
  "pg_parts d = ''host='' @ dsn_host d @ '' port='' @ dec_int (dsn_port d) @
     (if dsn_dbname d \<noteq> [] then '' dbname='' @ dsn_dbname d else []) @
     (if dsn_user d \<noteq> [] then '' user='' @ dsn_user d else []) @
     (if dsn_pass d \<noteq> [] then '' password='' @ dsn_pass d else [])"

lemma conninfo_step:
  assumes "length w + length (if b then s else []) < 1024"
  shows "(if b then conninfo_add (w, length w) s else Some (w, length w)) =
    Some (w @ (if b then s else []), length (w @ (if b then s else [])))"
  using assms by (cases b) (simp_all add: conninfo_add_def)

lemma conninfo_last:
  assumes "length w < 1024"
  shows "\<exists>p. (if b then conninfo_add (w, length w) s else Some (w, length w)) = Some (take 1023 (w @ (if b then s else [])), p)"
  using assms by (cases b) (simp_all add: conninfo_add_def)

lemma dsn_fits:
  assumes "pg_dsn dsn = Some d"
  shows "length (dsn_user d) < 256 \<and> length (dsn_pass d) < 256 \<and> length (dsn_host d) < 256 \<and> length (dsn_dbname d) < 256 \<and>
    \<bar>dsn_port d\<bar> \<le> 2 ^ 31"
  using assms userinfo_fits [of "[]"] hostinfo_fits [of "''localhost''" 5432]
  by (fastforce simp: pg_dsn_def parse_dsn_def bind_eq_Some_conv split: if_splits)

text \<open>(C29) The connection string of \<^verbatim>\<open>pg_open\<close>: for every data source name that was parsed, no write
  goes past the 1024 bytes, and the result is the text of all parts, cut off after 1023 characters --
  which only the password, written last, can suffer.\<close>

theorem pg_conninfo_bounded:
  assumes "pg_dsn dsn = Some d"
  shows "pg_conninfo d = Some (take 1023 (pg_parts d))"
proof -
  define s1 where "s1 = ''host='' @ dsn_host d @ '' port='' @ dec_int (dsn_port d)"
  define s2 where "s2 = (if dsn_dbname d \<noteq> [] then '' dbname='' @ dsn_dbname d else [])"
  define s3 where "s3 = (if dsn_user d \<noteq> [] then '' user='' @ dsn_user d else [])"
  define s4 where "s4 = (if dsn_pass d \<noteq> [] then '' password='' @ dsn_pass d else [])"
  note f = dsn_fits [OF assms]
  have "\<bar>dsn_port d\<bar> < 10 ^ 10" using f by simp
  from dec_int_length [OF this] have p: "length (dec_int (dsn_port d)) \<le> 11" by simp
  have l1: "length s1 \<le> 277" using f p by (simp add: s1_def)
  have l2: "length s2 \<le> 263" using f by (simp add: s2_def)
  have l3: "length s3 \<le> 261" using f by (simp add: s3_def)
  have a1: "conninfo_add ([], 0) s1 = Some (s1, length s1)" using l1 by (simp add: conninfo_add_def)
  have a2: "(if dsn_dbname d \<noteq> [] then conninfo_add (s1, length s1) ('' dbname='' @ dsn_dbname d) else Some (s1, length s1)) =
      Some (s1 @ s2, length (s1 @ s2))" unfolding s2_def by (rule conninfo_step) (use l1 l2 in \<open>simp add: s2_def\<close>)
  have a3: "(if dsn_user d \<noteq> [] then conninfo_add (s1 @ s2, length (s1 @ s2)) ('' user='' @ dsn_user d) else Some (s1 @ s2, length (s1 @ s2))) =
      Some ((s1 @ s2) @ s3, length ((s1 @ s2) @ s3))" unfolding s3_def by (rule conninfo_step) (use l1 l2 l3 in \<open>simp add: s3_def\<close>)
  have "length ((s1 @ s2) @ s3) < 1024" using l1 l2 l3 by simp
  from conninfo_last [OF this, of "dsn_pass d \<noteq> []" "'' password='' @ dsn_pass d"] obtain q where
    a4: "(if dsn_pass d \<noteq> [] then conninfo_add ((s1 @ s2) @ s3, length ((s1 @ s2) @ s3)) ('' password='' @ dsn_pass d)
      else Some ((s1 @ s2) @ s3, length ((s1 @ s2) @ s3))) = Some (take 1023 (((s1 @ s2) @ s3) @ s4), q)"
    unfolding s4_def by blast
  have "pg_parts d = ((s1 @ s2) @ s3) @ s4" by (simp add: pg_parts_def s1_def s2_def s3_def s4_def)
  then show ?thesis
    unfolding pg_conninfo_def s1_def [symmetric] a1 Option.bind.bind_lunit a2 a3 a4 by simp
qed

theorem pg_conninfo_bounded_witness:
  "\<exists>d. pg_dsn ''db1'' = Some d \<and> pg_conninfo d = Some ''host=db1 port=5432''"
proof -
  have d: "pg_dsn ''db1'' = Some \<lparr>dsn_user = [], dsn_pass = [], dsn_host = ''db1'', dsn_port = 5432, dsn_dbname = []\<rparr>"
    by code_simp
  have "dec_nat 5432 = ''5432''" by (simp add: dec_nat.simps digit_char_def)
  with pg_conninfo_bounded [OF d] d show ?thesis by (simp add: pg_parts_def dec_int_def)
qed

section \<open>Parameters\<close>

text \<open>What a server makes of eight bytes sent in the binary format: libpq documents that numbers are
  in network byte order there, the most significant byte first.\<close>

definition network_int8 :: "byte list \<Rightarrow> 64 word" where
  "network_int8 bs = le_word (rev bs)"

lemma le_word_inj: "length bs = 8 \<Longrightarrow> le_bytes 8 (le_word bs) = bs"
proof -
  have "length bs = n \<Longrightarrow> n \<le> 8 \<Longrightarrow> le_bytes n (le_word bs) = bs" for n
  proof (induction n arbitrary: bs)
    case (Suc n)
    then obtain b cs where bs: "bs = b # cs" "length cs = n" by (cases bs) auto
    have lo: "(ucast (ucast b OR push_bit 8 (le_word cs) :: 64 word) :: byte) = b"
      by (intro bit_word_eqI) (auto simp: bit_simps)
    have hi: "drop_bit 8 (ucast b OR push_bit 8 (le_word cs) :: 64 word) = take_bit 56 (le_word cs)"
      by (intro bit_word_eqI) (auto simp: bit_simps dest: bit_imp_le_length)
    have tb: "le_bytes n (take_bit 56 x) = le_bytes n x" if "n \<le> 7" for x :: "64 word"
    proof -
      have "le_bytes k (take_bit j x) = le_bytes k x" if "8 * k \<le> j" for k j and x :: "64 word"
        using that
      proof (induction k arbitrary: j x)
        case (Suc k)
        have "(ucast (take_bit j x) :: byte) = ucast x" using Suc.prems by (intro bit_word_eqI) (auto simp: bit_simps)
        moreover have "drop_bit 8 (take_bit j x) = take_bit (j - 8) (drop_bit 8 x)" by (simp add: drop_bit_take_bit)
        ultimately show ?case using Suc.IH [of "j - 8"] Suc.prems by simp
      qed simp
      from this [of n 56] that show ?thesis by simp
    qed
    from Suc.IH [OF bs(2)] Suc.prems bs lo hi tb show ?case by simp
  qed simp
  then show "length bs = 8 \<Longrightarrow> le_bytes 8 (le_word bs) = bs" by simp
qed

text \<open>A small client library and a connection for the witnesses.\<close>

definition pg_core :: "(unit, unit) conn_core" where
  "pg_core = \<lparr>conn = Some (), err_msg = [], last_insert_id_val = 0, rows_affected_val = 0, stmt_cache = None, calls = []\<rparr>"

definition toy_pg :: "(unit, int) pg_api" where
  "toy_pg =
     \<lparr>PQconnectdb = (\<lambda>s. ()), PQstatus_ok = (\<lambda>x. True), PQerrorMessage = (\<lambda>x. ''bad''), PQexec = (\<lambda>x sql. (Some 2, x)),
      PQexecParams = (\<lambda>x sql as. (Some 1, x)), PQresultStatus = (\<lambda>r. PGRES_TUPLES_OK), PQcmdTuples = (\<lambda>r. Some ''1''),
      PQntuples = (\<lambda>r. r), PQnfields = (\<lambda>r. 2), PQfname = (\<lambda>r i. Some (if i = 0 then ''id'' else ''name'')),
      PQftype = (\<lambda>r i. if i = 0 then 23 else 25), PQgetisnull = (\<lambda>r row i. i = 1 \<and> row = 1),
      PQgetvalue = (\<lambda>r row i. Some (if i = 0 then ''42'' else ''ann'')), PQunescapeBytea = (\<lambda>s. Some []),
      PQescapeStringConn = (\<lambda>x s n. take n s), strtod = (\<lambda>s. 0), print_g15 = (\<lambda>w. ''0'')\<rparr>"

text \<open>(C20) Integer parameters on PostgreSQL (memory available): an execution prints the number, and its
  text reads back as the same number; a query sends the eight bytes as they are in memory, which the
  server reads in the opposite order, so it gets the number only if its bytes read the same backwards.\<close>

theorem pg_int_parameters:
  assumes "vtype val \<in> {CORM_INT, CORM_INT64}" and "\<not> is_null val" and "v_i (uval val) = Some w"
  shows "(\<exists>s. exec_param L val [] = Some (Pg_Text s, []) \<and> c_strtoll s = w) \<and>
    (\<exists>bs. query_param val [] = Some (Pg_Binary (Some bs) 8, []) \<and> length bs = 8 \<and> (network_int8 bs = w \<longleftrightarrow> rev bs = bs))"
proof -
  have "network_int8 (le_bytes 8 w) = w \<longleftrightarrow> rev (le_bytes 8 w) = le_bytes 8 w"
    using le_word_inj [of "rev (le_bytes 8 w)"] by (metis length_le_bytes length_rev le_word_le_bytes_8 network_int8_def)
  with assms printed_int [of w] show ?thesis by (simp add: exec_param_def query_param_def)
qed

theorem pg_int_parameters_witness:
  "query_param \<lparr>vtype = CORM_INT64, is_null = False, uval = VI 1\<rparr> [] = Some (Pg_Binary (Some [1, 0, 0, 0, 0, 0, 0, 0]) 8, []) \<and>
   network_int8 [1, 0, 0, 0, 0, 0, 0, 0] \<noteq> 1"
proof -
  let ?v = "\<lparr>vtype = CORM_INT64, is_null = False, uval = VI 1\<rparr>"
  have q: "query_param ?v [] = Some (Pg_Binary (Some [1, 0, 0, 0, 0, 0, 0, 0]) 8, [])"
    by (simp add: query_param_def eval_nat_numeral)
  have "vtype ?v \<in> {CORM_INT, CORM_INT64}" "\<not> is_null ?v" "v_i (uval ?v) = Some 1" by simp_all
  from pg_int_parameters [OF this, of toy_pg] q show ?thesis by simp
qed

text \<open>Sending a statement with parameters when memory is short: if one of the first three arrays
  cannot be allocated the call gives CORM_ERR_NOMEM and sends nothing, but if it is the array of
  temporary strings, the clean-up reads through the NULL pointer.\<close>

theorem pg_exec_arrays:
  assumes "conn c = Some x" and "ps \<noteq> []" and "m = [a1, a2, a3, a4] @ m'" and "\<not> (a1 \<and> a2 \<and> a3 \<and> a4)"
  shows "pg_exec L c sql ps m = (if a4 then Some (CORM_ERR_NOMEM, c, m') else None) \<and>
    pg_query L c sql ps m = (if a4 then Some ((CORM_ERR_NOMEM, None), c, m') else None)"
  using assms by (auto simp: pg_exec_def pg_query_def pg_send_def pg_arrays_def)

theorem pg_exec_arrays_witness:
  "pg_exec toy_pg pg_core ''DELETE'' [\<lparr>vtype = CORM_INT, is_null = True, uval = VZero\<rparr>] [True, True, True, False] = None \<and>
   pg_exec toy_pg pg_core ''DELETE'' [\<lparr>vtype = CORM_INT, is_null = True, uval = VZero\<rparr>] [True, False, True, True] =
     Some (CORM_ERR_NOMEM, pg_core, [])"
proof -
  have c: "conn pg_core = Some ()" by (simp add: pg_core_def)
  have p: "[\<lparr>vtype = CORM_INT, is_null = True, uval = VZero\<rparr>] \<noteq> []" by simp
  from pg_exec_arrays [OF c p, of "[True, True, True, False]" True True True False "[]" toy_pg "''DELETE''"]
    pg_exec_arrays [OF c p, of "[True, False, True, True]" True False True True "[]" toy_pg "''DELETE''"]
  show ?thesis by simp
qed

section \<open>What a query returns\<close>

definition pg_content_at :: "('c, 'r) pg_api \<Rightarrow> string \<Rightarrow> corm_field_type_t \<Rightarrow> corm_union" where
  "pg_content_at L s t =
     (case t of
        CORM_INT64 \<Rightarrow> VI (c_strtoll s)
      | CORM_DOUBLE \<Rightarrow> VF (strtod L s)
      | CORM_BOOL \<Rightarrow> VB (s \<noteq> [] \<and> hd s = CHR ''t'')
      | CORM_BLOB \<Rightarrow> VBlob (PQunescapeBytea L s) (length (the (PQunescapeBytea L s)))
      | _ \<Rightarrow> VS (Some s))"

definition pg_cell_at :: "('c, 'r) pg_api \<Rightarrow> 'r \<Rightarrow> int \<Rightarrow> int \<Rightarrow> corm_value_t" where
  "pg_cell_at L q row i =
     (let t = pg_type (PQftype L q i) in
      if PQgetisnull L q row i then \<lparr>vtype = t, is_null = True, uval = VZero\<rparr>
      else \<lparr>vtype = t, is_null = False, uval = pg_content_at L (the (PQgetvalue L q row i)) t\<rparr>)"

definition pg_table :: "('c, 'r) pg_api \<Rightarrow> 'r \<Rightarrow> corm_result_t" where
  "pg_table L q =
     \<lparr>column_count = PQnfields L q, column_names = map (\<lambda>i. PQfname L q (int i)) [0..<nat (PQnfields L q)],
      column_types = map (\<lambda>i. pg_type (PQftype L q (int i))) [0..<nat (PQnfields L q)],
      rows = (if PQntuples L q > 0
              then Some (map (\<lambda>r. map (\<lambda>i. pg_cell_at L q (int r) (int i)) [0..<nat (PQnfields L q)]) [0..<nat (PQntuples L q)])
              else None),
      row_count = PQntuples L q, current_row = -1, refcount = 1\<rparr>"

text \<open>libpq documents: a result has a name for every column and a value for every cell in range (outside
  the range it answers NULL), and a bytea value can be unescaped (memory available).\<close>

definition pg_readable :: "('c, 'r) pg_api \<Rightarrow> 'r \<Rightarrow> bool" where
  "pg_readable L q \<longleftrightarrow> 0 \<le> PQnfields L q \<and>
     (\<forall>i. 0 \<le> i \<and> i < PQnfields L q \<longrightarrow> PQfname L q i \<noteq> None) \<and>
     (\<forall>r i. 0 \<le> r \<and> r < PQntuples L q \<and> 0 \<le> i \<and> i < PQnfields L q \<longrightarrow> PQgetvalue L q r i \<noteq> None) \<and>
     (\<forall>s. PQunescapeBytea L s \<noteq> None)"

lemma upt_Suc_shift: "map f [0..<Suc n] = f 0 # map (\<lambda>i. f (Suc i)) [0..<n]"
  by (simp add: upt_conv_Cons map_Suc_upt [symmetric] comp_def del: upt_Suc)

lemma pg_columns_full:
  assumes "pg_readable L q" and "0 \<le> i" and "i + int n \<le> PQnfields L q"
  shows "pg_columns L q i n [] = Some (map (\<lambda>j. PQfname L q (i + int j)) [0..<n], map (\<lambda>j. pg_type (PQftype L q (i + int j))) [0..<n], [])"
  using assms
proof (induction n arbitrary: i)
  case (Suc n)
  then have "PQfname L q i \<noteq> None" by (simp add: pg_readable_def)
  then obtain s where "PQfname L q i = Some s" by blast
  with Suc.IH [of "i + 1"] Suc.prems show ?case by (simp add: upt_Suc_shift add.assoc del: upt_Suc)
qed simp

lemma pg_content_full: "pg_readable L q \<Longrightarrow> pg_content L s t [] = Some (pg_content_at L s t, [])"
  by (cases t) (auto simp: pg_content_def pg_content_at_def pg_readable_def split: option.split)

lemma pg_cells_full:
  assumes "pg_readable L q" and "0 \<le> r" and "r < PQntuples L q" and "0 \<le> i" and "i + int n \<le> PQnfields L q"
  shows "pg_cells L q r i (map (\<lambda>j. pg_type (PQftype L q (i + int j))) [0..<n]) [] = Some (map (\<lambda>j. pg_cell_at L q r (i + int j)) [0..<n], [])"
  using assms
proof (induction n arbitrary: i)
  case (Suc n)
  then have "PQgetvalue L q r i \<noteq> None" by (simp add: pg_readable_def)
  then obtain s where s: "PQgetvalue L q r i = Some s" by blast
  have tail: "pg_cells L q r (i + 1) (map (\<lambda>j. pg_type (PQftype L q (i + 1 + int j))) [0..<n]) [] =
      Some (map (\<lambda>j. pg_cell_at L q r (i + 1 + int j)) [0..<n], [])"
    using Suc.IH [of "i + 1"] Suc.prems by simp
  note ct = pg_content_full [OF assms(1), of s "pg_type (PQftype L q i)"]
  have hd: "pg_cell_at L q r i = \<lparr>vtype = pg_type (PQftype L q i), is_null = PQgetisnull L q r i,
      uval = (if PQgetisnull L q r i then VZero else pg_content_at L s (pg_type (PQftype L q i)))\<rparr>"
    using s by (simp add: pg_cell_at_def Let_def)
  show ?case using tail ct s by (cases "PQgetisnull L q r i") (simp_all add: upt_Suc_shift add.assoc hd del: upt_Suc)
qed simp

lemma pg_rows_full:
  assumes "pg_readable L q" and "0 \<le> r" and "r + int k \<le> PQntuples L q" and "int n \<le> PQnfields L q"
  shows "pg_rows L q r k (map (\<lambda>i. pg_type (PQftype L q (int i))) [0..<n]) [] =
    Some (map (\<lambda>j. map (\<lambda>i. pg_cell_at L q (r + int j) (int i)) [0..<n]) [0..<k], [])"
  using assms
proof (induction k arbitrary: r)
  case (Suc k)
  from pg_cells_full [OF assms(1), of r 0 n] Suc.IH [of "r + 1"] Suc.prems show ?case by (simp add: upt_Suc_shift add.assoc del: upt_Suc)
qed simp

lemma alloc_rows_full: "0 \<le> cols \<Longrightarrow> alloc_rows cols n [] = (True, replicate n (replicate (nat cols) zero_cell), [])"
  by (induction n) (simp_all add: calloc_n_def)

lemma pg_result_full:
  assumes "pg_readable L q"
  shows "pg_result L q [] = Some ((CORM_OK, Some (pg_table L q)), [])"
proof -
  have c: "0 \<le> PQnfields L q" using assms by (simp add: pg_readable_def)
  let ?r = "\<lparr>column_count = PQnfields L q, column_names = replicate (nat (PQnfields L q)) None,
                  column_types = replicate (nat (PQnfields L q)) CORM_INT, rows = None, row_count = PQntuples L q,
                  current_row = -1, refcount = 1\<rparr>"
  obtain a f rs where n: "corm_result_new (PQnfields L q) (PQntuples L q) [] = (Some (?r\<lparr>rows := rs\<rparr>), a, f, [])"
    "rs = None \<longleftrightarrow> \<not> PQntuples L q > 0"
    using c alloc_rows_full [OF c, of "nat (PQntuples L q)"] by (cases "PQntuples L q > 0") (auto simp: corm_result_new_def calloc_n_def)
  have cols: "pg_columns L q 0 (nat (PQnfields L q)) [] = Some (map (\<lambda>j. PQfname L q (int j)) [0..<nat (PQnfields L q)],
      map (\<lambda>j. pg_type (PQftype L q (int j))) [0..<nat (PQnfields L q)], [])"
    using pg_columns_full [OF assms, of 0 "nat (PQnfields L q)"] c by simp
  show ?thesis
  proof (cases rs)
    case None
    with n cols show ?thesis by (auto simp: pg_result_def pg_table_def)
  next
    case (Some a)
    with n(2) c pg_rows_full [OF assms, of 0 "nat (PQntuples L q)" "nat (PQnfields L q)"] n(1) cols show ?thesis
      by (auto simp: pg_result_def pg_table_def)
  qed
qed

lemma pg_query_full:
  assumes "conn c = Some x" and "pg_params query_param ps [] = Some (args, [])"
    and "(if ps = [] then PQexec L x sql else PQexecParams L x sql args) = (Some q, x1)"
    and "PQresultStatus L q \<in> {PGRES_COMMAND_OK, PGRES_TUPLES_OK}" and "pg_readable L q"
  shows "pg_query L c sql ps [] = Some ((CORM_OK, Some (pg_table L q)), c\<lparr>conn := Some x1\<rparr>, [])"
proof -
  have "pg_send L query_param x sql ps [] = Some (Inr (Some q), x1, [])"
    using assms(2,3) by (cases "ps = []") (simp_all add: pg_send_def pg_arrays_def)
  with assms(1,4) pg_result_full [OF assms(5)] show ?thesis by (simp add: pg_query_def pg_success_def)
qed

text \<open>(C18) A PostgreSQL query (memory available): the statement is sent once with the converted parameters,
  and the result has the columns of the answer with their names and types, and every cell of every row
  decoded by the type of its column.\<close>

theorem pg_query_correct:
  assumes "conn c = Some x" and "pg_params query_param ps [] = Some (args, [])"
    and "(if ps = [] then PQexec L x sql else PQexecParams L x sql args) = (Some q, x1)"
    and "PQresultStatus L q \<in> {PGRES_COMMAND_OK, PGRES_TUPLES_OK}" and "pg_readable L q"
  shows "pg_query L c sql ps [] = Some ((CORM_OK, Some (pg_table L q)), c\<lparr>conn := Some x1\<rparr>, [])"
  using assms by (rule pg_query_full)

theorem pg_query_correct_witness:
  "pg_query toy_pg pg_core ''SELECT'' [] [] =
     Some ((CORM_OK, Some \<lparr>column_count = 2, column_names = [Some ''id'', Some ''name''], column_types = [CORM_INT64, CORM_TEXT],
        rows = Some [[\<lparr>vtype = CORM_INT64, is_null = False, uval = VI 42\<rparr>, \<lparr>vtype = CORM_TEXT, is_null = False, uval = VS (Some ''ann'')\<rparr>],
          [\<lparr>vtype = CORM_INT64, is_null = False, uval = VI 42\<rparr>, \<lparr>vtype = CORM_TEXT, is_null = True, uval = VZero\<rparr>]],
        row_count = 2, current_row = -1, refcount = 1\<rparr>), pg_core, [])"
proof -
  have c: "conn pg_core = Some ()" by (simp add: pg_core_def)
  have s: "(if [] = [] then PQexec toy_pg () ''SELECT'' else PQexecParams toy_pg () ''SELECT'' []) = (Some 2, ())" by (simp add: toy_pg_def)
  have o: "PQresultStatus toy_pg 2 \<in> {PGRES_COMMAND_OK, PGRES_TUPLES_OK}" by (simp add: toy_pg_def)
  have r: "pg_readable toy_pg 2" by (simp add: pg_readable_def toy_pg_def)
  have two: "[0..<2] = [0, 1 :: nat]" by (simp add: upt_rec)
  have n: "c_strtoll ''42'' = 42" by code_simp
  from pg_query_correct [OF c _ s o r] show ?thesis
    by (simp add: pg_table_def pg_cell_at_def pg_content_at_def pg_type_def toy_pg_def two n pg_core_def Let_def)
qed

section \<open>Types of the cells\<close>

lemma pg_type_range: "pg_type oid \<in> {CORM_INT64, CORM_DOUBLE, CORM_BOOL, CORM_BLOB, CORM_TEXT}"
  by (simp add: pg_type_def)

lemma pg_content_fits:
  "pg_content L s t m = Some (u, m') \<Longrightarrow> t \<in> {CORM_INT64, CORM_DOUBLE, CORM_BOOL, CORM_BLOB, CORM_TEXT} \<Longrightarrow> fits t u"
  by (auto simp: pg_content_def split: option.splits prod.splits if_splits)

lemma pg_columns_shape:
  "pg_columns L q i n m = Some (ns, ts, m') \<Longrightarrow>
    length ns = n \<and> length ts = n \<and> (\<forall>t\<in>set ts. t \<in> {CORM_INT64, CORM_DOUBLE, CORM_BOOL, CORM_BLOB, CORM_TEXT})"
proof (induction n arbitrary: i m ns ts)
  case (Suc n)
  then obtain ns' ts' s m1 where "pg_columns L q (i + 1) n m1 = Some (ns', ts', m')" "ts = pg_type (PQftype L q i) # ts'" "length ns = Suc (length ns')"
    by (auto split: option.splits prod.splits)
  with Suc.IH [of "i + 1" m1 ns' ts'] pg_type_range [of "PQftype L q i"] show ?case by auto
qed simp

lemma pg_cells_typed:
  "pg_cells L q r i ts m = Some (cs, m') \<Longrightarrow> \<forall>t\<in>set ts. t \<in> {CORM_INT64, CORM_DOUBLE, CORM_BOOL, CORM_BLOB, CORM_TEXT} \<Longrightarrow>
    list_all2 cell_typed ts cs"
proof (induction ts arbitrary: i m cs)
  case (Cons t ts)
  from Cons.prems(1) obtain u m1 ds where
    u: "(if PQgetisnull L q r i then Some (VZero, m)
         else (case PQgetvalue L q r i of None \<Rightarrow> None | Some s \<Rightarrow> pg_content L s t m)) = Some (u, m1)"
    and d: "pg_cells L q r (i + 1) ts m1 = Some (ds, m')" "cs = \<lparr>vtype = t, is_null = PQgetisnull L q r i, uval = u\<rparr> # ds"
    by (auto split: option.splits)
  have "cell_typed t \<lparr>vtype = t, is_null = PQgetisnull L q r i, uval = u\<rparr>"
  proof (cases "PQgetisnull L q r i")
    case True
    with u show ?thesis by (simp add: cell_typed_def)
  next
    case False
    with u obtain s where "pg_content L s t m = Some (u, m1)" by (auto split: option.splits)
    from pg_content_fits [OF this] Cons.prems(2) False show ?thesis by (simp add: cell_typed_def)
  qed
  with Cons.IH [OF d(1)] Cons.prems(2) d(2) show ?case by simp
qed simp

lemma pg_rows_typed:
  "pg_rows L q r n ts m = Some (rs, m') \<Longrightarrow> \<forall>t\<in>set ts. t \<in> {CORM_INT64, CORM_DOUBLE, CORM_BOOL, CORM_BLOB, CORM_TEXT} \<Longrightarrow>
    length rs = n \<and> (\<forall>row\<in>set rs. list_all2 cell_typed ts row)"
proof (induction n arbitrary: r m rs)
  case (Suc n)
  then obtain cs m1 qs where "pg_cells L q r 0 ts m = Some (cs, m1)" "pg_rows L q (r + 1) n ts m1 = Some (qs, m')" "rs = cs # qs"
    by (auto split: option.splits)
  with Suc.IH [of "r + 1" m1 qs] pg_cells_typed Suc.prems(2) show ?case by simp
qed simp

lemma result_new_shape:
  assumes "corm_result_new cols nrows m = (Some r, a, f, m')"
  shows "0 \<le> cols \<and> column_count r = cols \<and> row_count r = nrows \<and> (rows r = None \<longleftrightarrow> nrows \<le> 0)"
  using assms by (auto simp: corm_result_new_def calloc_n_def Let_def split: prod.splits bool.splits if_splits)

lemma pg_query_typed:
  assumes "pg_query L c sql ps m = Some ((err, Some r), c', m')"
  shows "err = CORM_OK \<and> result_typed r"
proof -
  from assms obtain q m1 where p: "pg_result L q m1 = Some ((err, Some r), m')"
    by (auto simp: pg_query_def split: option.splits sum.splits if_splits)
  obtain res a f m2 where n: "corm_result_new (PQnfields L q) (PQntuples L q) m1 = (res, a, f, m2)" using prod_cases4 by blast
  with p obtain r0 where r0: "res = Some r0" by (auto simp: pg_result_def split: option.splits)
  with p n obtain ns ts m3 rs where c: "pg_columns L q 0 (nat (PQnfields L q)) m2 = Some (ns, ts, m3)"
    and rs: "pg_rows L q 0 (nat (PQntuples L q)) ts m3 = Some (rs, m')"
    and r: "r = r0\<lparr>column_names := ns, column_types := ts, rows := map_option (\<lambda>_. rs) (rows r0)\<rparr>" "err = CORM_OK"
    by (auto simp: pg_result_def split: option.splits)
  note s = result_new_shape [OF n [unfolded r0]] and cs = pg_columns_shape [OF c]
  from pg_rows_typed [OF rs] cs have t: "length rs = nat (PQntuples L q)" "\<forall>row\<in>set rs. list_all2 cell_typed ts row" by simp_all
  have "result_typed r" using s cs t r(1) by (cases "rows r0") (auto simp: result_typed_def)
  with r(2) show ?thesis by simp
qed

interpretation pg_typed: typed_driver "pg_query L" for L
  by unfold_locales (rule pg_query_typed)

text \<open>Every result a PostgreSQL query returns, whatever memory was available, is well formed, and every
  cell carries the type of its column with contents of that type (or NULL), so the typed accessors
  read a member that was written.\<close>

theorem pg_result_typed:
  assumes "pg_query L c sql ps m = Some ((err, Some r), c', m')"
    and "0 \<le> row" and "row < row_count r" and "0 \<le> col" and "col < column_count r"
  shows "err = CORM_OK \<and> (\<exists>v. corm_result_value r row col = Some (Some v) \<and> cell_typed (column_types r ! nat col) v) \<and>
    access_ok r row col"
  by (rule pg_typed.read_cell [OF assms])

theorem pg_result_typed_witness:
  "\<exists>r c'. pg_query toy_pg pg_core ''SELECT'' [] [] = Some ((CORM_OK, Some r), c', []) \<and>
     (\<exists>v. corm_result_value r 1 1 = Some (Some v) \<and> cell_typed (column_types r ! 1) v)"
proof -
  have "case pg_query toy_pg pg_core ''SELECT'' [] [] of
      Some ((err, Some r), c', m') \<Rightarrow> row_count r = 2 \<and> column_count r = 2 \<and> err = CORM_OK \<and> m' = [] \<and> conn c' = Some () | _ \<Rightarrow> False"
    by code_simp
  then obtain r c' where q: "pg_query toy_pg pg_core ''SELECT'' [] [] = Some ((CORM_OK, Some r), c', [])"
    and rc: "row_count r = 2" "column_count r = 2" by (auto split: option.splits prod.splits)
  from pg_result_typed [OF q, of 1 1] rc q show ?thesis by auto
qed

section \<open>Execution\<close>

text \<open>A PostgreSQL execution (memory available): the statement is sent once with the converted
  parameters; on success the affected rows are those the server reports, and the last identifier is the
  first value of the only returned row, if there is one, and otherwise stays as it was; on failure the
  call gives CORM_ERR_BACKEND and the server's message, and the counters stay.\<close>

theorem pg_exec_correct:
  assumes "conn c = Some x" and "pg_params (exec_param L) ps [] = Some (args, [])"
    and "(if ps = [] then PQexec L x sql else PQexecParams L x sql args) = (Some q, x1)"
    and "PQcmdTuples L q = Some (dec_nat n)" and "n < 2 ^ 31"
  shows "pg_exec L c sql ps [] =
    Some (if PQresultStatus L q \<in> {PGRES_COMMAND_OK, PGRES_TUPLES_OK}
          then (CORM_OK, c\<lparr>conn := Some x1, rows_affected_val := int n, last_insert_id_val :=
                  (if 0 < n \<and> PQntuples L q = 1 \<and> 1 \<le> PQnfields L q
                   then (case PQgetvalue L q 0 0 of Some (ch # s) \<Rightarrow> c_strtoll (ch # s) | _ \<Rightarrow> last_insert_id_val c)
                   else last_insert_id_val c)\<rparr>, [])
          else (CORM_ERR_BACKEND, c\<lparr>conn := Some x1, err_msg := truncated 512 (PQerrorMessage L x1)\<rparr>, []))"
proof -
  have s: "pg_send L (exec_param L) x sql ps [] = Some (Inr (Some q), x1, [])"
    using assms(2,3) by (cases "ps = []") (simp_all add: pg_send_def pg_arrays_def)
  note at = atoi_dec_nat [OF assms(5)]
  show ?thesis
  proof (cases "PQresultStatus L q \<in> {PGRES_COMMAND_OK, PGRES_TUPLES_OK}")
    case True
    with s assms(1,4) at show ?thesis
      by (auto simp: pg_exec_def pg_success_def pg_account_def Let_def split: option.split list.split)
  next
    case False
    with s assms(1) show ?thesis by (simp add: pg_exec_def pg_success_def corm_set_err_msg_def)
  qed
qed

theorem pg_exec_correct_witness:
  "pg_exec toy_pg pg_core ''INSERT'' [\<lparr>vtype = CORM_INT, is_null = True, uval = VZero\<rparr>] [] =
     Some (CORM_OK, pg_core\<lparr>rows_affected_val := 1, last_insert_id_val := 42\<rparr>, [])"
proof -
  have c: "conn pg_core = Some ()" by (simp add: pg_core_def)
  let ?ps = "[\<lparr>vtype = CORM_INT, is_null = True, uval = VZero\<rparr>]"
  have p: "pg_params (exec_param toy_pg) ?ps [] = Some ([Pg_Null], [])" by (simp add: exec_param_def)
  have s: "(if ?ps = [] then PQexec toy_pg () ''INSERT'' else PQexecParams toy_pg () ''INSERT'' [Pg_Null]) = (Some 1, ())"
    by (simp add: toy_pg_def)
  have t: "PQcmdTuples toy_pg 1 = Some (dec_nat 1)" by (simp add: toy_pg_def dec_nat.simps digit_char_def)
  have n: "c_strtoll ''42'' = 42" by code_simp
  from pg_exec_correct [OF c p s t] n show ?thesis by (simp add: toy_pg_def pg_core_def)
qed

end
