(* ===== verification/Pg_Records.thy ===== *)
theory Pg_Records
  imports Record_Roundtrip Pg_Results
begin

text \<open>
  Records over the PostgreSQL driver: a record that is sent as texts with \<^verbatim>\<open>pg_exec\<close> and read
  back from the texts of an answer.
\<close>

section \<open>Rows that hold a record\<close>

text \<open>Cell \<open>i\<close> of the first row holds the value that was sent: the server returns texts as they were,
  integers in decimal, floating-point numbers in a text that reads as the number, and a bytea value
  escaped.\<close>

definition pg_cell_holds :: "('c, 'r) pg_api \<Rightarrow> 'r \<Rightarrow> int \<Rightarrow> corm_field_t \<Rightarrow> corm_value_t \<Rightarrow> bool" where
  "pg_cell_holds L q i f v \<longleftrightarrow> \<not> PQgetisnull L q 0 i \<and>
     (\<exists>s. PQgetvalue L q 0 i = Some s \<and>
        (case ftype f of
           CORM_INT \<Rightarrow> pg_type (PQftype L q i) = CORM_INT64 \<and> exec_param L v [] = Some (Pg_Text s, [])
         | CORM_INT64 \<Rightarrow> pg_type (PQftype L q i) = CORM_INT64 \<and> exec_param L v [] = Some (Pg_Text s, [])
         | CORM_FLOAT \<Rightarrow> pg_type (PQftype L q i) = CORM_DOUBLE \<and>
             (\<exists>t. exec_param L v [] = Some (Pg_Text t, []) \<and> d2f (strtod L s) = d2f (strtod L t))
         | CORM_DOUBLE \<Rightarrow> pg_type (PQftype L q i) = CORM_DOUBLE \<and>
             (\<exists>t. exec_param L v [] = Some (Pg_Text t, []) \<and> strtod L s = strtod L t)
         | CORM_BOOL \<Rightarrow> pg_type (PQftype L q i) = CORM_BOOL \<and> exec_param L v [] = Some (Pg_Text s, [])
         | CORM_BLOB \<Rightarrow> pg_type (PQftype L q i) = CORM_BLOB \<and>
             (\<exists>d n. exec_param L v [] = Some (Pg_Binary (Some d) n, []) \<and> PQunescapeBytea L s = Some (take (nat n) d))
         | _ \<Rightarrow> pg_type (PQftype L q i) = CORM_TEXT \<and> exec_param L v [] = Some (Pg_Text s, [])))"

text \<open>The driver prints numbers with fifteen significant digits. That is enough for every
  \<^verbatim>\<open>float\<close>, but not for every \<^verbatim>\<open>double\<close>: the members must be among those that
  read back.\<close>

definition prints_exactly :: "('c, 'r) pg_api \<Rightarrow> corm_value_t \<Rightarrow> bool" where
  "prints_exactly L v \<longleftrightarrow> (\<forall>w. uval v = VF w \<longrightarrow>
     (if vtype v = CORM_FLOAT then d2f (strtod L (snprintf_buf 64 (print_g15 L w))) = d2f w
      else strtod L (snprintf_buf 64 (print_g15 L w)) = w))"

definition pg_saved ::
  "('c, 'r) pg_api \<Rightarrow> ('c, 's) conn_core \<Rightarrow> string \<Rightarrow> corm_value_t list \<Rightarrow> corm_field_t list \<Rightarrow> c_struct \<Rightarrow> 64 word \<Rightarrow> bool" where
  "pg_saved L c sql ps fs rec key \<longleftrightarrow>
     (\<exists>x args q x1. conn c = Some x \<and> pg_params query_param ps [] = Some (args, []) \<and>
        (if ps = [] then PQexec L x sql else PQexecParams L x sql args) = (Some q, x1) \<and>
        PQresultStatus L q \<in> {PGRES_COMMAND_OK, PGRES_TUPLES_OK} \<and> pg_readable L q \<and> 0 < PQntuples L q \<and>
        distinct (map (\<lambda>j. PQfname L q (int j)) [0..<nat (PQnfields L q)]) \<and>
        (\<forall>f\<in>set fs. prints_exactly L (stored_value rec key f) \<and>
           (\<exists>j<nat (PQnfields L q). PQfname L q (int j) = Some (field_name f) \<and>
              pg_cell_holds L q (int j) f (stored_value rec key f))))"

lemmas pg_cell_simps = pg_cell_holds_def pg_cell_at_def pg_content_at_def exec_param_def common_param_def gives_back_def
  prints_exactly_def

lemma printed_int_eqs [simp]:
  "snprintf_buf 32 (dec_int (sint (w :: 64 word))) = dec_int (sint w)" "c_strtoll (dec_int (sint (w :: 64 word))) = w"
  using printed_int [of w] by simp_all

lemma pg_column_gives_back:
  assumes "flat_layout fs rec" and "keys_numeric fs" and "f \<in> set fs" and "\<not> has_flag f CORM_FLAG_AUTOINC \<longrightarrow> storable rec f"
    and "pg_cell_holds L q i f (stored_value rec key f)" and "prints_exactly L (stored_value rec key f)"
  shows "gives_back f (uval (pg_cell_at L q 0 i)) (expected rec key f)"
proof (cases "has_flag f CORM_FLAG_AUTOINC")
  case True
  with assms(2,3,5) show ?thesis by (auto simp: stored_value_def expected_def keys_numeric_def pg_cell_simps)
next
  case False
  have l: "Struct_Access.fits rec f" "terminated rec f" "ftype f \<noteq> CORM_TEXT" using assms(1,3) by (auto simp: flat_layout_def)
  from False assms(4) have "storable rec f" by simp
  from l this show ?thesis
    by (cases rule: storable_cases) (use assms(5,6) False in \<open>auto simp: stored_value_def expected_def pg_cell_simps\<close>)
qed

lemma pg_saved_row:
  assumes "flat_layout fs rec" and "keys_numeric fs" and "\<forall>f\<in>set fs. \<not> has_flag f CORM_FLAG_AUTOINC \<longrightarrow> storable rec f"
    and "pg_readable L q" and "0 < PQntuples L q" and "distinct (map (\<lambda>j. PQfname L q (int j)) [0..<nat (PQnfields L q)])"
    and "\<forall>f\<in>set fs. prints_exactly L (stored_value rec key f) \<and>
      (\<exists>j<nat (PQnfields L q). PQfname L q (int j) = Some (field_name f) \<and> pg_cell_holds L q (int j) f (stored_value rec key f))"
  shows "row_of_record fs (pg_table L q) rec key"
proof -
  let ?r = "pg_table L q" and ?n = "nat (PQnfields L q)" and ?name = "\<lambda>j. PQfname L q (int j)"
  have names: "column_names ?r = map ?name [0..<?n]" "nat (column_count ?r) = ?n" by (simp_all add: pg_table_def)
  have "?name j \<noteq> None" if "j < ?n" for j using assms(4) that by (simp add: pg_readable_def)
  then have "None \<notin> set (column_names ?r)" unfolding names by force
  moreover have "result_wf ?r" "0 < row_count ?r"
    using assms(4,5) by (auto simp: result_wf_def pg_table_def pg_readable_def)
  moreover have "the (rows ?r) ! 0 ! j = pg_cell_at L q 0 (int j)" if "j < ?n" for j
    using that assms(5) by (simp add: pg_table_def)
  then have "\<exists>j<nat (column_count ?r). column_names ?r ! j = Some (field_name f) \<and>
      gives_back f (uval (the (rows ?r) ! 0 ! j)) (expected rec key f)" if "f \<in> set fs" for f
    using assms(3,7) pg_column_gives_back [OF assms(1,2) that] that unfolding names by fastforce
  ultimately show ?thesis using assms(6) by (simp add: row_of_record_def names)
qed

interpretation pg_store: record_store "postgres_backend L" "pg_saved L" for L
proof
  fix fs rec c sql ps key
  assume a: "flat_layout fs rec" "keys_numeric fs" "\<forall>f\<in>set fs. \<not> has_flag f CORM_FLAG_AUTOINC \<longrightarrow> storable rec f"
    "pg_saved L c sql ps fs rec key"
  from a(4) obtain x args q x1 where w: "conn c = Some x" "pg_params query_param ps [] = Some (args, [])"
      "(if ps = [] then PQexec L x sql else PQexecParams L x sql args) = (Some q, x1)"
      "PQresultStatus L q \<in> {PGRES_COMMAND_OK, PGRES_TUPLES_OK}" "pg_readable L q"
    and r: "0 < PQntuples L q" "distinct (map (\<lambda>j. PQfname L q (int j)) [0..<nat (PQnfields L q)])"
      "\<forall>f\<in>set fs. prints_exactly L (stored_value rec key f) \<and>
         (\<exists>j<nat (PQnfields L q). PQfname L q (int j) = Some (field_name f) \<and> pg_cell_holds L q (int j) f (stored_value rec key f))"
    unfolding pg_saved_def by (elim exE conjE) (rule that, assumption+)
  have "b_query (postgres_backend L) c sql ps [] = ((CORM_OK, Some (pg_table L q)), c\<lparr>conn := Some x1\<rparr>, [])"
    using pg_query_full [OF w] by (simp add: postgres_backend_def)
  with pg_saved_row [OF a(1-3) w(5) r] show
    "\<exists>r c'. b_query (postgres_backend L) c sql ps [] = ((CORM_OK, Some r), c', []) \<and> row_of_record fs r rec key" by blast
qed

text \<open>(C7) A record survives a PostgreSQL database (memory available, no hooks, members without
  pointers): \<^verbatim>\<open>corm_create\<close> sends one INSERT with the values of the members, and whenever later
  the server answers the statement of a \<^verbatim>\<open>corm_first\<close> on the model with a row that holds what
  the driver sent, each in the column of its member, the record it fills has the same value in every
  member. The numbers must be among those the driver prints exactly: with fifteen digits every
  \<^verbatim>\<open>float\<close>, but not every \<^verbatim>\<open>double\<close>.\<close>

theorem pg_record_roundtrip:
  assumes "record_ready q q2 rec rec0" and "pg_saved L c2 (first_sql q2) (param_values q2) (model_fields (qmodel q)) rec key"
  shows "record_kept (postgres_backend L) c q rec c2 q2 rec0 as key"
  using assms by (rule pg_store.keeps_record)

definition ann_pg :: "(unit, int) pg_api" where
  "ann_pg = toy_pg\<lparr>PQnfields := (\<lambda>r. 4),
     PQfname := (\<lambda>r i. Some (if i = 0 then ''id'' else if i = 1 then ''name'' else if i = 2 then ''age'' else ''score'')),
     PQftype := (\<lambda>r i. if i = 1 then 25 else if i = 3 then 700 else 23), PQgetisnull := (\<lambda>r row i. False),
     PQgetvalue := (\<lambda>r row i. Some (if i = 0 then ''7'' else if i = 1 then ''ann'' else if i = 2 then ''30'' else ''95.5'')),
     strtod := (\<lambda>s. 0x4057E00000000000), print_g15 := (\<lambda>w. ''95.5'')\<rparr>"

lemma ann_pg_saved: "pg_saved ann_pg pg_core sql [] user_fields ann 7"
proof -
  have four: "[0..<4] = [0, 1, 2, 3 :: nat]" by (simp add: upt_rec)
  have dec: "dec_int 7 = ''7''" "dec_int 30 = ''30''" by (simp_all add: dec_int_def dec_nat.simps digit_char_def)
  have ty: "ftype (user_fields ! 0) = CORM_INT" "ftype (user_fields ! 1) = CORM_STRING" "ftype (user_fields ! 2) = CORM_INT"
    "ftype (user_fields ! 3) = CORM_FLOAT" by (simp_all add: user_fields_def CORM_FIELD_def)
  have "PQfname ann_pg 2 (int i) = Some (field_name (user_fields ! i)) \<and> prints_exactly ann_pg (stored_value ann 7 (user_fields ! i)) \<and>
      pg_cell_holds ann_pg 2 (int i) (user_fields ! i) (stored_value ann 7 (user_fields ! i))" if "i < 4" for i
    using that ann_stored ann_names ty dec unfolding less_4
    by (elim disjE) (simp_all add: ann_pg_def toy_pg_def pg_cell_holds_def prints_exactly_def exec_param_def common_param_def
        pg_type_def snprintf_buf_def)
  then have "prints_exactly ann_pg (stored_value ann 7 f) \<and> (\<exists>j<4. PQfname ann_pg 2 (int j) = Some (field_name f) \<and>
      pg_cell_holds ann_pg 2 (int j) f (stored_value ann 7 f))" if "f \<in> set user_fields" for f
    using user_members [OF that] by blast
  moreover have "distinct (map (\<lambda>j. PQfname ann_pg 2 (int j)) [0..<4])" by (simp add: four ann_pg_def)
  moreover have "pg_readable ann_pg 2" "PQnfields ann_pg 2 = 4" "PQexec ann_pg () sql = (Some 2, ())" "0 < PQntuples ann_pg 2"
    "PQresultStatus ann_pg 2 = PGRES_TUPLES_OK" "conn pg_core = Some ()"
    by (simp_all add: ann_pg_def toy_pg_def pg_readable_def pg_core_def)
  ultimately show ?thesis unfolding pg_saved_def
    by (intro exI [of _ "()"] exI [of _ "[]"] exI [of _ 2]) simp
qed

theorem pg_record_roundtrip_witness:
  "\<exists>q err id c1 q1 m1 rec' c3 q3. query_for (postgres_backend ann_pg) user_model [] = (Some q, []) \<and>
     corm_create (postgres_backend ann_pg) pg_core q ann True [] = Some (err, id, ann, c1, q1, m1) \<and>
     corm_first (postgres_backend ann_pg) pg_core q (zeroed 76) [] [] = Some (CORM_OK, rec', c3, q3, []) \<and>
     corm_field_get_value rec' (user_fields ! 0) = Some (mk_value CORM_INT (VI 7)) \<and>
     corm_field_get_value rec' (user_fields ! 1) = Some (mk_value CORM_STRING (VS (Some ''ann''))) \<and>
     corm_field_get_value rec' (user_fields ! 3) = Some (mk_value CORM_FLOAT (VF 0x4057E00000000000))"
proof -
  obtain q :: "(unit, unit) query" where
    q: "query_for (postgres_backend ann_pg) user_model [] = (Some q, [])" "query_wf q" "qmodel q = user_model" "params q = []"
    by (rule query_for_full)
  have s: "pg_saved ann_pg pg_core (first_sql q) (param_values q) (model_fields (qmodel q)) ann 7"
    using ann_pg_saved q(3,4) by (simp add: param_values_def)
  from ann_kept [OF pg_record_roundtrip [OF ann_ready [OF q(2,3,4)] s] q(3)] q(1) show ?thesis by blast
qed

end
