(* ===== verification/Mysql_Driver.thy ===== *)
theory Mysql_Driver
  imports Connection Dsn Typed_Result
begin

text \<open>
  The MySQL driver (\<^verbatim>\<open>src/backend/mysql.c\<close>). The MySQL client library is not part of the
  repository: its functions are a record of arguments, as is the conversion \<^verbatim>\<open>strtod\<close>. \<open>'c\<close>
  is the handle with the server and its prepared statements behind it, \<open>'s\<close> are statement handles, a
  stored result \<open>'r\<close> is a value. A NULL dereference, a write past an array, a second \<^verbatim>\<open>free\<close>
  of a block is \<open>None\<close>.
\<close>

section \<open>The client library\<close>

datatype my_type =
    MYSQL_TYPE_TINY | MYSQL_TYPE_SHORT | MYSQL_TYPE_LONG | MYSQL_TYPE_INT24 | MYSQL_TYPE_LONGLONG
  | MYSQL_TYPE_FLOAT | MYSQL_TYPE_DOUBLE | MYSQL_TYPE_DECIMAL | MYSQL_TYPE_BLOB | MYSQL_TYPE_STRING | MYSQL_TYPE_NULL
  | MYSQL_TYPE_OTHER int

record my_field =
  mf_name :: string
  mf_type :: my_type
  mf_max_length :: nat

text \<open>A parameter as its \<^verbatim>\<open>MYSQL_BIND\<close> describes it.\<close>

datatype my_arg =
    My_Null | My_Longlong "64 word" | My_Double "64 word" | My_String string | My_Tiny bool | My_Blob "byte list option" nat

text \<open>A column after a fetch: the NULL flag, the length of the value, the contents of the bound buffer.\<close>

type_synonym my_out = "bool \<times> nat \<times> byte list"

record my_connect =
  cn_host :: string
  cn_user :: string
  cn_pass :: string
  cn_dbname :: "string option"
  cn_port :: "32 word"
  cn_timeout :: int

text \<open>A text result is stored on the client by \<^verbatim>\<open>mysql_store_result\<close>: \<open>my_rows\<close> are the rows that
  \<^verbatim>\<open>mysql_fetch_row\<close> gives one after the other, NULL values as \<open>None\<close>, with the lengths of
  \<^verbatim>\<open>mysql_fetch_lengths\<close>.\<close>

record ('c, 's, 'r) my_api =
  mysql_init :: "'c option"
  mysql_real_connect :: "'c \<Rightarrow> my_connect \<Rightarrow> bool \<times> 'c"
  mysql_error :: "'c \<Rightarrow> string"
  mysql_ping :: "'c \<Rightarrow> int \<times> 'c"
  mysql_query :: "'c \<Rightarrow> string \<Rightarrow> bool \<times> 'c"
  mysql_insert_id :: "'c \<Rightarrow> 64 word"
  mysql_affected_rows :: "'c \<Rightarrow> 64 word"
  mysql_store_result :: "'c \<Rightarrow> 'r option \<times> 'c"
  mysql_fields :: "'r \<Rightarrow> my_field list"
  mysql_num_rows :: "'r \<Rightarrow> int"
  my_rows :: "'r \<Rightarrow> string option list list"
  mysql_real_escape_string :: "'c \<Rightarrow> string \<Rightarrow> string"
  mysql_stmt_init :: "'c \<Rightarrow> 's option \<times> 'c"
  mysql_stmt_prepare :: "'s \<Rightarrow> string \<Rightarrow> 'c \<Rightarrow> bool \<times> 'c"
  mysql_stmt_error :: "'s \<Rightarrow> 'c \<Rightarrow> string"
  mysql_stmt_close :: "'s \<Rightarrow> 'c \<Rightarrow> 'c"
  mysql_stmt_bind_param :: "'s \<Rightarrow> my_arg list \<Rightarrow> 'c \<Rightarrow> bool \<times> 'c"
  mysql_stmt_execute :: "'s \<Rightarrow> 'c \<Rightarrow> bool \<times> 'c"
  mysql_stmt_insert_id :: "'s \<Rightarrow> 'c \<Rightarrow> 64 word"
  mysql_stmt_affected_rows :: "'s \<Rightarrow> 'c \<Rightarrow> 64 word"
  mysql_stmt_result_metadata :: "'s \<Rightarrow> 'c \<Rightarrow> 'r option"
  mysql_stmt_store_result :: "'s \<Rightarrow> 'c \<Rightarrow> bool \<times> 'c"
  mysql_stmt_num_rows :: "'s \<Rightarrow> 'c \<Rightarrow> int"
  mysql_stmt_bind_result :: "'s \<Rightarrow> (my_type \<times> nat) list \<Rightarrow> 'c \<Rightarrow> bool \<times> 'c"
  mysql_stmt_fetch :: "'s \<Rightarrow> 'c \<Rightarrow> my_out list option \<times> 'c"
  my_strtod :: "string \<Rightarrow> 64 word"

section \<open>Opening, closing, pinging\<close>

definition mysql_dsn :: "string \<Rightarrow> dsn_parts option" where
  "mysql_dsn dsn = parse_dsn ''root'' ''127.0.0.1'' 3306 dsn"

text \<open>\<open>tmo\<close> is the \<^verbatim>\<open>timeout_ms\<close> of the connection's configuration.\<close>

definition mysql_open ::
  "('c, 's, 'r) my_api \<Rightarrow> int \<Rightarrow> ('c, 's) conn_core \<Rightarrow> string \<Rightarrow> mem \<Rightarrow> (corm_err_t \<times> ('c, 's) conn_core \<times> mem) option" where
  "mysql_open L tmo c dsn m =
     Option.bind (mysql_dsn dsn) (\<lambda>d.
       (case mysql_init L of
          None \<Rightarrow> Some (CORM_ERR_NOMEM, corm_set_err_msg c ''mysql_init failed'', m)
        | Some x \<Rightarrow>
            let args = \<lparr>cn_host = dsn_host d, cn_user = dsn_user d, cn_pass = dsn_pass d,
                        cn_dbname = (if dsn_dbname d \<noteq> [] then Some (dsn_dbname d) else None),
                        cn_port = word_of_int (dsn_port d), cn_timeout = (if tmo > 0 then tmo div 1000 else 30)\<rparr> in
            (case mysql_real_connect L x args of
               (ok, x1) \<Rightarrow>
                 Some (if \<not> ok then (CORM_ERR_BACKEND, corm_set_err_msg c (mysql_error L x1), m)
                       else (CORM_OK, c\<lparr>conn := Some x1, stmt_cache := corm_stmt_cache_set_destroy_fn (stmt_cache c) True\<rparr>, m)))))"

definition corm_mysql_close :: "('c, 's) conn_core \<Rightarrow> corm_err_t \<times> ('c, 's) conn_core" where
  "corm_mysql_close c = (CORM_OK, case conn c of None \<Rightarrow> c | Some x \<Rightarrow> c\<lparr>conn := None\<rparr>)"

definition corm_mysql_ping ::
  "('c, 's, 'r) my_api \<Rightarrow> ('c, 's) conn_core \<Rightarrow> mem \<Rightarrow> corm_err_t \<times> ('c, 's) conn_core \<times> mem" where
  "corm_mysql_ping L c m =
     (case conn c of
        None \<Rightarrow> (CORM_ERR_BACKEND, c, m)
      | Some x \<Rightarrow> (case mysql_ping L x of (rc, x1) \<Rightarrow> (if rc = 0 then CORM_OK else CORM_ERR_BACKEND, c\<lparr>conn := Some x1\<rparr>, m)))"

section \<open>Statements and parameters\<close>

definition my_bind :: "corm_value_t \<Rightarrow> my_arg option" where
  "my_bind val =
     (if is_null val then Some My_Null
      else (case vtype val of
              CORM_INT \<Rightarrow> map_option My_Longlong (v_i (uval val))
            | CORM_INT64 \<Rightarrow> map_option My_Longlong (v_i (uval val))
            | CORM_FLOAT \<Rightarrow> map_option My_Double (v_f (uval val))
            | CORM_DOUBLE \<Rightarrow> map_option My_Double (v_f (uval val))
            | CORM_BOOL \<Rightarrow> map_option My_Tiny (v_b (uval val))
            | CORM_BLOB \<Rightarrow> map_option (\<lambda>(d, n). My_Blob d n) (v_blob (uval val))
            | _ \<Rightarrow> Option.bind (v_s (uval val)) (\<lambda>s. map_option My_String s)))"

fun my_binds :: "corm_value_t list \<Rightarrow> my_arg list option" where
  "my_binds [] = Some []"
| "my_binds (val # vals) =
     (case my_bind val of None \<Rightarrow> None | Some a \<Rightarrow> map_option (\<lambda>as. a # as) (my_binds vals))"

text \<open>The array for the library: \<open>Some None\<close> is NULL.\<close>

definition mysql_bind_params :: "corm_value_t list \<Rightarrow> mem \<Rightarrow> (my_arg list option \<times> mem) option" where
  "mysql_bind_params ps m =
     (if ps = [] then Some (None, m)
      else (case alloc m of
              (ok, m1) \<Rightarrow> if \<not> ok then Some (None, m1) else map_option (\<lambda>as. (Some as, m1)) (my_binds ps)))"

text \<open>The statement from the cache, or prepared and stored there; statements that leave the cache are
  closed.\<close>

definition mysql_get_stmt ::
  "('c, 's, 'r) my_api \<Rightarrow> ('c, 's) conn_core \<Rightarrow> 'c \<Rightarrow> string \<Rightarrow> mem \<Rightarrow>
     ((corm_err_t + 's) \<times> ('c, 's) conn_core \<times> 'c \<times> mem) option" where
  "mysql_get_stmt L c x sql m =
     (case corm_stmt_cache_get (stmt_cache c) (Some sql) of
        None \<Rightarrow> None
      | Some (Some st, k) \<Rightarrow> Some (Inr st, c\<lparr>stmt_cache := k\<rparr>, x, m)
      | Some (None, k) \<Rightarrow>
     (case mysql_stmt_init L x of
        (None, x1) \<Rightarrow> Some (Inl CORM_ERR_NOMEM, corm_set_err_msg (c\<lparr>stmt_cache := k\<rparr>) ''mysql_stmt_init failed'', x1, m)
      | (Some st, x1) \<Rightarrow>
     (case mysql_stmt_prepare L st sql x1 of
        (ok, x2) \<Rightarrow>
          if \<not> ok then
            Some (Inl CORM_ERR_BACKEND, corm_set_err_msg (c\<lparr>stmt_cache := k\<rparr>) (mysql_stmt_error L st x2), mysql_stmt_close L st x2, m)
          else
            (case corm_stmt_cache_put k (Some sql) (Some st) m of
               None \<Rightarrow> None
             | Some (err, gone, k1, m1) \<Rightarrow> Some (Inr st, c\<lparr>stmt_cache := k1\<rparr>, fold (mysql_stmt_close L) gone x2, m1)))))"

text \<open>The cast of a row count to \<^verbatim>\<open>int\<close>.\<close>

definition to_int :: "64 word \<Rightarrow> int" where
  "to_int w = sint (ucast w :: 32 word)"

section \<open>Executing\<close>

definition mysql_exec ::
  "('c, 's, 'r) my_api \<Rightarrow> ('c, 's) conn_core \<Rightarrow> string \<Rightarrow> corm_value_t list \<Rightarrow> mem \<Rightarrow>
     (corm_err_t \<times> ('c, 's) conn_core \<times> mem) option" where
  "mysql_exec L c sql ps m =
     (case conn c of
        None \<Rightarrow> None
      | Some x \<Rightarrow>
          if ps = [] then
            (case mysql_query L x sql of
               (ok, x1) \<Rightarrow>
                 Some (if \<not> ok then (CORM_ERR_BACKEND, corm_set_err_msg (c\<lparr>conn := Some x1\<rparr>) (mysql_error L x1), m)
                       else (CORM_OK, c\<lparr>conn := Some x1, last_insert_id_val := mysql_insert_id L x1,
                                        rows_affected_val := to_int (mysql_affected_rows L x1)\<rparr>, m)))
          else
     (case mysql_get_stmt L c x sql m of
        None \<Rightarrow> None
      | Some (Inl err, c1, x1, m1) \<Rightarrow> Some (err, c1\<lparr>conn := Some x1\<rparr>, m1)
      | Some (Inr st, c1, x1, m1) \<Rightarrow>
          let fail = (\<lambda>x m. Some (CORM_ERR_BACKEND,
                corm_set_err_msg (c1\<lparr>conn := Some (mysql_stmt_close L st x)\<rparr>) (mysql_stmt_error L st x), m)) in
     (case mysql_bind_params ps m1 of
        None \<Rightarrow> None
      | Some (None, m2) \<Rightarrow> Some (CORM_ERR_NOMEM, c1\<lparr>conn := Some (mysql_stmt_close L st x1)\<rparr>, m2)
      | Some (Some as, m2) \<Rightarrow>
     (case mysql_stmt_bind_param L st as x1 of
        (ok, x2) \<Rightarrow>
          if \<not> ok then fail x2 m2
          else
     (case mysql_stmt_execute L st x2 of
        (ok2, x3) \<Rightarrow>
          if \<not> ok2 then fail x3 m2
          else Some (CORM_OK, c1\<lparr>conn := Some x3, last_insert_id_val := mysql_stmt_insert_id L st x3,
                                 rows_affected_val := to_int (mysql_stmt_affected_rows L st x3)\<rparr>, m2))))))"

section \<open>Results of the text protocol\<close>

definition mysql_field_to_corm_type :: "my_type \<Rightarrow> corm_field_type_t" where
  "mysql_field_to_corm_type t =
     (if t \<in> {MYSQL_TYPE_TINY, MYSQL_TYPE_SHORT, MYSQL_TYPE_LONG, MYSQL_TYPE_INT24, MYSQL_TYPE_LONGLONG} then CORM_INT64
      else if t \<in> {MYSQL_TYPE_FLOAT, MYSQL_TYPE_DOUBLE, MYSQL_TYPE_DECIMAL} then CORM_DOUBLE
      else if t = MYSQL_TYPE_BLOB then CORM_BLOB
      else CORM_TEXT)"

text \<open>The names: how many were copied before one copy failed, or all of them.\<close>

fun my_names :: "my_field list \<Rightarrow> nat \<Rightarrow> mem \<Rightarrow> (nat + string option list) \<times> mem" where
  "my_names [] i m = (Inr [], m)"
| "my_names (f # fs) i m =
     (case alloc m of
        (ok, m1) \<Rightarrow>
          if \<not> ok then (Inl i, m1)
          else (case my_names fs (i + 1) m1 of
                  (Inl j, m2) \<Rightarrow> (Inl j, m2)
                | (Inr ns, m2) \<Rightarrow> (Inr (Some (mf_name f) # ns), m2)))"

text \<open>The string at the start of a value, up to a terminator in it.\<close>

definition c_part :: "string \<Rightarrow> string" where
  "c_part s = takeWhile (\<lambda>ch. ch \<noteq> NUL) s"

definition my_content :: "('c, 's, 'r) my_api \<Rightarrow> string \<Rightarrow> corm_field_type_t \<Rightarrow> mem \<Rightarrow> corm_union \<times> mem" where
  "my_content L s t m =
     (case t of
        CORM_INT64 \<Rightarrow> (VI (c_strtoll (c_part s)), m)
      | CORM_DOUBLE \<Rightarrow> (VF (my_strtod L (c_part s)), m)
      | CORM_BLOB \<Rightarrow> (case alloc m of (ok, m1) \<Rightarrow> (if ok then VBlob (Some (map byte_of_char s)) (length s) else VBlob None 0, m1))
      | _ \<Rightarrow> (case alloc m of (ok, m1) \<Rightarrow> (VS (if ok then Some (c_part s) else None), m1)))"

fun my_cells ::
  "('c, 's, 'r) my_api \<Rightarrow> string option list \<Rightarrow> corm_field_type_t list \<Rightarrow> mem \<Rightarrow> (corm_value_t list \<times> mem) option" where
  "my_cells L vs [] m = Some ([], m)"
| "my_cells L [] (t # ts) m = None"
| "my_cells L (v # vs) (t # ts) m =
     (case (case v of None \<Rightarrow> (VZero, m) | Some s \<Rightarrow> my_content L s t m) of
        (u, m1) \<Rightarrow>
          (case my_cells L vs ts m1 of
             None \<Rightarrow> None
           | Some (cs, m2) \<Rightarrow> Some (\<lparr>vtype = t, is_null = (v = None), uval = u\<rparr> # cs, m2)))"

text \<open>The rows go into the zero-filled rows of the result; more rows than it has are written past it.\<close>

fun my_fill ::
  "('c, 's, 'r) my_api \<Rightarrow> string option list list \<Rightarrow> corm_field_type_t list \<Rightarrow> corm_value_t list list \<Rightarrow> mem \<Rightarrow>
     (corm_value_t list list \<times> mem) option" where
  "my_fill L [] ts zs m = Some (zs, m)"
| "my_fill L (v # vs) ts [] m = None"
| "my_fill L (v # vs) ts (z # zs) m =
     (case my_cells L v ts m of
        None \<Rightarrow> None
      | Some (cs, m1) \<Rightarrow> (case my_fill L vs ts zs m1 of None \<Rightarrow> None | Some (rs, m2) \<Rightarrow> Some (cs # rs, m2)))"

text \<open>When a name cannot be copied, the names before it are freed, and freed again with the result.\<close>

definition mysql_simple_query ::
  "('c, 's, 'r) my_api \<Rightarrow> 'c \<Rightarrow> mem \<Rightarrow> ((corm_err_t \<times> corm_result_t option) \<times> 'c \<times> mem) option" where
  "mysql_simple_query L x m =
     (case mysql_store_result L x of
        (None, x1) \<Rightarrow> Some ((CORM_OK, None), x1, m)
      | (Some r, x1) \<Rightarrow>
     (case corm_result_new (int (length (mysql_fields L r))) (mysql_num_rows L r) m of
        (None, a, f, m1) \<Rightarrow> Some ((CORM_ERR_NOMEM, None), x1, m1)
      | (Some res, a, f, m1) \<Rightarrow>
     (case my_names (mysql_fields L r) 0 m1 of
        (Inl i, m2) \<Rightarrow> if i > 0 then None else Some ((CORM_ERR_NOMEM, None), x1, m2)
      | (Inr ns, m2) \<Rightarrow>
          let ts = map (mysql_field_to_corm_type \<circ> mf_type) (mysql_fields L r);
              res1 = res\<lparr>column_names := ns, column_types := ts\<rparr>
          in (case my_fill L (my_rows L r) ts (case rows res of None \<Rightarrow> [] | Some zs \<Rightarrow> zs) m2 of
                None \<Rightarrow> None
              | Some (rs, m3) \<Rightarrow> Some ((CORM_OK, Some (res1\<lparr>rows := map_option (\<lambda>_. rs) (rows res)\<rparr>)), x1, m3)))))"

section \<open>Results of prepared statements\<close>

text \<open>A failed copy of a name leaves NULL here.\<close>

fun stmt_names :: "my_field list \<Rightarrow> mem \<Rightarrow> string option list \<times> mem" where
  "stmt_names [] m = ([], m)"
| "stmt_names (f # fs) m =
     (case alloc m of (ok, m1) \<Rightarrow> (case stmt_names fs m1 of (ns, m2) \<Rightarrow> ((if ok then Some (mf_name f) else None) # ns, m2)))"

definition result_buffer :: "my_field \<Rightarrow> my_type \<times> nat" where
  "result_buffer f =
     (case mysql_field_to_corm_type (mf_type f) of
        CORM_INT64 \<Rightarrow> (MYSQL_TYPE_LONGLONG, 8)
      | CORM_DOUBLE \<Rightarrow> (MYSQL_TYPE_DOUBLE, 8)
      | CORM_BLOB \<Rightarrow> (MYSQL_TYPE_BLOB, if mf_max_length f > 0 then mf_max_length f else 65536)
      | _ \<Rightarrow> (MYSQL_TYPE_STRING, if mf_max_length f > 0 then mf_max_length f + 1 else 4096))"

text \<open>Allocations one after the other; whether all succeeded.\<close>

fun alloc_all :: "nat \<Rightarrow> mem \<Rightarrow> bool list \<times> mem" where
  "alloc_all 0 m = ([], m)"
| "alloc_all (Suc n) m = (case alloc m of (ok, m1) \<Rightarrow> (case alloc_all n m1 of (oks, m2) \<Rightarrow> (ok # oks, m2)))"

definition stmt_content :: "my_out \<Rightarrow> corm_field_type_t \<Rightarrow> mem \<Rightarrow> (corm_union \<times> mem) option" where
  "stmt_content out t m =
     (case out of
        (nul, len, buf) \<Rightarrow>
          (case t of
             CORM_INT64 \<Rightarrow> Some (VI (le_word (take 8 buf)), m)
           | CORM_DOUBLE \<Rightarrow> Some (VF (le_word (take 8 buf)), m)
           | CORM_BLOB \<Rightarrow>
               (case alloc m of
                  (ok, m1) \<Rightarrow>
                    if \<not> ok then Some (VBlob None 0, m1)
                    else if len > length buf then None else Some (VBlob (Some (take len buf)) len, m1))
           | _ \<Rightarrow>
               if 0 \<notin> set buf then None
               else (case alloc m of (ok, m1) \<Rightarrow> Some (VS (if ok then Some (c_part (map char_of_byte buf)) else None), m1))))"

fun stmt_cells :: "my_out list \<Rightarrow> corm_field_type_t list \<Rightarrow> mem \<Rightarrow> (corm_value_t list \<times> mem) option" where
  "stmt_cells os [] m = Some ([], m)"
| "stmt_cells [] (t # ts) m = None"
| "stmt_cells (out # os) (t # ts) m =
     (case (if fst out then Some (VZero, m) else stmt_content out t m) of
        None \<Rightarrow> None
      | Some (u, m1) \<Rightarrow>
          (case stmt_cells os ts m1 of
             None \<Rightarrow> None
           | Some (cs, m2) \<Rightarrow> Some (\<lparr>vtype = t, is_null = fst out, uval = u\<rparr> # cs, m2)))"

text \<open>The fetch loop ends at the first code other than 0; it runs at most once more than there are rows.\<close>

fun stmt_fill ::
  "('c, 's, 'r) my_api \<Rightarrow> 's \<Rightarrow> 'c \<Rightarrow> corm_field_type_t list \<Rightarrow> corm_value_t list list \<Rightarrow> mem \<Rightarrow>
     (corm_value_t list list \<times> 'c \<times> mem) option" where
  "stmt_fill L st x ts [] m =
     (case mysql_stmt_fetch L st x of (None, x1) \<Rightarrow> Some ([], x1, m) | (Some os, x1) \<Rightarrow> None)"
| "stmt_fill L st x ts (z # zs) m =
     (case mysql_stmt_fetch L st x of
        (None, x1) \<Rightarrow> Some (z # zs, x1, m)
      | (Some os, x1) \<Rightarrow>
          (case stmt_cells os ts m of
             None \<Rightarrow> None
           | Some (cs, m1) \<Rightarrow>
               (case stmt_fill L st x1 ts zs m1 of None \<Rightarrow> None | Some (rs, x2, m2) \<Rightarrow> Some (cs # rs, x2, m2))))"

text \<open>The buffers and the loop, for a result with rows: the error to return, or the filled rows. When the
  array of buffers is missing, the clean-up reads through its NULL pointer; a NULL result buffer has no
  defined use.\<close>

definition mysql_fetch_all ::
  "('c, 's, 'r) my_api \<Rightarrow> 's \<Rightarrow> 'c \<Rightarrow> my_field list \<Rightarrow> corm_value_t list list \<Rightarrow> mem \<Rightarrow>
     ((corm_err_t + corm_value_t list list) \<times> 'c \<times> mem) option" where
  "mysql_fetch_all L st x fs zs m =
     (case alloc_all 6 m of
        (oks, m1) \<Rightarrow>
          if \<not> list_all id oks then (if oks ! 4 \<or> fs = [] then Some (Inl CORM_ERR_NOMEM, x, m1) else None)
          else
     (case alloc_all (length fs) m1 of
        (bufs, m2) \<Rightarrow>
     (case mysql_stmt_bind_result L st (map result_buffer fs) x of
        (ok, x1) \<Rightarrow>
          if \<not> ok then Some (Inl CORM_ERR_BACKEND, x1, m2)
          else if \<not> list_all id bufs then None
          else map_option (\<lambda>(rs, x2, m3). (Inr rs, x2, m3))
                 (stmt_fill L st x1 (map (mysql_field_to_corm_type \<circ> mf_type) fs) zs m2))))"

definition mysql_stmt_query ::
  "('c, 's, 'r) my_api \<Rightarrow> ('c, 's) conn_core \<Rightarrow> 'c \<Rightarrow> string \<Rightarrow> corm_value_t list \<Rightarrow> mem \<Rightarrow>
     ((corm_err_t \<times> corm_result_t option) \<times> ('c, 's) conn_core \<times> mem) option" where
  "mysql_stmt_query L c x sql ps m =
     (case mysql_get_stmt L c x sql m of
        None \<Rightarrow> None
      | Some (Inl err, c1, x1, m1) \<Rightarrow> Some ((err, None), c1\<lparr>conn := Some x1\<rparr>, m1)
      | Some (Inr st, c1, x1, m1) \<Rightarrow>
          let close = (\<lambda>r x m. Some (r, c1\<lparr>conn := Some (mysql_stmt_close L st x)\<rparr>, m));
              fail = (\<lambda>x m. Some ((CORM_ERR_BACKEND, None),
                corm_set_err_msg (c1\<lparr>conn := Some (mysql_stmt_close L st x)\<rparr>) (mysql_stmt_error L st x), m))
          in
     (case (if ps \<noteq> [] then mysql_bind_params ps m1 else Some (Some [], m1)) of
        None \<Rightarrow> None
      | Some (None, m2) \<Rightarrow> close (CORM_ERR_NOMEM, None) x1 m2
      | Some (Some as, m2) \<Rightarrow>
     (case (if ps \<noteq> [] then mysql_stmt_bind_param L st as x1 else (True, x1)) of
        (ok, x2) \<Rightarrow>
          if \<not> ok then fail x2 m2
          else
     (case mysql_stmt_execute L st x2 of
        (ok2, x3) \<Rightarrow>
          if \<not> ok2 then fail x3 m2
          else
     (case mysql_stmt_result_metadata L st x3 of
        None \<Rightarrow> close (CORM_OK, None) x3 m2
      | Some meta \<Rightarrow>
     (case mysql_stmt_store_result L st x3 of
        (ok3, x4) \<Rightarrow>
          if \<not> ok3 then fail x4 m2
          else
          let fs = mysql_fields L meta; n = mysql_stmt_num_rows L st x4 in
     (case corm_result_new (int (length fs)) n m2 of
        (None, a, f, m3) \<Rightarrow> close (CORM_ERR_NOMEM, None) x4 m3
      | (Some res, a, f, m3) \<Rightarrow>
     (case stmt_names fs m3 of
        (ns, m4) \<Rightarrow>
          let res1 = res\<lparr>column_names := ns, column_types := map (mysql_field_to_corm_type \<circ> mf_type) fs\<rparr> in
          if n > 0 then
            (case mysql_fetch_all L st x4 fs (case rows res of None \<Rightarrow> [] | Some zs \<Rightarrow> zs) m4 of
               None \<Rightarrow> None
             | Some (Inl err, x5, m5) \<Rightarrow>
                 if err = CORM_ERR_BACKEND then fail x5 m5 else close (err, None) x5 m5
             | Some (Inr rs, x5, m5) \<Rightarrow> close (CORM_OK, Some (res1\<lparr>rows := Some rs\<rparr>)) x5 m5)
          else close (CORM_OK, Some res1) x4 m4))))))))"

definition corm_mysql_query ::
  "('c, 's, 'r) my_api \<Rightarrow> ('c, 's) conn_core \<Rightarrow> string \<Rightarrow> corm_value_t list \<Rightarrow> mem \<Rightarrow>
     ((corm_err_t \<times> corm_result_t option) \<times> ('c, 's) conn_core \<times> mem) option" where
  "corm_mysql_query L c sql ps m =
     (case conn c of
        None \<Rightarrow> None
      | Some x \<Rightarrow>
          if ps = [] then
            (case mysql_query L x sql of
               (ok, x1) \<Rightarrow>
                 if \<not> ok then Some ((CORM_ERR_BACKEND, None), corm_set_err_msg (c\<lparr>conn := Some x1\<rparr>) (mysql_error L x1), m)
                 else map_option (\<lambda>(r, x2, m1). (r, c\<lparr>conn := Some x2\<rparr>, m1)) (mysql_simple_query L x1 m))
          else mysql_stmt_query L c x sql ps m)"

section \<open>Transactions, escaping, introspection\<close>

definition corm_mysql_begin ::
  "('c, 's, 'r) my_api \<Rightarrow> ('c, 's) conn_core \<Rightarrow> mem \<Rightarrow> (corm_err_t \<times> ('c, 's) conn_core \<times> mem) option" where
  "corm_mysql_begin L c m = mysql_exec L c ''START TRANSACTION'' [] m"

definition corm_mysql_commit ::
  "('c, 's, 'r) my_api \<Rightarrow> ('c, 's) conn_core \<Rightarrow> mem \<Rightarrow> (corm_err_t \<times> ('c, 's) conn_core \<times> mem) option" where
  "corm_mysql_commit L c m = mysql_exec L c ''COMMIT'' [] m"

definition corm_mysql_rollback ::
  "('c, 's, 'r) my_api \<Rightarrow> ('c, 's) conn_core \<Rightarrow> mem \<Rightarrow> (corm_err_t \<times> ('c, 's) conn_core \<times> mem) option" where
  "corm_mysql_rollback L c m = mysql_exec L c ''ROLLBACK'' [] m"

text \<open>The text written and the length returned; without a handle or a destination, the space an escaped
  string may need.\<close>

definition mysql_escape :: "('c, 's, 'r) my_api \<Rightarrow> ('c, 's) conn_core \<Rightarrow> bool \<Rightarrow> string \<Rightarrow> nat \<Rightarrow> string option \<times> nat" where
  "mysql_escape L c dst src len =
     (case conn c of
        None \<Rightarrow> (None, len * 2 + 1)
      | Some x \<Rightarrow>
          if \<not> dst then (None, len * 2 + 1)
          else (let e = mysql_real_escape_string L x (take len src) in (Some e, length e)))"

definition mysql_last_id :: "('c, 's, 'r) my_api \<Rightarrow> ('c, 's) conn_core \<Rightarrow> 64 word option" where
  "mysql_last_id L c = map_option (mysql_insert_id L) (conn c)"

definition mysql_affected :: "('c, 's, 'r) my_api \<Rightarrow> ('c, 's) conn_core \<Rightarrow> int option" where
  "mysql_affected L c = map_option (to_int \<circ> mysql_affected_rows L) (conn c)"

definition my_dup :: "string option \<Rightarrow> mem \<Rightarrow> string option \<times> mem" where
  "my_dup s m =
     (case s of None \<Rightarrow> (None, m) | Some t \<Rightarrow> (case alloc m of (ok, m1) \<Rightarrow> (if ok then Some (c_part t) else None, m1)))"

definition my_column :: "string option list \<Rightarrow> mem \<Rightarrow> (corm_column_info_t \<times> mem) option" where
  "my_column row m =
     (if length row < 5 then None
      else
        (case my_dup (row ! 0) m of (n, m1) \<Rightarrow>
        (case my_dup (row ! 1) m1 of (t, m2) \<Rightarrow>
        (case my_dup (row ! 4) m2 of (d, m3) \<Rightarrow>
           Some (\<lparr>cname = n, type_name = t,
                  col_not_null = (case row ! 2 of None \<Rightarrow> 0 | Some s \<Rightarrow> if c_part s \<noteq> ''YES'' then 1 else 0),
                  is_pk = (case row ! 3 of None \<Rightarrow> 0 | Some s \<Rightarrow> if c_part s = ''PRI'' then 1 else 0),
                  col_default = d\<rparr>, m3)))))"

text \<open>The loop over the rows; \<open>Some None\<close> when the array could not grow.\<close>

fun my_column_list ::
  "string option list list \<Rightarrow> corm_column_info_t list \<Rightarrow> nat \<Rightarrow> mem \<Rightarrow> (corm_column_info_t list option \<times> mem) option" where
  "my_column_list [] cs cap m = Some (Some cs, m)"
| "my_column_list (row # rest) cs cap m =
     (case (if length cs \<ge> cap then (case alloc m of (ok, m1) \<Rightarrow> (cap * 2, ok, m1)) else (cap, True, m)) of
        (cap1, ok, m1) \<Rightarrow>
          if \<not> ok then Some (None, m1)
          else (case my_column row m1 of
                  None \<Rightarrow> None
                | Some (ci, m2) \<Rightarrow> my_column_list rest (cs @ [ci]) cap1 m2))"

text \<open>The escaped name is written into 256 bytes.\<close>

definition mysql_describe_table ::
  "('c, 's, 'r) my_api \<Rightarrow> ('c, 's) conn_core \<Rightarrow> string \<Rightarrow> mem \<Rightarrow>
     ((corm_err_t \<times> corm_column_info_t list option) \<times> ('c, 's) conn_core \<times> mem) option" where
  "mysql_describe_table L c tname m =
     (case conn c of
        None \<Rightarrow> Some ((CORM_ERR_BACKEND, None), c, m)
      | Some x \<Rightarrow>
          let esc = mysql_real_escape_string L x tname in
          if length esc \<ge> 256 then None
          else
     (case mysql_query L x (snprintf_buf 512 (''SHOW COLUMNS FROM '' @ [CHR 0x60] @ esc @ [CHR 0x60])) of
        (ok, x1) \<Rightarrow>
          if \<not> ok then Some ((CORM_ERR_BACKEND, None), corm_set_err_msg (c\<lparr>conn := Some x1\<rparr>) (mysql_error L x1), m)
          else
     (case mysql_store_result L x1 of
        (None, x2) \<Rightarrow> Some ((CORM_OK, None), c\<lparr>conn := Some x2\<rparr>, m)
      | (Some r, x2) \<Rightarrow>
     (case alloc m of
        (ok2, m1) \<Rightarrow>
          if \<not> ok2 then Some ((CORM_ERR_NOMEM, None), c\<lparr>conn := Some x2\<rparr>, m1)
          else map_option (\<lambda>(cs, m2). ((case cs of None \<Rightarrow> CORM_ERR_NOMEM | Some _ \<Rightarrow> CORM_OK, cs), c\<lparr>conn := Some x2\<rparr>, m2))
                 (my_column_list (my_rows L r) [] 32 m1)))))"

section \<open>The function table\<close>

definition mysql_backend :: "('c, 's, 'r) my_api \<Rightarrow> int \<Rightarrow> ('c, 's) corm_backend_t" where
  "mysql_backend L tmo =
     \<lparr>bname = ''mysql'', btype = CORM_BACKEND_MYSQL, b_open = Some (\<lambda>c dsn m. answered (mysql_open L tmo c dsn m) m),
      b_close = corm_mysql_close, b_ping = corm_mysql_ping L, b_exec = (\<lambda>c sql ps m. answered (mysql_exec L c sql ps m) m),
      b_query = (\<lambda>c sql ps m. answered (corm_mysql_query L c sql ps m) m), b_begin = (\<lambda>c m. answered (corm_mysql_begin L c m) m),
      b_commit = (\<lambda>c m. answered (corm_mysql_commit L c m) m), b_rollback = (\<lambda>c m. answered (corm_mysql_rollback L c m) m),
      b_escape_string = (\<lambda>c s. the (fst (mysql_escape L c True s (length s)))),
      b_last_insert_id = (\<lambda>c. the (mysql_last_id L c)), b_rows_affected = (\<lambda>c. the (mysql_affected L c)),
      b_describe_table = Some (\<lambda>c t m. answered (mysql_describe_table L c t m) m)\<rparr>"

text \<open>Without MySQL support every entry is NULL; opening is refused, so nothing else is called.\<close>

definition mysql_stub_backend :: "('c, 's) corm_backend_t" where
  "mysql_stub_backend =
     \<lparr>bname = ''mysql (unavailable)'', btype = CORM_BACKEND_MYSQL, b_open = None, b_close = undefined,
      b_ping = undefined, b_exec = undefined, b_query = undefined, b_begin = undefined, b_commit = undefined,
      b_rollback = undefined, b_escape_string = undefined, b_last_insert_id = undefined, b_rows_affected = undefined,
      b_describe_table = None\<rparr>"

definition corm_register_mysql_backend ::
  "(('c, 's, 'r) my_api \<times> int) option \<Rightarrow> ('c, 's) corm_backend_t list \<Rightarrow> corm_err_t \<times> ('c, 's) corm_backend_t list" where
  "corm_register_mysql_backend lib gs =
     corm_register_backend gs CORM_BACKEND_MYSQL
       (case lib of Some (L, tmo) \<Rightarrow> mysql_backend L tmo | None \<Rightarrow> mysql_stub_backend)"

section \<open>The allocator\<close>

text \<open>While memory lasts, every call leaves the allocator as it was.\<close>

lemma my_put_mem: "corm_stmt_cache_put k sql st [] = Some (err, gone, k', m') \<Longrightarrow> m' = []"
  by (auto simp: corm_stmt_cache_put_def Let_def split: option.splits prod.splits if_splits)

lemma my_get_stmt_mem: "mysql_get_stmt L c x sql [] = Some (r, c1, x1, m1) \<Longrightarrow> m1 = []"
  by (auto simp: mysql_get_stmt_def my_put_mem split: option.splits prod.splits if_splits)

lemma my_bind_mem: "mysql_bind_params ps [] = Some (r, m1) \<Longrightarrow> m1 = []"
  by (auto simp: mysql_bind_params_def split: if_splits)

lemma mysql_exec_mem: "mysql_exec L c sql ps [] = Some (err, c', m') \<Longrightarrow> m' = []"
  by (auto simp: mysql_exec_def Let_def dest!: my_get_stmt_mem my_bind_mem split: option.splits prod.splits sum.splits if_splits)

lemma my_column_mem: "my_column row [] = Some (ci, m1) \<Longrightarrow> m1 = []"
  by (auto simp: my_column_def my_dup_def split: option.splits if_splits)

lemma my_column_list_mem: "my_column_list rs cs cap [] = Some (r, m1) \<Longrightarrow> m1 = []"
  by (induction rs arbitrary: cs cap) (auto dest!: my_column_mem split: option.splits if_splits)

lemma mysql_describe_mem: "mysql_describe_table L c t [] = Some (r, c', m') \<Longrightarrow> m' = []"
  by (auto simp: mysql_describe_table_def Let_def dest!: my_column_list_mem split: option.splits prod.splits if_splits)

lemma mysql_keeps_mem: "keeps_mem (mysql_backend L tmo)"
  by (auto simp: keeps_mem_def mysql_backend_def corm_mysql_begin_def intro!: answered_mem dest: mysql_exec_mem mysql_describe_mem)

interpretation mysql: steady_backend "mysql_backend L tmo" for L tmo
  by unfold_locales (rule mysql_keeps_mem)

end
