(* ===== verification/Mysql_Results.thy ===== *)
theory Mysql_Results
  imports Mysql_Driver
begin

text \<open>
  What the calls of the MySQL driver do with the statement cache, and what they return.
\<close>

section \<open>Closed statements stay in the cache\<close>

text \<open>With memory, a statement that was obtained is at the front of the cache.\<close>

lemma mysql_get_stmt_cached:
  assumes k: "stmt_cache c = Some k" "cache_rel k xs" and g: "mysql_get_stmt L c x sql [] = Some (Inr st, c1, x1, m1)"
  shows "\<exists>k' ys. stmt_cache c1 = Some k' \<and> cache_rel k' ((sql, st) # ys)"
proof -
  from get_refines [OF k(2), of sql] obtain k1 where gr: "corm_stmt_cache_get_unlocked k sql = Some (fst (lru_get xs sql), k1)"
    "cache_rel k1 (snd (lru_get xs sql))" by blast
  show ?thesis
  proof (cases "map_of xs sql")
    case (Some s)
    with gr g k have "c1 = c\<lparr>stmt_cache := Some k1\<rparr>" "st = s"
      by (auto simp: mysql_get_stmt_def corm_stmt_cache_get_def lru_get_def)
    with gr(2) Some show ?thesis by (auto simp: lru_get_def)
  next
    case None
    with gr have gr': "corm_stmt_cache_get_unlocked k sql = Some (None, k1)" "cache_rel k1 xs" by (simp_all add: lru_get_def)
    from put_refines_new [OF gr'(2) None, of st "[]"] obtain err gone k' m' where
      p: "corm_stmt_cache_put (Some k1) (Some sql) (Some st) [] = Some (err, gone, Some k', m')"
      "cache_rel k' ((sql, st) # lru_trim (capacity k1) xs)" by blast
    from g gr' k p have "c1 = c\<lparr>stmt_cache := Some k'\<rparr>"
      by (auto simp: mysql_get_stmt_def corm_stmt_cache_get_def split: prod.splits option.splits if_splits)
    with p(2) show ?thesis by auto
  qed
qed

text \<open>However a query with parameters ends once it has a statement, it closes it.\<close>

lemma mysql_stmt_query_closes:
  assumes g: "mysql_get_stmt L c x sql m = Some (Inr st, c1, x1, m1)" and q: "mysql_stmt_query L c x sql ps m = Some (r, c', m')"
  shows "\<exists>y. conn c' = Some (mysql_stmt_close L st y) \<and> stmt_cache c' = stmt_cache c1"
  using q unfolding mysql_stmt_query_def g
  by (auto simp: Let_def corm_set_err_msg_def split: option.splits prod.splits sum.splits if_splits)

lemma mysql_exec_closes:
  assumes "conn c = Some x" and "ps \<noteq> []" and g: "mysql_get_stmt L c x sql m = Some (Inr st, c1, x1, m1)"
    and q: "mysql_exec L c sql ps m = Some (err, c', m')" and "err \<noteq> CORM_OK"
  shows "\<exists>y. conn c' = Some (mysql_stmt_close L st y) \<and> stmt_cache c' = stmt_cache c1"
  using assms unfolding mysql_exec_def
  by (auto simp: Let_def corm_set_err_msg_def split: option.splits prod.splits sum.splits if_splits)

text \<open>A small client library and a connection for the witnesses. The handle is the list of the
  statements that are open; a statement has one column and yields no row.\<close>

definition toy_mysql :: "(nat list, nat, unit) my_api" where
  "toy_mysql =
     \<lparr>mysql_init = Some [], mysql_real_connect = (\<lambda>x a. (True, x)), mysql_error = (\<lambda>x. ''bad''), mysql_ping = (\<lambda>x. (0, x)),
      mysql_query = (\<lambda>x sql. (True, x)), mysql_insert_id = (\<lambda>x. 7), mysql_affected_rows = (\<lambda>x. 1),
      mysql_store_result = (\<lambda>x. (Some (), x)),
      mysql_fields = (\<lambda>r. [\<lparr>mf_name = ''id'', mf_type = MYSQL_TYPE_LONG, mf_max_length = 0\<rparr>,
                           \<lparr>mf_name = ''name'', mf_type = MYSQL_TYPE_STRING, mf_max_length = 0\<rparr>]),
      mysql_num_rows = (\<lambda>r. 1), my_rows = (\<lambda>r. [[Some ''42'', None]]), mysql_real_escape_string = (\<lambda>x s. s),
      mysql_stmt_init = (\<lambda>x. (Some (Suc (sum_list x)), Suc (sum_list x) # x)), mysql_stmt_prepare = (\<lambda>s sql x. (True, x)),
      mysql_stmt_error = (\<lambda>s x. ''bad''), mysql_stmt_close = (\<lambda>s x. removeAll s x),
      mysql_stmt_bind_param = (\<lambda>s as x. (True, x)), mysql_stmt_execute = (\<lambda>s x. (True, x)),
      mysql_stmt_insert_id = (\<lambda>s x. 7), mysql_stmt_affected_rows = (\<lambda>s x. 1), mysql_stmt_result_metadata = (\<lambda>s x. Some ()),
      mysql_stmt_store_result = (\<lambda>s x. (True, x)), mysql_stmt_num_rows = (\<lambda>s x. 1),
      mysql_stmt_bind_result = (\<lambda>s bs x. (True, x)), mysql_stmt_fetch = (\<lambda>s x. (None, x)), my_strtod = (\<lambda>s. 0)\<rparr>"

definition my_cache :: "nat corm_stmt_cache_t" where
  "my_cache = \<lparr>capacity = 4, csize = 0, head = None, tail = None, entry_destroy_fn = True, heap = Map.empty, fresh = 0\<rparr>"

lemma my_cache_rel: "cache_rel my_cache []"
  by (simp add: cache_rel_def cache_at_def my_cache_def)

definition my_core :: "(nat list, nat) conn_core" where
  "my_core = \<lparr>conn = Some [], err_msg = [], last_insert_id_val = 0, rows_affected_val = 0, stmt_cache = Some my_cache, calls = []\<rparr>"

abbreviation null_param :: corm_value_t where
  "null_param \<equiv> \<lparr>vtype = CORM_INT, is_null = True, uval = VZero\<rparr>"

section \<open>Properties\<close>

text \<open>(C16) The MySQL driver closes statements and leaves them in the cache (memory available): after every
  query with parameters that got its statement, and after every such execution that failed, the
  statement is closed, and the next lookup of the same SQL text returns it.\<close>

theorem mysql_closed_statement_cached:
  assumes "\<forall>s x. s \<notin> live (mysql_stmt_close L s x)" and "conn c = Some x" and "stmt_cache c = Some k" and "cache_rel k xs"
    and "ps \<noteq> []" and "mysql_get_stmt L c x sql [] = Some (Inr st, c1, x1, m1)"
    and "corm_mysql_query L c sql ps [] = Some (r, c', m') \<or>
         (\<exists>err. mysql_exec L c sql ps [] = Some (err, c', m') \<and> err \<noteq> CORM_OK)"
  shows "\<exists>x' k'. conn c' = Some x' \<and> st \<notin> live x' \<and> corm_stmt_cache_get (stmt_cache c') (Some sql) = Some (Some st, k')"
proof -
  from mysql_get_stmt_cached [OF assms(3,4,6)] obtain k1 ys where k1: "stmt_cache c1 = Some k1" "cache_rel k1 ((sql, st) # ys)" by blast
  have "\<exists>y. conn c' = Some (mysql_stmt_close L st y) \<and> stmt_cache c' = stmt_cache c1"
    using assms(7)
  proof
    assume "corm_mysql_query L c sql ps [] = Some (r, c', m')"
    with assms(2,5) have "mysql_stmt_query L c x sql ps [] = Some (r, c', m')" by (simp add: corm_mysql_query_def)
    from mysql_stmt_query_closes [OF assms(6) this] show ?thesis .
  next
    assume "\<exists>err. mysql_exec L c sql ps [] = Some (err, c', m') \<and> err \<noteq> CORM_OK"
    with mysql_exec_closes [OF assms(2,5,6)] show ?thesis by blast
  qed
  then obtain y where y: "conn c' = Some (mysql_stmt_close L st y)" "stmt_cache c' = Some k1" using k1(1) by auto
  from get_refines [OF k1(2), of sql] have "\<exists>k'. corm_stmt_cache_get (stmt_cache c') (Some sql) = Some (Some st, k')"
    using y(2) by (auto simp: corm_stmt_cache_get_def lru_get_def)
  with y(1) assms(1) show ?thesis by blast
qed

theorem mysql_closed_statement_cached_witness:
  "\<exists>r c' m' x' k'. corm_mysql_query toy_mysql my_core ''SELECT'' [null_param] [] = Some (r, c', m') \<and> fst r = CORM_OK \<and>
     conn c' = Some x' \<and> 1 \<notin> set x' \<and> corm_stmt_cache_get (stmt_cache c') (Some ''SELECT'') = Some (Some 1, k')"
proof -
  have "case corm_mysql_query toy_mysql my_core ''SELECT'' [null_param] [] of Some (r, c', m') \<Rightarrow> fst r = CORM_OK | None \<Rightarrow> False"
    by code_simp
  then obtain r c' m' where q: "corm_mysql_query toy_mysql my_core ''SELECT'' [null_param] [] = Some (r, c', m')" "fst r = CORM_OK"
    by (auto split: option.splits)
  have "case mysql_get_stmt toy_mysql my_core [] ''SELECT'' [] of Some (Inr st, c1, x1, m1) \<Rightarrow> st = 1 | _ \<Rightarrow> False" by code_simp
  then obtain c1 x1 m1 where g: "mysql_get_stmt toy_mysql my_core [] ''SELECT'' [] = Some (Inr 1, c1, x1, m1)"
    by (auto split: option.splits prod.splits sum.splits)
  have l: "\<forall>s x. s \<notin> set (mysql_stmt_close toy_mysql s x)" by (simp add: toy_mysql_def)
  have c: "conn my_core = Some []" "stmt_cache my_core = Some my_cache" by (simp_all add: my_core_def)
  from mysql_closed_statement_cached [OF l c my_cache_rel _ g] q show ?thesis by blast
qed

text \<open>The text protocol.\<close>

definition my_content_at :: "('c, 's, 'r) my_api \<Rightarrow> string \<Rightarrow> corm_field_type_t \<Rightarrow> corm_union" where
  "my_content_at L s t =
     (case t of
        CORM_INT64 \<Rightarrow> VI (c_strtoll (c_part s))
      | CORM_DOUBLE \<Rightarrow> VF (my_strtod L (c_part s))
      | CORM_BLOB \<Rightarrow> VBlob (Some (map byte_of_char s)) (length s)
      | _ \<Rightarrow> VS (Some (c_part s)))"

definition my_cell_at :: "('c, 's, 'r) my_api \<Rightarrow> string option \<Rightarrow> corm_field_type_t \<Rightarrow> corm_value_t" where
  "my_cell_at L v t = \<lparr>vtype = t, is_null = (v = None), uval = (case v of None \<Rightarrow> VZero | Some s \<Rightarrow> my_content_at L s t)\<rparr>"

abbreviation my_types :: "my_field list \<Rightarrow> corm_field_type_t list" where
  "my_types fs \<equiv> map (mysql_field_to_corm_type \<circ> mf_type) fs"

lemma my_content_full: "my_content L s t [] = (my_content_at L s t, [])"
  by (cases t) (simp_all add: my_content_def my_content_at_def)

lemma my_cells_full: "length v = length ts \<Longrightarrow> my_cells L v ts [] = Some (map2 (my_cell_at L) v ts, [])"
  by (induction v ts rule: list_induct2) (auto simp: my_content_full my_cell_at_def split: option.split)

lemma my_fill_full:
  "length zs = length vs \<Longrightarrow> \<forall>v\<in>set vs. length v = length ts \<Longrightarrow>
    my_fill L vs ts zs [] = Some (map (\<lambda>v. map2 (my_cell_at L) v ts) vs, [])"
  by (induction zs vs rule: list_induct2) (simp_all add: my_cells_full)

lemma my_names_full: "my_names fs i [] = (Inr (map (\<lambda>f. Some (mf_name f)) fs), [])"
  by (induction fs arbitrary: i) simp_all

definition my_table :: "my_field list \<Rightarrow> corm_value_t list list \<Rightarrow> corm_result_t" where
  "my_table fs rs =
     \<lparr>column_count = int (length fs), column_names = map (\<lambda>f. Some (mf_name f)) fs, column_types = my_types fs,
      rows = (if rs = [] then None else Some rs), row_count = int (length rs), current_row = -1, refcount = 1\<rparr>"

lemma new_full:
  "corm_result_new (int n) (int k) [] =
     (Some \<lparr>column_count = int n, column_names = replicate n None, column_types = replicate n CORM_INT,
            rows = (if k = 0 then None else Some (replicate k (replicate n zero_cell))), row_count = int k,
            current_row = -1, refcount = 1\<rparr>, [B_Result, B_Names, B_Types] @ (if k = 0 then [] else B_Rows # map B_Row [0..<k]), [], [])"
proof -
  have "alloc_rows (int n) k [] = (True, replicate k (replicate n zero_cell), [])"
    by (induction k) (simp_all add: calloc_n_def)
  then show ?thesis by (simp add: corm_result_new_def calloc_n_def)
qed

lemma mysql_query_full:
  assumes "conn c = Some x" and "mysql_query L x sql = (True, x1)" and "mysql_store_result L x1 = (Some r, x2)"
    and "mysql_num_rows L r = int (length (my_rows L r))" and "\<forall>v\<in>set (my_rows L r). length v = length (mysql_fields L r)"
  shows "corm_mysql_query L c sql [] [] =
    Some ((CORM_OK, Some (my_table (mysql_fields L r)
        (map (\<lambda>v. map2 (my_cell_at L) v (my_types (mysql_fields L r))) (my_rows L r)))), c\<lparr>conn := Some x2\<rparr>, [])"
proof -
  let ?fs = "mysql_fields L r" and ?vs = "my_rows L r"
  note nf = new_full [of "length ?fs" "length ?vs"]
  have "my_fill L ?vs (my_types ?fs) (replicate (length ?vs) (replicate (length ?fs) zero_cell)) [] =
      Some (map (\<lambda>v. map2 (my_cell_at L) v (my_types ?fs)) ?vs, [])"
    by (rule my_fill_full) (use assms(5) in simp_all)
  with nf my_names_full [of ?fs 0] assms(1-4) show ?thesis
    by (cases "?vs = []") (simp_all add: corm_mysql_query_def mysql_simple_query_def my_table_def Let_def)
qed

text \<open>A MySQL query without parameters (memory available): the statement is sent once, and the result
  has the columns of the answer and every value of every row decoded by the type of its column.\<close>

theorem mysql_query_correct:
  assumes "conn c = Some x" and "mysql_query L x sql = (True, x1)" and "mysql_store_result L x1 = (Some r, x2)"
    and "mysql_num_rows L r = int (length (my_rows L r))" and "\<forall>v\<in>set (my_rows L r). length v = length (mysql_fields L r)"
  shows "corm_mysql_query L c sql [] [] =
    Some ((CORM_OK, Some (my_table (mysql_fields L r)
        (map (\<lambda>v. map2 (my_cell_at L) v (my_types (mysql_fields L r))) (my_rows L r)))), c\<lparr>conn := Some x2\<rparr>, [])"
  using assms by (rule mysql_query_full)

theorem mysql_query_correct_witness:
  "\<exists>c'. corm_mysql_query toy_mysql my_core ''SELECT'' [] [] =
     Some ((CORM_OK, Some \<lparr>column_count = 2, column_names = [Some ''id'', Some ''name''], column_types = [CORM_INT64, CORM_TEXT],
        rows = Some [[\<lparr>vtype = CORM_INT64, is_null = False, uval = VI 42\<rparr>, \<lparr>vtype = CORM_TEXT, is_null = True, uval = VZero\<rparr>]],
        row_count = 1, current_row = -1, refcount = 1\<rparr>), c', [])"
proof -
  have c: "conn my_core = Some []" by (simp add: my_core_def)
  have q: "mysql_query toy_mysql [] ''SELECT'' = (True, [])" "mysql_store_result toy_mysql [] = (Some (), [])"
    "mysql_num_rows toy_mysql () = int (length (my_rows toy_mysql ()))"
    "\<forall>v\<in>set (my_rows toy_mysql ()). length v = length (mysql_fields toy_mysql ())" by (simp_all add: toy_mysql_def)
  have n: "c_strtoll (c_part ''42'') = 42" by code_simp
  from mysql_query_correct [OF c q] show ?thesis
    by (simp add: my_table_def my_cell_at_def my_content_at_def mysql_field_to_corm_type_def toy_mysql_def n)
qed

section \<open>Prepared queries\<close>

text \<open>The rows a statement fetches before it returns another code than 0.\<close>

fun fetches :: "('c, 's, 'r) my_api \<Rightarrow> 's \<Rightarrow> 'c \<Rightarrow> my_out list list \<Rightarrow> 'c \<Rightarrow> bool" where
  "fetches L st x [] x' \<longleftrightarrow> mysql_stmt_fetch L st x = (None, x')"
| "fetches L st x (os # rest) x' \<longleftrightarrow> (\<exists>y. mysql_stmt_fetch L st x = (Some os, y) \<and> fetches L st y rest x')"

definition stmt_cell_at :: "my_out \<Rightarrow> corm_field_type_t \<Rightarrow> corm_value_t" where
  "stmt_cell_at out t =
     (case out of
        (nul, len, buf) \<Rightarrow>
          \<lparr>vtype = t, is_null = nul,
           uval = (if nul then VZero
                   else (case t of
                           CORM_INT64 \<Rightarrow> VI (le_word (take 8 buf))
                         | CORM_DOUBLE \<Rightarrow> VF (le_word (take 8 buf))
                         | CORM_BLOB \<Rightarrow> VBlob (Some (take len buf)) len
                         | _ \<Rightarrow> VS (Some (c_part (map char_of_byte buf)))))\<rparr>)"

text \<open>A value that fits its buffer: a blob is no longer than it, a text is terminated in it.\<close>

definition in_buffer :: "my_out \<Rightarrow> corm_field_type_t \<Rightarrow> bool" where
  "in_buffer out t \<longleftrightarrow>
     (case out of
        (nul, len, buf) \<Rightarrow>
          nul \<or> (if t = CORM_BLOB then len \<le> length buf else t \<in> {CORM_INT64, CORM_DOUBLE} \<or> 0 \<in> set buf))"

lemma stmt_content_full: "in_buffer (nul, len, buf) t \<Longrightarrow> \<not> nul \<Longrightarrow> stmt_content (nul, len, buf) t [] = Some (uval (stmt_cell_at (nul, len, buf) t), [])"
  by (cases t) (auto simp: in_buffer_def stmt_content_def stmt_cell_at_def)

lemma stmt_cells_full:
  "list_all2 in_buffer os ts \<Longrightarrow> stmt_cells os ts [] = Some (map2 stmt_cell_at os ts, [])"
proof (induction os ts rule: list_all2_induct)
  case (Cons out os t ts)
  obtain nul len buf where out: "out = (nul, len, buf)" by (cases out) auto
  show ?case
  proof (cases nul)
    case True
    with Cons.IH out show ?thesis by (simp add: stmt_cell_at_def)
  next
    case False
    with stmt_content_full [of nul len buf t] Cons out show ?thesis by (simp add: stmt_cell_at_def)
  qed
qed simp

lemma stmt_fill_full:
  "fetches L st x outs x' \<Longrightarrow> length outs \<le> length zs \<Longrightarrow> \<forall>os\<in>set outs. list_all2 in_buffer os ts \<Longrightarrow>
    stmt_fill L st x ts zs [] = Some (map (\<lambda>os. map2 stmt_cell_at os ts) outs @ drop (length outs) zs, x', [])"
proof (induction outs arbitrary: x zs)
  case Nil
  then show ?case by (cases zs) simp_all
next
  case (Cons os outs)
  then obtain z zs' where zs: "zs = z # zs'" by (cases zs) auto
  from Cons.prems(1) obtain y where y: "mysql_stmt_fetch L st x = (Some os, y)" "fetches L st y outs x'" by auto
  have "list_all2 in_buffer os ts" using Cons.prems(3) by simp
  from stmt_cells_full [OF this] Cons.IH [OF y(2), of zs'] Cons.prems(2,3) y(1) zs show ?case by simp
qed

lemma stmt_names_full: "stmt_names fs [] = (map (\<lambda>f. Some (mf_name f)) fs, [])"
  by (induction fs) simp_all

lemma alloc_all_full: "alloc_all n [] = (replicate n True, [])"
  by (induction n) simp_all

text \<open>(C17) A MySQL query with parameters (memory available): the parameters are bound in order, the statement
  is executed once, and the result has as many rows as the server reports, the fetched ones decoded in
  order. The fetch loop takes every code but 0 for the end: if it stops early -- a truncated value, a
  lost connection -- the remaining rows stay zero-filled and the call still succeeds.\<close>

theorem mysql_stmt_query_correct:
  assumes "conn c = Some x" and "ps \<noteq> []" and "mysql_get_stmt L c x sql [] = Some (Inr st, c1, x1, [])"
    and "my_binds ps = Some args" and "mysql_stmt_bind_param L st args x1 = (True, x2)"
    and "mysql_stmt_execute L st x2 = (True, x3)" and "mysql_stmt_result_metadata L st x3 = Some meta"
    and "mysql_stmt_store_result L st x3 = (True, x4)" and "mysql_stmt_num_rows L st x4 = int n" and "0 < n"
    and "mysql_stmt_bind_result L st (map result_buffer (mysql_fields L meta)) x4 = (True, x5)"
    and "fetches L st x5 outs x6" and "length outs \<le> n"
    and "\<forall>os\<in>set outs. list_all2 in_buffer os (my_types (mysql_fields L meta))"
  shows "corm_mysql_query L c sql ps [] =
    Some ((CORM_OK, Some (my_table (mysql_fields L meta)
        (map (\<lambda>os. map2 stmt_cell_at os (my_types (mysql_fields L meta))) outs @
         replicate (n - length outs) (replicate (length (mysql_fields L meta)) zero_cell)))),
      c1\<lparr>conn := Some (mysql_stmt_close L st x6)\<rparr>, [])"
proof -
  let ?fs = "mysql_fields L meta" and ?zs = "replicate n (replicate (length (mysql_fields L meta)) zero_cell)"
  let ?rs = "map (\<lambda>os. map2 stmt_cell_at os (my_types ?fs)) outs @ replicate (n - length outs) (replicate (length ?fs) zero_cell)"
  have "stmt_fill L st x5 (my_types ?fs) ?zs [] = Some (?rs, x6, [])"
    using stmt_fill_full [OF assms(12), of ?zs "my_types ?fs"] assms(13,14) by simp
  then have f: "mysql_fetch_all L st x4 ?fs ?zs [] = Some (Inr ?rs, x6, [])"
    using assms(11) by (simp add: mysql_fetch_all_def alloc_all_full list_all_iff)
  have b: "mysql_bind_params ps [] = Some (Some args, [])" using assms(2,4) by (simp add: mysql_bind_params_def)
  have ne: "?rs \<noteq> []" "length ?rs = n" using assms(10,13) by auto
  have new: "corm_result_new (int (length ?fs)) (int n) [] =
     (Some \<lparr>column_count = int (length ?fs), column_names = replicate (length ?fs) None, column_types = replicate (length ?fs) CORM_INT,
            rows = Some ?zs, row_count = int n, current_row = -1, refcount = 1\<rparr>, [B_Result, B_Names, B_Types, B_Rows] @ map B_Row [0..<n], [], [])"
    using new_full [of "length ?fs" n] assms(10) by simp
  have "corm_mysql_query L c sql ps [] = mysql_stmt_query L c x sql ps []" using assms(1,2) by (simp add: corm_mysql_query_def)
  also have "\<dots> = Some ((CORM_OK, Some (my_table ?fs ?rs)), c1\<lparr>conn := Some (mysql_stmt_close L st x6)\<rparr>, [])"
    unfolding mysql_stmt_query_def assms(3) option.case prod.case sum.case Let_def if_P [OF assms(2)] b assms(5-9) new stmt_names_full
    using f ne assms(10) by (simp add: my_table_def)
  finally show ?thesis .
qed

theorem mysql_stmt_query_correct_witness:
  "\<exists>r c'. corm_mysql_query toy_mysql my_core ''SELECT'' [null_param] [] = Some ((CORM_OK, Some r), c', []) \<and>
     rows r = Some [[zero_cell, zero_cell]]"
proof -
  have "case mysql_get_stmt toy_mysql my_core [] ''SELECT'' [] of Some (Inr st, c1, x1, m1) \<Rightarrow> st = 1 \<and> m1 = [] | _ \<Rightarrow> False" by code_simp
  then obtain c1 x1 where g: "mysql_get_stmt toy_mysql my_core [] ''SELECT'' [] = Some (Inr 1, c1, x1, [])"
    by (auto split: option.splits prod.splits sum.splits)
  have c: "conn my_core = Some []" by (simp add: my_core_def)
  have s: "mysql_stmt_bind_param toy_mysql 1 [My_Null] x1 = (True, x1)" "mysql_stmt_execute toy_mysql 1 x1 = (True, x1)"
    "mysql_stmt_result_metadata toy_mysql 1 x1 = Some ()" "mysql_stmt_store_result toy_mysql 1 x1 = (True, x1)"
    "mysql_stmt_num_rows toy_mysql 1 x1 = int 1"
    "mysql_stmt_bind_result toy_mysql 1 (map result_buffer (mysql_fields toy_mysql ())) x1 = (True, x1)"
    "fetches toy_mysql 1 x1 [] x1" by (simp_all add: toy_mysql_def)
  have b: "my_binds [null_param] = Some [My_Null]" by (simp add: my_bind_def)
  from mysql_stmt_query_correct [OF c _ g b s(1-5) _ s(6,7)] show ?thesis
    by (simp add: my_table_def toy_mysql_def eval_nat_numeral)
qed

text \<open>Execution with parameters on MySQL (memory available): the parameters are bound in order, the
  statement is executed once and stays open and cached, and the identifier and row count are those the
  library reports for it.\<close>

theorem mysql_exec_correct:
  assumes "conn c = Some x" and "ps \<noteq> []" and "mysql_get_stmt L c x sql [] = Some (Inr st, c1, x1, [])"
    and "my_binds ps = Some args" and "mysql_stmt_bind_param L st args x1 = (True, x2)"
    and "mysql_stmt_execute L st x2 = (True, x3)"
  shows "mysql_exec L c sql ps [] =
    Some (CORM_OK, c1\<lparr>conn := Some x3, last_insert_id_val := mysql_stmt_insert_id L st x3,
                      rows_affected_val := to_int (mysql_stmt_affected_rows L st x3)\<rparr>, [])"
  using assms by (simp add: mysql_exec_def mysql_bind_params_def Let_def)

theorem mysql_exec_correct_witness:
  "\<exists>c'. mysql_exec toy_mysql my_core ''INSERT'' [null_param] [] = Some (CORM_OK, c', []) \<and> last_insert_id_val c' = 7 \<and>
     rows_affected_val c' = 1"
proof -
  have "case mysql_get_stmt toy_mysql my_core [] ''INSERT'' [] of Some (Inr st, c1, x1, m1) \<Rightarrow> st = 1 \<and> m1 = [] | _ \<Rightarrow> False" by code_simp
  then obtain c1 x1 where g: "mysql_get_stmt toy_mysql my_core [] ''INSERT'' [] = Some (Inr 1, c1, x1, [])"
    by (auto split: option.splits prod.splits sum.splits)
  have c: "conn my_core = Some []" by (simp add: my_core_def)
  have s: "mysql_stmt_bind_param toy_mysql 1 [My_Null] x1 = (True, x1)" "mysql_stmt_execute toy_mysql 1 x1 = (True, x1)"
    by (simp_all add: toy_mysql_def)
  have b: "my_binds [null_param] = Some [My_Null]" by (simp add: my_bind_def)
  from mysql_exec_correct [OF c _ g b s] show ?thesis by (simp add: toy_mysql_def to_int_def)
qed

text \<open>A MySQL query without parameters when a column name cannot be copied: if it is the first one the
  call gives CORM_ERR_NOMEM, but with any later one the names before it are freed twice.\<close>

theorem mysql_names_double_free:
  assumes "mysql_store_result L x = (Some r, x1)" and "mysql_num_rows L r = 0"
    and "m = [True, True, True] @ replicate i True @ False # m'" and "i < length (mysql_fields L r)"
  shows "mysql_simple_query L x m = (if i = 0 then Some ((CORM_ERR_NOMEM, None), x1, m') else None)"
proof -
  have n: "my_names fs j (replicate i True @ False # m') = (Inl (j + i), m')" if "i < length fs" for fs j i
    using that
  proof (induction fs arbitrary: i j)
    case (Cons f fs)
    then show ?case by (cases i) auto
  qed simp
  obtain res a f where "corm_result_new (int (length (mysql_fields L r))) 0 m = (Some res, a, f, replicate i True @ False # m')"
    using assms(3) by (simp add: corm_result_new_def calloc_n_def)
  with n [OF assms(4), of 0] assms(1,2) show ?thesis by (simp add: mysql_simple_query_def)
qed

theorem mysql_names_double_free_witness: "mysql_simple_query (toy_mysql\<lparr>mysql_num_rows := \<lambda>r. 0\<rparr>) [] [True, True, True, True, False] = None"
proof -
  let ?L = "toy_mysql\<lparr>mysql_num_rows := \<lambda>r. 0\<rparr>"
  have s: "mysql_store_result ?L [] = (Some (), [])" "mysql_num_rows ?L () = 0" "1 < length (mysql_fields ?L ())"
    by (simp_all add: toy_mysql_def)
  from mysql_names_double_free [OF s(1,2) _ s(3), of "[True, True, True, True, False]" "[]"] show ?thesis by simp
qed

end
