(* ===== verification/Mysql_Records.thy ===== *)
theory Mysql_Records
  imports Record_Roundtrip Mysql_Results
begin

text \<open>
  Records over the MySQL driver: a record that is sent in binary with \<^verbatim>\<open>mysql_exec\<close> and read
  back from the texts of a query without parameters.
\<close>

section \<open>Rows that hold a record\<close>

text \<open>The text of a cell shows the value that was bound: integers and booleans in decimal, texts and
  blobs as they were, floating-point numbers in a text that reads as the number (MySQL prints FLOAT
  columns with six significant digits, so this is a condition on the number).\<close>

definition my_cell_shows :: "('c, 's, 'r) my_api \<Rightarrow> my_type \<Rightarrow> string \<Rightarrow> corm_field_t \<Rightarrow> corm_value_t \<Rightarrow> bool" where
  "my_cell_shows L ty s f v \<longleftrightarrow>
     (case ftype f of
        CORM_FLOAT \<Rightarrow> mysql_field_to_corm_type ty = CORM_DOUBLE \<and> cstring s \<and>
          (\<exists>w. my_bind v = Some (My_Double w) \<and> d2f (my_strtod L s) = d2f w)
      | CORM_DOUBLE \<Rightarrow> mysql_field_to_corm_type ty = CORM_DOUBLE \<and> cstring s \<and>
          (\<exists>w. my_bind v = Some (My_Double w) \<and> my_strtod L s = w)
      | CORM_BOOL \<Rightarrow> mysql_field_to_corm_type ty = CORM_INT64 \<and>
          (\<exists>b. my_bind v = Some (My_Tiny b) \<and> s = (if b then ''1'' else ''0''))
      | CORM_BLOB \<Rightarrow> mysql_field_to_corm_type ty = CORM_BLOB \<and>
          (\<exists>d n. my_bind v = Some (My_Blob (Some d) n) \<and> map byte_of_char s = take n d)
      | CORM_STRING \<Rightarrow> mysql_field_to_corm_type ty = CORM_TEXT \<and> my_bind v = Some (My_String s)
      | CORM_TEXT \<Rightarrow> mysql_field_to_corm_type ty = CORM_TEXT \<and> my_bind v = Some (My_String s)
      | _ \<Rightarrow> mysql_field_to_corm_type ty = CORM_INT64 \<and> (\<exists>w. my_bind v = Some (My_Longlong w) \<and> s = dec_int (sint w)))"

definition my_saved ::
  "('c, 's, 'r) my_api \<Rightarrow> ('c, 's) conn_core \<Rightarrow> string \<Rightarrow> corm_value_t list \<Rightarrow> corm_field_t list \<Rightarrow> c_struct \<Rightarrow> 64 word \<Rightarrow> bool" where
  "my_saved L c sql ps fs rec key \<longleftrightarrow> ps = [] \<and>
     (\<exists>x x1 r x2 row. conn c = Some x \<and> mysql_query L x sql = (True, x1) \<and> mysql_store_result L x1 = (Some r, x2) \<and>
        mysql_num_rows L r = int (length (my_rows L r)) \<and> (\<forall>v\<in>set (my_rows L r). length v = length (mysql_fields L r)) \<and>
        my_rows L r \<noteq> [] \<and> hd (my_rows L r) = row \<and> distinct (map mf_name (mysql_fields L r)) \<and>
        (\<forall>f\<in>set fs. \<exists>j<length (mysql_fields L r). mf_name (mysql_fields L r ! j) = field_name f \<and>
           (\<exists>s. row ! j = Some s \<and> my_cell_shows L (mf_type (mysql_fields L r ! j)) s f (stored_value rec key f))))"

lemma c_part_id: "cstring s \<Longrightarrow> c_part s = s"
  by (simp add: c_part_def cstring_takeWhile_id)

lemma printed_bool: "low_bool (c_strtoll ''1'') = Some True" "low_bool (c_strtoll ''0'') = Some False"
  by code_simp+

lemmas my_cell_simps = my_cell_shows_def my_cell_at_def my_content_at_def my_bind_def gives_back_def c_part_id printed_bool
  printed_int

lemma my_column_gives_back:
  assumes "flat_layout fs rec" and "keys_numeric fs" and "f \<in> set fs" and "\<not> has_flag f CORM_FLAG_AUTOINC \<longrightarrow> storable rec f"
    and "my_cell_shows L ty s f (stored_value rec key f)"
  shows "gives_back f (uval (my_cell_at L (Some s) (mysql_field_to_corm_type ty))) (expected rec key f)"
proof (cases "has_flag f CORM_FLAG_AUTOINC")
  case True
  with assms(2,3,5) show ?thesis by (auto simp: stored_value_def expected_def keys_numeric_def my_cell_simps)
next
  case False
  have l: "Struct_Access.fits rec f" "terminated rec f" "ftype f \<noteq> CORM_TEXT" using assms(1,3) by (auto simp: flat_layout_def)
  from False assms(4) have "storable rec f" by simp
  from l this show ?thesis
  proof (cases rule: storable_cases)
    case (blob d)
    with assms(5) False have "map byte_of_char s = d" by (auto simp: stored_value_def my_cell_simps)
    with blob assms(5) False show ?thesis by (auto simp: stored_value_def expected_def my_cell_simps)
  qed (use assms(5) False in \<open>auto simp: stored_value_def expected_def my_cell_simps split: if_splits\<close>)
qed

interpretation mysql_store: record_store "mysql_backend L tmo" "my_saved L" for L tmo
proof
  fix fs rec c sql ps key
  assume a: "flat_layout fs rec" "keys_numeric fs" "\<forall>f\<in>set fs. \<not> has_flag f CORM_FLAG_AUTOINC \<longrightarrow> storable rec f"
    "my_saved L c sql ps fs rec key"
  from a(4) obtain x x1 r x2 row where ps: "ps = []"
    and w: "conn c = Some x" "mysql_query L x sql = (True, x1)" "mysql_store_result L x1 = (Some r, x2)"
      "mysql_num_rows L r = int (length (my_rows L r))" "\<forall>v\<in>set (my_rows L r). length v = length (mysql_fields L r)"
    and row: "my_rows L r \<noteq> []" "hd (my_rows L r) = row" "distinct (map mf_name (mysql_fields L r))"
      "\<forall>f\<in>set fs. \<exists>j<length (mysql_fields L r). mf_name (mysql_fields L r ! j) = field_name f \<and>
         (\<exists>s. row ! j = Some s \<and> my_cell_shows L (mf_type (mysql_fields L r ! j)) s f (stored_value rec key f))"
    unfolding my_saved_def by (elim exE conjE) (rule that, assumption+)
  let ?fs = "mysql_fields L r" and ?ts = "my_types (mysql_fields L r)"
  let ?t = "my_table ?fs (map (\<lambda>v. map2 (my_cell_at L) v ?ts) (my_rows L r))"
  have q: "b_query (mysql_backend L tmo) c sql ps [] = ((CORM_OK, Some ?t), c\<lparr>conn := Some x2\<rparr>, [])"
    using mysql_query_full [OF w] ps by (simp add: mysql_backend_def)
  from row(1,2) w(5) have len: "length row = length ?fs" by (metis list.set_sel(1))
  have cell: "the (rows ?t) ! 0 ! j = my_cell_at L (row ! j) (mysql_field_to_corm_type (mf_type (?fs ! j)))" if "j < length ?fs" for j
    using that len row(1,2) by (cases "my_rows L r") (auto simp: my_table_def)
  have "result_wf ?t" using row(1) w(5) by (auto simp: result_wf_def my_table_def)
  moreover have "\<exists>j<nat (column_count ?t). column_names ?t ! j = Some (field_name f) \<and>
      gives_back f (uval (the (rows ?t) ! 0 ! j)) (expected rec key f)" if f: "f \<in> set fs" for f
  proof -
    from row(4) f obtain j s where j: "j < length ?fs" "mf_name (?fs ! j) = field_name f" "row ! j = Some s"
      "my_cell_shows L (mf_type (?fs ! j)) s f (stored_value rec key f)" by blast
    from my_column_gives_back [OF a(1,2) f _ j(4)] a(3) f j cell [OF j(1)] show ?thesis
      by (intro exI [of _ j]) (simp add: my_table_def)
  qed
  moreover have "distinct (column_names ?t)" using row(3) by (simp add: my_table_def distinct_map inj_on_def)
  ultimately have "row_of_record fs ?t rec key" using row(1) by (auto simp: row_of_record_def my_table_def)
  with q show "\<exists>r c'. b_query (mysql_backend L tmo) c sql ps [] = ((CORM_OK, Some r), c', []) \<and> row_of_record fs r rec key" by blast
qed

text \<open>(C8) A record survives a MySQL database (memory available, no hooks, members without pointers):
  \<^verbatim>\<open>corm_create\<close> sends one INSERT with the values of the members, and whenever later the server
  answers the statement of a \<^verbatim>\<open>corm_first\<close> without parameters on the model with a row that shows
  what the driver bound, each in the column of its member, the record it fills has the same value in
  every member. That the text of a floating-point column reads back as the number is part of the
  condition on the row: the FLOAT columns that a migration creates are printed with six significant
  digits, so it fails for numbers that need more.\<close>

theorem mysql_record_roundtrip:
  assumes "record_ready q q2 rec rec0" and "my_saved L c2 (first_sql q2) (param_values q2) (model_fields (qmodel q)) rec key"
  shows "record_kept (mysql_backend L tmo) c q rec c2 q2 rec0 as key"
  using assms by (rule mysql_store.keeps_record)

definition ann_mysql :: "(nat list, nat, unit) my_api" where
  "ann_mysql = toy_mysql\<lparr>mysql_fields := (\<lambda>r. [\<lparr>mf_name = ''id'', mf_type = MYSQL_TYPE_LONG, mf_max_length = 0\<rparr>,
       \<lparr>mf_name = ''name'', mf_type = MYSQL_TYPE_OTHER 253, mf_max_length = 0\<rparr>,
       \<lparr>mf_name = ''age'', mf_type = MYSQL_TYPE_LONG, mf_max_length = 0\<rparr>,
       \<lparr>mf_name = ''score'', mf_type = MYSQL_TYPE_FLOAT, mf_max_length = 0\<rparr>]),
     mysql_num_rows := (\<lambda>r. 1), my_rows := (\<lambda>r. [[Some ''7'', Some ''ann'', Some ''30'', Some ''95.5'']]),
     my_strtod := (\<lambda>s. 0x4057E00000000000)\<rparr>"

lemma ann_my_saved: "my_saved ann_mysql my_core sql [] user_fields ann 7"
proof -
  let ?row = "[Some ''7'', Some ''ann'', Some ''30'', Some ''95.5'']"
  have dec: "dec_int 7 = ''7''" "dec_int 30 = ''30''" by (simp_all add: dec_int_def dec_nat.simps digit_char_def)
  have ty: "ftype (user_fields ! 0) = CORM_INT" "ftype (user_fields ! 1) = CORM_STRING" "ftype (user_fields ! 2) = CORM_INT"
    "ftype (user_fields ! 3) = CORM_FLOAT" by (simp_all add: user_fields_def CORM_FIELD_def)
  have "mf_name (mysql_fields ann_mysql () ! i) = field_name (user_fields ! i) \<and>
      (\<exists>s. ?row ! i = Some s \<and> my_cell_shows ann_mysql (mf_type (mysql_fields ann_mysql () ! i)) s (user_fields ! i)
         (stored_value ann 7 (user_fields ! i)))" if "i < 4" for i
    using that ann_stored ann_names ty dec unfolding less_4
    by (elim disjE) (simp_all add: ann_mysql_def my_cell_shows_def my_bind_def mysql_field_to_corm_type_def)
  then have "\<exists>j<4. mf_name (mysql_fields ann_mysql () ! j) = field_name f \<and>
      (\<exists>s. ?row ! j = Some s \<and> my_cell_shows ann_mysql (mf_type (mysql_fields ann_mysql () ! j)) s f (stored_value ann 7 f))"
    if "f \<in> set user_fields" for f using user_members [OF that] by blast
  moreover have "length (mysql_fields ann_mysql ()) = 4" "distinct (map mf_name (mysql_fields ann_mysql ()))"
    "my_rows ann_mysql () = [?row]" "mysql_num_rows ann_mysql () = 1" "mysql_query ann_mysql [] sql = (True, [])"
    "mysql_store_result ann_mysql [] = (Some (), [])" "conn my_core = Some []"
    by (simp_all add: ann_mysql_def toy_mysql_def my_core_def)
  ultimately show ?thesis unfolding my_saved_def
    by (intro conjI refl exI [of _ "[]"] exI [of _ "()"] exI [of _ ?row]) simp_all
qed

theorem mysql_record_roundtrip_witness:
  "\<exists>q err id c1 q1 m1 rec' c3 q3. query_for (mysql_backend ann_mysql 30000) user_model [] = (Some q, []) \<and>
     corm_create (mysql_backend ann_mysql 30000) my_core q ann True [] = Some (err, id, ann, c1, q1, m1) \<and>
     corm_first (mysql_backend ann_mysql 30000) my_core q (zeroed 76) [] [] = Some (CORM_OK, rec', c3, q3, []) \<and>
     corm_field_get_value rec' (user_fields ! 0) = Some (mk_value CORM_INT (VI 7)) \<and>
     corm_field_get_value rec' (user_fields ! 1) = Some (mk_value CORM_STRING (VS (Some ''ann''))) \<and>
     corm_field_get_value rec' (user_fields ! 3) = Some (mk_value CORM_FLOAT (VF 0x4057E00000000000))"
proof -
  obtain q where
    q: "query_for (mysql_backend ann_mysql 30000) user_model [] = (Some q, [])" "query_wf q" "qmodel q = user_model" "params q = []"
    by (rule query_for_full)
  have s: "my_saved ann_mysql my_core (first_sql q) (param_values q) (model_fields (qmodel q)) ann 7"
    using ann_my_saved q(3,4) by (simp add: param_values_def)
  from ann_kept [OF mysql_record_roundtrip [where tmo = 30000 and c = my_core and as = "[]", OF ann_ready [OF q(2,3,4)] s] q(3)] q(1) show ?thesis by blast
qed

end
