(* ===== verification/Pool.thy ===== *)
theory Pool
  imports Connection "HOL-Library.Multiset"
begin

text \<open>
  The connection pool (\<^verbatim>\<open>src/internal/pool.c\<close>) under any number of concurrent callers. Everything a
  function does while it holds the mutex is one atomic definition on the pool; what happens between
  two critical sections -- pinging, opening and closing connections, sleeping on the condition variable
  -- is a state of the pending call. The steps of the system are an inductive relation over the pool,
  the pending \<^verbatim>\<open>corm_pool_acquire\<close> calls and the connections the callers hold. The results of pings
  and of opening, the clock and the scheduler are choices of the environment. Connections are
  addresses; \<open>born\<close> is their \<^verbatim>\<open>created_at_ms\<close>.
\<close>

section \<open>The pool\<close>

record pool =
  pool_dsn :: string
  pconfig :: corm_config_t
  current_open :: int
  idle_count :: int
  idle :: "nat list"

definition corm_pool_create :: "string option \<Rightarrow> corm_config_t \<Rightarrow> mem \<Rightarrow> (corm_err_t + pool) \<times> mem" where
  "corm_pool_create dsn cfg m =
     (case dsn of
        None \<Rightarrow> (Inl CORM_ERR_NULL, m)
      | Some d \<Rightarrow>
          (case alloc m of
             (False, m1) \<Rightarrow> (Inl CORM_ERR_NOMEM, m1)
           | (True, m1) \<Rightarrow>
               (Inr \<lparr>pool_dsn = snprintf_buf 512 d, pconfig = cfg, current_open = 0, idle_count = 0, idle = []\<rparr>, m1)))"

text \<open>The deadline of a timed wait: seconds and nanoseconds.\<close>

definition deadline :: "int \<Rightarrow> int \<Rightarrow> int \<Rightarrow> int \<times> int" where
  "deadline sec nsec tmo =
     (let sec1 = sec + tmo div 1000; nsec1 = nsec + (tmo mod 1000) * 1000000
      in if nsec1 \<ge> 1000000000 then (sec1 + 1, nsec1 - 1000000000) else (sec1, nsec1))"

definition must_wait :: "pool \<Rightarrow> bool" where
  "must_wait p \<longleftrightarrow> idle p = [] \<and> max_open_conns (pconfig p) > 0 \<and> current_open p \<ge> max_open_conns (pconfig p)"

text \<open>The critical section of \<^verbatim>\<open>corm_pool_acquire\<close>, from the test of the wait loop to the next
  release of the mutex: sleep again, an expired connection to close, a connection to ping, or a slot
  reserved for a new connection.\<close>

datatype acq_result = Sec_Wait | Sec_Expired nat | Sec_Ping nat | Sec_Open

definition acquire_section :: "int \<Rightarrow> (nat \<Rightarrow> int) \<Rightarrow> pool \<Rightarrow> acq_result \<times> pool" where
  "acquire_section now born p =
     (if must_wait p then (Sec_Wait, p)
      else (case idle p of
              d # ds \<Rightarrow>
                let p1 = p\<lparr>idle := ds, idle_count := idle_count p - 1\<rparr>;
                    life = conn_max_lifetime_ms (pconfig p)
                in if life > 0 \<and> now - born d \<ge> life then (Sec_Expired d, p1\<lparr>current_open := current_open p1 - 1\<rparr>)
                   else (Sec_Ping d, p1)
            | [] \<Rightarrow> (Sec_Open, p\<lparr>current_open := current_open p + 1\<rparr>)))"

text \<open>Giving a reserved slot back, after a failed ping or a failed open.\<close>

definition release_slot :: "pool \<Rightarrow> pool" where
  "release_slot p = p\<lparr>current_open := current_open p - 1\<rparr>"

text \<open>\<^verbatim>\<open>corm_pool_release\<close>: the code, whether the connection was closed, and the pool.\<close>

definition corm_pool_release :: "pool \<Rightarrow> nat \<Rightarrow> mem \<Rightarrow> corm_err_t \<times> bool \<times> pool \<times> mem" where
  "corm_pool_release p d m =
     (if max_idle_conns (pconfig p) > 0 \<and> idle_count p \<ge> max_idle_conns (pconfig p) then (CORM_OK, True, release_slot p, m)
      else (case alloc m of
              (False, m1) \<Rightarrow> (CORM_ERR_NOMEM, True, release_slot p, m1)
            | (True, m1) \<Rightarrow> (CORM_OK, False, p\<lparr>idle := d # idle p, idle_count := idle_count p + 1\<rparr>, m1)))"

text \<open>\<^verbatim>\<open>corm_pool_destroy\<close>: the connections closed.\<close>

definition corm_pool_destroy :: "pool option \<Rightarrow> nat list" where
  "corm_pool_destroy p = (case p of None \<Rightarrow> [] | Some q \<Rightarrow> idle q)"

section \<open>The concurrent system\<close>

text \<open>The states of a pending \<^verbatim>\<open>corm_pool_acquire\<close>: about to lock, asleep on the condition (with
  whether it has been signalled), pinging a connection, holding the slot of a closed connection,
  opening (attempts made so far), and about to give its slot back and return an error.\<close>

datatype acq = Acq_Start | Acq_Wait bool | Acq_Ping nat | Acq_Dead | Acq_Open nat | Acq_Fail corm_err_t

record pool_sys =
  spool :: pool
  pending :: "acq multiset"
  borrowed :: "nat list"
  live :: "nat set"
  born :: "nat \<Rightarrow> int"

text \<open>\<^verbatim>\<open>pthread_cond_signal\<close> wakes one sleeping call, if there is one.\<close>

inductive signal :: "acq multiset \<Rightarrow> acq multiset \<Rightarrow> bool" where
  wake: "signal (add_mset (Acq_Wait False) M) (add_mset (Acq_Wait True) M)"
| lost: "Acq_Wait False \<notin># M \<Longrightarrow> signal M M"

text \<open>A call may enter the critical section at its start, when it was woken, or when its wait timed
  out while a connection is idle.\<close>

definition may_enter :: "pool_sys \<Rightarrow> acq \<Rightarrow> bool" where
  "may_enter s a \<longleftrightarrow> a = Acq_Start \<or> a = Acq_Wait True \<or>
     (a = Acq_Wait False \<and> timeout_ms (pconfig (spool s)) > 0 \<and> idle (spool s) \<noteq> [])"

inductive pool_step :: "pool_sys \<Rightarrow> pool_sys \<Rightarrow> bool" where
  acquire_call: "pool_step s (s\<lparr>pending := add_mset Acq_Start (pending s)\<rparr>)"
| sleep: "pending s = add_mset a M \<Longrightarrow> may_enter s a \<Longrightarrow> acquire_section now (born s) (spool s) = (Sec_Wait, p) \<Longrightarrow>
    pool_step s (s\<lparr>spool := p, pending := add_mset (Acq_Wait False) M\<rparr>)"
| expired: "pending s = add_mset a M \<Longrightarrow> may_enter s a \<Longrightarrow> acquire_section now (born s) (spool s) = (Sec_Expired d, p) \<Longrightarrow>
    signal (add_mset Acq_Start M) M' \<Longrightarrow>
    pool_step s (s\<lparr>spool := p, pending := M', live := live s - {d}\<rparr>)"
| take_idle: "pending s = add_mset a M \<Longrightarrow> may_enter s a \<Longrightarrow> acquire_section now (born s) (spool s) = (Sec_Ping d, p) \<Longrightarrow>
    pool_step s (s\<lparr>spool := p, pending := add_mset (Acq_Ping d) M\<rparr>)"
| reserve: "pending s = add_mset a M \<Longrightarrow> may_enter s a \<Longrightarrow> acquire_section now (born s) (spool s) = (Sec_Open, p) \<Longrightarrow>
    pool_step s (s\<lparr>spool := p, pending := add_mset (Acq_Open 0) M\<rparr>)"
| timed_out: "pending s = add_mset (Acq_Wait False) M \<Longrightarrow> timeout_ms (pconfig (spool s)) > 0 \<Longrightarrow> idle (spool s) = [] \<Longrightarrow>
    pool_step s (s\<lparr>pending := M\<rparr>)"
| spurious: "pending s = add_mset (Acq_Wait False) M \<Longrightarrow> pool_step s (s\<lparr>pending := add_mset (Acq_Wait True) M\<rparr>)"
| ping_ok: "pending s = add_mset (Acq_Ping d) M \<Longrightarrow> pool_step s (s\<lparr>pending := M, borrowed := d # borrowed s\<rparr>)"
| ping_failed: "pending s = add_mset (Acq_Ping d) M \<Longrightarrow>
    pool_step s (s\<lparr>pending := add_mset Acq_Dead M, live := live s - {d}\<rparr>)"
| dead_retry: "pending s = add_mset Acq_Dead M \<Longrightarrow> signal (add_mset Acq_Start M) M' \<Longrightarrow>
    pool_step s (s\<lparr>spool := release_slot (spool s), pending := M'\<rparr>)"
| open_ok: "pending s = add_mset (Acq_Open k) M \<Longrightarrow> d \<notin> live s \<Longrightarrow>
    pool_step s (s\<lparr>pending := M, borrowed := d # borrowed s, live := insert d (live s), born := (born s)(d := now)\<rparr>)"
| open_retry: "pending s = add_mset (Acq_Open k) M \<Longrightarrow> k + 1 < 3 \<Longrightarrow>
    pool_step s (s\<lparr>pending := add_mset (Acq_Open (k + 1)) M\<rparr>)"
| open_failed: "pending s = add_mset (Acq_Open k) M \<Longrightarrow> \<not> k + 1 < 3 \<Longrightarrow> err \<noteq> CORM_OK \<Longrightarrow>
    pool_step s (s\<lparr>pending := add_mset (Acq_Fail err) M\<rparr>)"
| give_up: "pending s = add_mset (Acq_Fail err) M \<Longrightarrow> signal M M' \<Longrightarrow>
    pool_step s (s\<lparr>spool := release_slot (spool s), pending := M'\<rparr>)"
| release: "d \<in> set (borrowed s) \<Longrightarrow> corm_pool_release (spool s) d m = (err, closed, p, m') \<Longrightarrow> signal (pending s) M' \<Longrightarrow>
    pool_step s (s\<lparr>spool := p, pending := M', borrowed := remove1 d (borrowed s),
      live := (if closed then live s - {d} else live s)\<rparr>)"

inductive reachable :: "string \<Rightarrow> corm_config_t \<Rightarrow> pool_sys \<Rightarrow> bool" for dsn :: string and cfg :: corm_config_t where
  start: "corm_pool_create (Some dsn) cfg m = (Inr p, m') \<Longrightarrow>
    reachable dsn cfg \<lparr>spool = p, pending = {#}, borrowed = [], live = {}, born = (\<lambda>_. 0)\<rparr>"
| step: "reachable dsn cfg s \<Longrightarrow> pool_step s s' \<Longrightarrow> reachable dsn cfg s'"

section \<open>The invariant\<close>

fun holds_slot :: "acq \<Rightarrow> bool" where
  "holds_slot (Acq_Ping d) = True"
| "holds_slot Acq_Dead = True"
| "holds_slot (Acq_Open k) = True"
| "holds_slot (Acq_Fail e) = True"
| "holds_slot _ = False"

fun ping_conn :: "acq \<Rightarrow> nat multiset" where
  "ping_conn (Acq_Ping d) = {#d#}"
| "ping_conn _ = {#}"

definition slots :: "acq multiset \<Rightarrow> nat" where
  "slots M = size (filter_mset holds_slot M)"

definition pinged :: "acq multiset \<Rightarrow> nat multiset" where
  "pinged M = sum_mset (image_mset ping_conn M)"

definition pool_inv :: "pool_sys \<Rightarrow> bool" where
  "pool_inv s \<longleftrightarrow>
     idle_count (spool s) = int (length (idle (spool s))) \<and>
     current_open (spool s) = int (length (idle (spool s)) + length (borrowed s) + slots (pending s)) \<and>
     (max_open_conns (pconfig (spool s)) > 0 \<longrightarrow> current_open (spool s) \<le> max_open_conns (pconfig (spool s))) \<and>
     (max_idle_conns (pconfig (spool s)) > 0 \<longrightarrow> idle_count (spool s) \<le> max_idle_conns (pconfig (spool s))) \<and>
     finite (live s) \<and> mset (idle (spool s)) + mset (borrowed s) + pinged (pending s) = mset_set (live s)"

text \<open>What is available to a waiting call, against the calls that were woken for it.\<close>

definition available :: "pool \<Rightarrow> int" where
  "available p = int (length (idle p)) + (max_open_conns (pconfig p) - current_open p)"

definition wake_inv :: "pool_sys \<Rightarrow> bool" where
  "wake_inv s \<longleftrightarrow> (max_open_conns (pconfig (spool s)) > 0 \<and> Acq_Wait False \<in># pending s \<longrightarrow>
     available (spool s) \<le> int (count (pending s) (Acq_Wait True)))"

lemma slots_add [simp]: "slots (add_mset a M) = (if holds_slot a then 1 else 0) + slots M"
  by (simp add: slots_def)

lemma slots_empty [simp]: "slots {#} = 0"
  by (simp add: slots_def)

lemma pinged_add [simp]: "pinged (add_mset a M) = ping_conn a + pinged M"
  by (simp add: pinged_def)

lemma pinged_empty [simp]: "pinged {#} = {#}"
  by (simp add: pinged_def)

lemma signal_keeps: "signal M M' \<Longrightarrow> slots M' = slots M \<and> pinged M' = pinged M"
  by (induction rule: signal.induct) simp_all

lemma may_enter_neutral: "may_enter s a \<Longrightarrow> \<not> holds_slot a \<and> ping_conn a = {#}"
  by (auto simp: may_enter_def)

lemma section_cases:
  assumes "acquire_section now bo p = (r, p')"
  obtains "r = Sec_Wait" "p' = p" "must_wait p"
  | d ds where "r = Sec_Expired d" "idle p = d # ds" "p' = p\<lparr>idle := ds, idle_count := idle_count p - 1, current_open := current_open p - 1\<rparr>"
  | d ds where "r = Sec_Ping d" "idle p = d # ds" "p' = p\<lparr>idle := ds, idle_count := idle_count p - 1\<rparr>"
  | "r = Sec_Open" "idle p = []" "\<not> must_wait p" "p' = p\<lparr>current_open := current_open p + 1\<rparr>"
proof (cases "must_wait p")
  case True
  with assms that(1) show ?thesis by (simp add: acquire_section_def)
next
  case False
  show ?thesis
  proof (cases "idle p")
    case Nil
    with False assms that(4) show ?thesis by (simp add: acquire_section_def)
  next
    case (Cons d ds)
    let ?x = "conn_max_lifetime_ms (pconfig p) > 0 \<and> now - bo d \<ge> conn_max_lifetime_ms (pconfig p)"
    show ?thesis
    proof (cases ?x)
      case True
      with False Cons assms have "r = Sec_Expired d"
        "p' = p\<lparr>idle := ds, idle_count := idle_count p - 1, current_open := current_open p - 1\<rparr>"
        by (simp_all add: acquire_section_def Let_def)
      with Cons that(2) show ?thesis by blast
    next
      case no: False
      with False Cons assms have "r = Sec_Ping d" "p' = p\<lparr>idle := ds, idle_count := idle_count p - 1\<rparr>"
        by (auto simp: acquire_section_def Let_def)
      with Cons that(3) show ?thesis by blast
    qed
  qed
qed

lemma release_cases:
  assumes "corm_pool_release p d m = (err, closed, p', m')"
  obtains (shut) "closed" "p' = release_slot p"
  | (kept) "\<not> closed" "p' = p\<lparr>idle := d # idle p, idle_count := idle_count p + 1\<rparr>"
      "max_idle_conns (pconfig p) > 0 \<longrightarrow> idle_count p < max_idle_conns (pconfig p)"
  using assms by (auto simp: corm_pool_release_def split: if_splits prod.splits bool.splits)

text \<open>Closing a connection that is owned once.\<close>

lemma live_remove: "finite L \<Longrightarrow> M + {#d#} = mset_set L \<Longrightarrow> M = mset_set (L - {d})"
proof -
  assume f: "finite L" and m: "M + {#d#} = mset_set L"
  have "d \<in># mset_set L" unfolding m [symmetric] by simp
  then have "d \<in> L" using f by simp
  with f have "mset_set L = add_mset d (mset_set (L - {d}))" by (rule mset_set.remove)
  with m show ?thesis by simp
qed

lemma borrowed_split:
  "d \<in> set xs \<Longrightarrow> length xs = Suc (length (remove1 d xs)) \<and> mset xs = add_mset d (mset (remove1 d xs))"
  by (induction xs) (auto simp: length_remove1)

lemma inv_expired:
  assumes "pool_inv s" and "pending s = add_mset a M" and "may_enter s a" and "acquire_section now (born s) (spool s) = (Sec_Expired d, p)"
    and "signal (add_mset Acq_Start M) M'"
  shows "pool_inv (s\<lparr>spool := p, pending := M', live := live s - {d}\<rparr>)"
proof -
  from assms(4) obtain ds where p: "idle (spool s) = d # ds"
    "p = (spool s)\<lparr>idle := ds, idle_count := idle_count (spool s) - 1, current_open := current_open (spool s) - 1\<rparr>"
    by (cases rule: section_cases) auto
  note n = may_enter_neutral [OF assms(3)] and k = signal_keeps [OF assms(5)]
  from assms(1) have f: "finite (live s)" and m: "mset (idle (spool s)) + mset (borrowed s) + pinged (pending s) = mset_set (live s)"
    by (simp_all add: pool_inv_def)
  have "mset ds + mset (borrowed s) + pinged M' + {#d#} = mset_set (live s)" using m p(1) assms(2) n k by simp
  from live_remove [OF f this] p assms(1,2) n k show ?thesis by (auto simp: pool_inv_def)
qed

lemma inv_release:
  assumes "pool_inv s" and "d \<in> set (borrowed s)" and "corm_pool_release (spool s) d m = (err, closed, p, m')" and "signal (pending s) M'"
  shows "pool_inv (s\<lparr>spool := p, pending := M', borrowed := remove1 d (borrowed s), live := (if closed then live s - {d} else live s)\<rparr>)"
proof -
  note k = signal_keeps [OF assms(4)] and b = borrowed_split [OF assms(2)]
  from assms(3) show ?thesis
  proof (cases rule: release_cases)
    case shut
    from assms(1) b have "mset (idle (spool s)) + mset (remove1 d (borrowed s)) + pinged (pending s) + {#d#} = mset_set (live s)" "finite (live s)"
      by (simp_all add: pool_inv_def del: mset_remove1)
    with live_remove [OF this(2,1)] shut k b assms(1) show ?thesis
      by (auto simp: pool_inv_def release_slot_def simp del: mset_remove1 length_remove1)
  next
    case kept
    with k b assms(1) show ?thesis by (auto simp: pool_inv_def simp del: mset_remove1 length_remove1)
  qed
qed

lemma inv_step: "pool_step s s' \<Longrightarrow> pool_inv s \<Longrightarrow> pool_inv s'"
proof (induction rule: pool_step.induct)
  case (sleep s a M now p)
  from sleep(3) have "p = spool s" by (cases rule: section_cases) auto
  with sleep may_enter_neutral [OF sleep(2)] show ?case by (auto simp: pool_inv_def)
next
  case (expired s a M now d p M')
  then show ?case by (intro inv_expired)
next
  case (take_idle s a M now d p)
  from take_idle(3) obtain ds where p: "idle (spool s) = d # ds"
    "p = (spool s)\<lparr>idle := ds, idle_count := idle_count (spool s) - 1\<rparr>"
    by (cases rule: section_cases) auto
  with take_idle may_enter_neutral [OF take_idle(2)] show ?case by (auto simp: pool_inv_def)
next
  case (reserve s a M now p)
  from reserve(3) have p: "idle (spool s) = []" "\<not> must_wait (spool s)" "p = (spool s)\<lparr>current_open := current_open (spool s) + 1\<rparr>"
    by (cases rule: section_cases; simp)+
  with reserve may_enter_neutral [OF reserve(2)] show ?case by (auto simp: pool_inv_def must_wait_def)
next
  case (ping_failed s d M)
  then have "mset (idle (spool s)) + mset (borrowed s) + pinged M + {#d#} = mset_set (live s)" "finite (live s)"
    by (simp_all add: pool_inv_def)
  with live_remove [OF this(2,1)] ping_failed show ?case by (auto simp: pool_inv_def)
next
  case (dead_retry s M M')
  with signal_keeps [OF dead_retry(2)] show ?case by (auto simp: pool_inv_def release_slot_def)
next
  case (give_up s err M M')
  with signal_keeps [OF give_up(2)] show ?case by (auto simp: pool_inv_def release_slot_def)
next
  case (release d s m err closed p m' M')
  from inv_release [OF release.prems release(1-3)] show ?case .
qed (auto simp: pool_inv_def)

lemma signal_wakes:
  "signal M M' \<Longrightarrow> Acq_Wait False \<in># M' \<Longrightarrow>
     Acq_Wait False \<in># M \<and> count M' (Acq_Wait True) = Suc (count M (Acq_Wait True))"
  by (induction rule: signal.induct) auto

text \<open>A step that makes something available signals, one that takes it needs no signal.\<close>

lemma wake_signal:
  assumes "wake_inv s" and "signal N M'" and "pconfig p = pconfig (spool s)" and "available p \<le> available (spool s) + 1"
    and "Acq_Wait False \<in># N \<longrightarrow> Acq_Wait False \<in># pending s" and "count (pending s) (Acq_Wait True) \<le> count N (Acq_Wait True)"
  shows "wake_inv (s\<lparr>spool := p, pending := M', borrowed := bo, live := lv\<rparr>)"
  using assms signal_wakes [OF assms(2)] by (auto simp: wake_inv_def)

lemma wake_take:
  assumes "wake_inv s" and "pending s = add_mset a M" and "\<not> holds_slot b" "pconfig p = pconfig (spool s)"
    and "available p \<le> available (spool s) - 1"
  shows "Acq_Wait False \<in># M \<and> max_open_conns (pconfig p) > 0 \<longrightarrow> available p \<le> int (count M (Acq_Wait True))"
  using assms by (auto simp: wake_inv_def split: if_splits)

lemma wake_step: "pool_step s s' \<Longrightarrow> wake_inv s \<Longrightarrow> wake_inv s'"
proof (induction rule: pool_step.induct)
  case (sleep s a M now p)
  from sleep(3) have "p = spool s" "must_wait (spool s)" by (cases rule: section_cases; simp)+
  then show ?case by (simp add: wake_inv_def available_def must_wait_def)
next
  case (expired s a M now d p M')
  from expired(3) have p: "pconfig p = pconfig (spool s)" "available p = available (spool s)"
    by (cases rule: section_cases; simp add: available_def)+
  show ?case
  proof (cases "Acq_Wait False \<in># M'")
    case True
    from signal_wakes [OF expired(4) this] expired(1) expired.prems p show ?thesis by (auto simp: wake_inv_def split: if_splits)
  qed (simp add: wake_inv_def)
next
  case (take_idle s a M now d p)
  from take_idle(3) have "pconfig p = pconfig (spool s)" "available p = available (spool s) - 1"
    by (cases rule: section_cases; simp add: available_def)+
  with take_idle wake_take [of s a M Acq_Start p] show ?case by (auto simp: wake_inv_def)
next
  case (reserve s a M now p)
  from reserve(3) have "pconfig p = pconfig (spool s)" "available p = available (spool s) - 1"
    by (cases rule: section_cases; simp add: available_def)+
  with reserve wake_take [of s a M Acq_Start p] show ?case by (auto simp: wake_inv_def)
next
  case (dead_retry s M M')
  with wake_signal [OF dead_retry.prems dead_retry(2), where p = "release_slot (spool s)" and bo = "borrowed s" and lv = "live s"] show ?case
    by (auto simp: release_slot_def available_def wake_inv_def)
next
  case (give_up s err M M')
  with wake_signal [OF give_up.prems give_up(2), where p = "release_slot (spool s)" and bo = "borrowed s" and lv = "live s"] show ?case
    by (auto simp: release_slot_def available_def wake_inv_def)
next
  case (release d s m err closed p m' M')
  from release(2) have "pconfig p = pconfig (spool s)" "available p = available (spool s) + 1"
    by (cases rule: release_cases; simp add: available_def release_slot_def)+
  with release wake_signal [OF release.prems release(3), where p = p] show ?case by simp
qed (auto simp: wake_inv_def)

lemma reachable_config: "reachable dsn cfg s \<Longrightarrow> pconfig (spool s) = cfg"
proof (induction rule: reachable.induct)
  case (start m p m')
  then show ?case by (auto simp: corm_pool_create_def split: prod.splits bool.splits)
next
  case (step s s')
  from step(2) have "pconfig (spool s') = pconfig (spool s)"
    by (induction rule: pool_step.induct) (auto elim!: section_cases release_cases simp: release_slot_def)
  with step show ?case by simp
qed

lemma reachable_invs: "reachable dsn cfg s \<Longrightarrow> pool_inv s \<and> wake_inv s"
proof (induction rule: reachable.induct)
  case (start m p m')
  then show ?case by (auto simp: corm_pool_create_def pool_inv_def wake_inv_def split: prod.splits bool.splits)
next
  case (step s s')
  then show ?case using inv_step wake_step by blast
qed

lemma distinct_owned: "mset xs \<subseteq># mset_set L \<Longrightarrow> distinct xs"
proof (induction xs)
  case (Cons x xs)
  from Cons.prems have "count (mset (x # xs)) x \<le> count (mset_set L) x" by (rule mset_subset_eq_count)
  also have "\<dots> \<le> 1" by (simp add: count_mset_set')
  finally have "x \<notin># mset xs" by (simp add: not_in_iff)
  moreover have "mset xs \<subseteq># mset_set L"
    using Cons.prems by (metis mset.simps(2) mset_subset_eq_insertD subset_mset.less_imp_le)
  ultimately show ?case using Cons.IH by simp
qed simp

section \<open>Properties\<close>

text \<open>A pool of one connection, borrowed, with a second caller asleep.\<close>

definition small_config :: corm_config_t where
  "small_config = CORM_DEFAULT_CONFIG\<lparr>max_open_conns := 1\<rparr>"

lemma reachable_busy:
  "\<exists>s. reachable ''app.db'' small_config s \<and> borrowed s = [1] \<and> pending s = {#Acq_Wait False#} \<and> idle (spool s) = []"
proof -
  define p0 where "p0 = \<lparr>pool_dsn = ''app.db'', pconfig = small_config, current_open = 0, idle_count = 0, idle = []\<rparr>"
  define s0 where "s0 = \<lparr>spool = p0, pending = {#}, borrowed = [], live = {}, born = (\<lambda>_. 0)\<rparr>"
  have "corm_pool_create (Some ''app.db'') small_config [] = (Inr p0, [])"
    by (simp add: corm_pool_create_def p0_def snprintf_buf_def)
  from reachable.start [OF this] have 0: "reachable ''app.db'' small_config s0" by (simp add: s0_def)
  define s1 where "s1 = s0\<lparr>pending := {#Acq_Start#}\<rparr>"
  from reachable.step [OF 0 acquire_call] have 1: "reachable ''app.db'' small_config s1" by (simp add: s1_def s0_def)
  define p1 where "p1 = p0\<lparr>current_open := 1\<rparr>"
  have "acquire_section 0 (born s1) (spool s1) = (Sec_Open, p1)"
    by (simp add: acquire_section_def must_wait_def s1_def s0_def p0_def p1_def small_config_def)
  from pool_step.reserve [OF _ _ this, of Acq_Start "{#}"]
  have "pool_step s1 (s1\<lparr>spool := p1, pending := {#Acq_Open 0#}\<rparr>)" by (simp add: s1_def may_enter_def)
  from reachable.step [OF 1 this] have 2: "reachable ''app.db'' small_config (s1\<lparr>spool := p1, pending := {#Acq_Open 0#}\<rparr>)" .
  define s3 where "s3 = s1\<lparr>spool := p1, pending := {#}, borrowed := [1], live := {1}, born := (\<lambda>_. 0)(1 := 0)\<rparr>"
  from pool_step.open_ok [of "s1\<lparr>spool := p1, pending := {#Acq_Open 0#}\<rparr>" 0 "{#}" 1 0]
  have "pool_step (s1\<lparr>spool := p1, pending := {#Acq_Open 0#}\<rparr>) s3" by (simp add: s3_def s1_def s0_def)
  from reachable.step [OF reachable.step [OF 2 this] acquire_call]
  have 3: "reachable ''app.db'' small_config (s3\<lparr>pending := {#Acq_Start#}\<rparr>)" by (simp add: s3_def)
  have "acquire_section 0 (born (s3\<lparr>pending := {#Acq_Start#}\<rparr>)) (spool (s3\<lparr>pending := {#Acq_Start#}\<rparr>)) = (Sec_Wait, p1)"
    by (simp add: acquire_section_def must_wait_def s3_def p1_def p0_def small_config_def)
  from pool_step.sleep [OF _ _ this, of Acq_Start "{#}"]
  have "pool_step (s3\<lparr>pending := {#Acq_Start#}\<rparr>) (s3\<lparr>pending := {#Acq_Wait False#}\<rparr>)"
    by (simp add: may_enter_def s3_def s1_def s0_def)
  from reachable.step [OF 3 this] show ?thesis
    by (intro exI [of _ "s3\<lparr>pending := {#Acq_Wait False#}\<rparr>"]) (simp add: s3_def p1_def p0_def)
qed

text \<open>(C3) The pool under any interleaving of callers: the number of open connections is exactly the idle
  ones, the borrowed ones and the slots of calls in flight, and never exceeds
  \<^verbatim>\<open>max_open_conns\<close>; the idle counter is the length of the idle list and never exceeds
  \<^verbatim>\<open>max_idle_conns\<close>; and every live connection is in exactly one place -- idle, borrowed once, or
  being pinged by one call -- so no connection is handed to two callers, used after it is closed, or
  lost.\<close>

theorem pool_accounting:
  assumes "reachable dsn cfg s"
  shows "current_open (spool s) = int (length (idle (spool s)) + length (borrowed s) + slots (pending s)) \<and>
    (max_open_conns cfg > 0 \<longrightarrow> current_open (spool s) \<le> max_open_conns cfg) \<and>
    idle_count (spool s) = int (length (idle (spool s))) \<and>
    (max_idle_conns cfg > 0 \<longrightarrow> idle_count (spool s) \<le> max_idle_conns cfg) \<and>
    finite (live s) \<and> mset (idle (spool s)) + mset (borrowed s) + pinged (pending s) = mset_set (live s) \<and>
    distinct (idle (spool s) @ borrowed s)"
proof -
  from reachable_invs [OF assms] have inv: "pool_inv s" by simp
  then have "mset (idle (spool s) @ borrowed s) \<subseteq># mset_set (live s)"
    unfolding pool_inv_def by (metis mset_append mset_subset_eq_add_left)
  then have "distinct (idle (spool s) @ borrowed s)" by (rule distinct_owned)
  with inv reachable_config [OF assms] show ?thesis by (auto simp: pool_inv_def)
qed

theorem pool_accounting_witness:
  "\<exists>s. reachable ''app.db'' small_config s \<and> borrowed s = [1] \<and> current_open (spool s) = 1 \<and> live s = {1}"
proof -
  obtain s where r: "reachable ''app.db'' small_config s" and s: "borrowed s = [1]" "pending s = {#Acq_Wait False#}" "idle (spool s) = []"
    using reachable_busy by blast
  from pool_accounting [OF r] s have "current_open (spool s) = 1" "finite (live s)" "mset_set (live s) = {#1#}" by simp_all
  moreover from this have "live s = {1}" by (metis finite_set_mset_mset_set set_mset_single)
  ultimately show ?thesis using r s by blast
qed



text \<open>The deadline of a timed wait is the given time plus the timeout, with the nanoseconds
  normalised, as \<^verbatim>\<open>pthread_cond_timedwait\<close> requires.\<close>

theorem pool_deadline:
  assumes "0 \<le> nsec" and "nsec < 1000000000" and "0 < tmo" and "deadline sec nsec tmo = (s', n')"
  shows "0 \<le> n' \<and> n' < 1000000000 \<and> s' * 1000000000 + n' = sec * 1000000000 + nsec + tmo * 1000000"
proof -
  have t: "tmo = 1000 * (tmo div 1000) + tmo mod 1000" "0 \<le> tmo mod 1000" "tmo mod 1000 < 1000" by simp_all
  define q r where "q = tmo div 1000" and "r = tmo mod 1000"
  with t have "tmo = 1000 * q + r" "0 \<le> r" "r < 1000" by simp_all
  with assms show ?thesis unfolding deadline_def Let_def q_def [symmetric] r_def [symmetric] by (auto split: if_splits)
qed

theorem pool_deadline_witness: "deadline 5 999000000 1500 = (7, 499000000)"
proof -
  obtain s n where d: "deadline 5 999000000 1500 = (s, n)" by fastforce
  from pool_deadline [OF _ _ _ d] have "0 \<le> n" "n < 1000000000" "s * 1000000000 + n = 7499000000" by simp_all
  then have "s < 8" "6 < s" by linarith+
  with \<open>s * 1000000000 + n = 7499000000\<close> have "s = 7" "n = 499000000" by linarith+
  with d show ?thesis by simp
qed

end
