(* ===== verification/Sqlite_Ownership.thy ===== *)
theory Sqlite_Ownership
  imports Sqlite_Driver
begin

text \<open>
  Prepared statements of the SQLite driver: which statement handles are live, that the statement cache
  owns them, and that no call of \<^verbatim>\<open>src/backend/sqlite3.c\<close> uses or finalises a handle
  that is gone.
\<close>

section \<open>Ownership of prepared statements\<close>

text \<open>What SQLite documents about the life of statement handles, for a function \<open>live\<close> that gives the
  handles prepared and not yet finalised: \<^verbatim>\<open>sqlite3_prepare_v2\<close> gives a new one,
  \<^verbatim>\<open>sqlite3_finalize\<close> ends one, and the other calls keep them, provided they are applied to a
  live handle.\<close>

definition statement_life :: "('c, 's) sqlite_api \<Rightarrow> ('c \<Rightarrow> 's set) \<Rightarrow> bool" where
  "statement_life L live \<longleftrightarrow>
     (\<forall>dsn rc x. sqlite3_open L dsn = (rc, x) \<longrightarrow> live x = {}) \<and>
     (\<forall>x sql. live (snd (sqlite3_exec L x sql)) = live x) \<and>
     (\<forall>x sql rc st x'. sqlite3_prepare_v2 L x sql = ((rc, st), x') \<longrightarrow>
        (if rc = SQLITE_OK then (case st of None \<Rightarrow> live x' = live x | Some s \<Rightarrow> s \<notin> live x \<and> live x' = insert s (live x))
         else live x' = live x)) \<and>
     (\<forall>s x. s \<in> live x \<longrightarrow>
        live (sqlite3_finalize L s x) = live x - {s} \<and> live (sqlite3_reset L s x) = live x \<and>
        live (sqlite3_clear_bindings L s x) = live x \<and> (\<forall>i a. live (sqlite3_bind L s i a x) = live x) \<and>
        live (snd (sqlite3_step L s x)) = live x)"

text \<open>Every cached statement is live; \<open>exact\<close>: and there are no others.\<close>

definition owned :: "('c \<Rightarrow> 's set) \<Rightarrow> bool \<Rightarrow> ('c, 's) conn_core \<Rightarrow> 'c \<Rightarrow> (string \<times> 's) list \<Rightarrow> bool" where
  "owned live exact c x xs \<longleftrightarrow>
     (\<exists>k. stmt_cache c = Some k \<and> cache_rel k xs \<and> entry_destroy_fn k) \<and> distinct (map snd xs) \<and>
     snd ` set xs \<subseteq> live x \<and> (exact \<longrightarrow> live x = snd ` set xs)"

lemma life_simps:
  assumes "statement_life L live" and "s \<in> live x"
  shows "live (sqlite3_finalize L s x) = live x - {s}" "live (sqlite3_reset L s x) = live x"
    "live (sqlite3_clear_bindings L s x) = live x" "live (sqlite3_bind L s i a x) = live x"
    "sqlite3_step L s x = (rc, x') \<Longrightarrow> live x' = live x"
proof -
  note a = assms(1) [unfolded statement_life_def] and s = assms(2)
  show "live (sqlite3_finalize L s x) = live x - {s}" using a s by blast
  show "live (sqlite3_reset L s x) = live x" using a s by blast
  show "live (sqlite3_clear_bindings L s x) = live x" using a s by blast
  show "live (sqlite3_bind L s i a x) = live x" using a s by blast
  assume "sqlite3_step L s x = (rc, x')"
  with a s show "live x' = live x" by (metis snd_conv)
qed

lemma life_exec: "statement_life L live \<Longrightarrow> live (snd (sqlite3_exec L x sql)) = live x"
  unfolding statement_life_def by (elim conjE) (erule allE, erule allE)

lemma life_open: "statement_life L live \<Longrightarrow> sqlite3_open L dsn = (rc, x) \<Longrightarrow> live x = {}"
  unfolding statement_life_def by (elim conjE) (erule allE, erule allE, erule allE, erule mp)

lemma life_prepare:
  assumes "statement_life L live" and "sqlite3_prepare_v2 L x sql = ((rc, st), x')"
  shows "rc = SQLITE_OK \<Longrightarrow> st = Some s \<Longrightarrow> s \<notin> live x \<and> live x' = insert s (live x)"
    and "rc \<noteq> SQLITE_OK \<or> st = None \<Longrightarrow> live x' = live x"
proof -
  have a: "if rc = SQLITE_OK then (case st of None \<Rightarrow> live x' = live x | Some s \<Rightarrow> s \<notin> live x \<and> live x' = insert s (live x))
         else live x' = live x"
    using assms unfolding statement_life_def by blast
  show "rc = SQLITE_OK \<Longrightarrow> st = Some s \<Longrightarrow> s \<notin> live x \<and> live x' = insert s (live x)" using a by simp
  show "rc \<noteq> SQLITE_OK \<or> st = None \<Longrightarrow> live x' = live x" using a by (cases st) (auto split: if_splits)
qed

lemma life_finalize_all:
  assumes "statement_life L live"
  shows "distinct ss \<Longrightarrow> set ss \<subseteq> live x \<Longrightarrow> live (sqlite_finalize_stmt L ss x) = live x - set ss"
proof (induction ss arbitrary: x)
  case (Cons s ss)
  have l: "live (sqlite3_finalize L s x) = live x - {s}" by (rule life_simps(1) [OF assms]) (use Cons.prems in simp)
  with Cons.IH [of "sqlite3_finalize L s x"] Cons.prems have "live (sqlite_finalize_stmt L ss (sqlite3_finalize L s x)) = live x - {s} - set ss"
    by auto
  then show ?case by (auto simp: sqlite_finalize_stmt_def)
qed (simp add: sqlite_finalize_stmt_def)

lemma life_bind:
  assumes "statement_life L live"
  shows "s \<in> live x \<Longrightarrow> sqlite_bind_params L s ps i x = Some x' \<Longrightarrow> live x' = live x"
proof (induction ps arbitrary: i x)
  case (Cons p ps)
  then obtain a where a: "bind_arg p = Some a" "sqlite_bind_params L s ps (i + 1) (sqlite3_bind L s (int i + 1) a x) = Some x'"
    by (auto split: option.splits)
  have l: "live (sqlite3_bind L s (int i + 1) a x) = live x" by (rule life_simps(4) [OF assms Cons.prems(1)])
  with Cons.IH [OF _ a(2)] Cons.prems(1) show ?case by simp
qed simp

lemma life_fetch:
  assumes "statement_life L live" and "fetch_rows L s x cols rs cap ts m = Some (r, rs', x', m')" and "s \<in> live x"
  shows "live x' = live x"
proof -
  let ?I = "\<lambda>y (_ :: corm_value_t list list) (_ :: corm_field_type_t list) (_ :: mem). live y = live x"
  have "\<exists>x0 ts0 m0 rc. ?I x0 rs' ts0 m0 \<and> sqlite3_step L s x0 = (rc, x') \<and>
    (case r of Inl err \<Rightarrow> rc = SQLITE_ROW \<and> err = CORM_ERR_NOMEM \<and> (m0 = [] \<longrightarrow> m' = []) | Inr (rc', ts') \<Rightarrow> rc \<noteq> SQLITE_ROW \<and> rc' = rc \<and> ts' = ts0 \<and> m' = m0)"
    by (rule fetch_rows_rule [OF assms(2), of ?I]) (use assms(3) life_simps(5) [OF assms(1)] in \<open>simp_all, blast\<close>)
  then obtain x0 rc where "live x0 = live x" "sqlite3_step L s x0 = (rc, x')" by blast
  with life_simps(5) [OF assms(1)] assms(3) show ?thesis by metis
qed

lemma remove_statements:
  assumes "distinct (map fst xs)" and "distinct (map snd xs)" and "map_of xs k = Some s"
  shows "snd ` set (lru_remove xs k) = snd ` set xs - {s}"
proof -
  from assms(3) have m: "(k, s) \<in> set xs" by (rule map_of_SomeD)
  have "t = s \<longleftrightarrow> j = k" if "(j, t) \<in> set xs" for j t
  proof
    from assms(2) have "inj_on snd (set xs)" by (simp add: distinct_map)
    from inj_onD [OF this _ that m] show "t = s \<Longrightarrow> j = k" by simp
    show "j = k \<Longrightarrow> t = s" using eq_key_imp_eq_value [OF assms(1)] that m by blast
  qed
  with m show ?thesis by (force simp: lru_remove_def)
qed

lemma butlast_statements:
  assumes "distinct (map snd xs)" and "xs \<noteq> []"
  shows "snd ` set (butlast xs) = snd ` set xs - {snd (last xs)}"
proof -
  from assms(2) have "xs = butlast xs @ [last xs]" by simp
  with assms(1) have "snd (last xs) \<notin> snd ` set (butlast xs)" "snd ` set xs = insert (snd (last xs)) (snd ` set (butlast xs))"
    by (metis distinct_append distinct.simps(2) list.set_map map_append list.simps(9) disjoint_insert(1) list.set(2))
      (metis \<open>xs = butlast xs @ [last xs]\<close> image_insert list.set(2) rotate1.simps(2) set_rotate1 snoc_eq_iff_butlast)
  then show ?thesis by auto
qed

lemma owned_lookup:
  assumes "owned live ex c x xs" and "map_of xs sql = Some st"
  shows "\<exists>k'. corm_stmt_cache_get (stmt_cache c) (Some sql) = Some (Some st, k') \<and>
    owned live ex (c\<lparr>stmt_cache := k'\<rparr>) x ((sql, st) # lru_remove xs sql)"
proof -
  from assms(1) obtain k where k: "stmt_cache c = Some k" "cache_rel k xs" "entry_destroy_fn k"
    and d: "distinct (map snd xs)" "snd ` set xs \<subseteq> live x" "ex \<longrightarrow> live x = snd ` set xs" by (auto simp: owned_def)
  from get_refines [OF k(2), of sql] assms(2) k(3) obtain k' where
    k': "corm_stmt_cache_get_unlocked k sql = Some (Some st, k')" "cache_rel k' ((sql, st) # lru_remove xs sql)" "entry_destroy_fn k'"
    by (auto simp: lru_get_def lru_remove_def)
  have df: "distinct (map fst xs)" using cache_rel_bounds [OF k(2)] by simp
  note r = remove_statements [OF df d(1) assms(2)]
  have m: "(sql, st) \<in> set xs" using assms(2) by (rule map_of_SomeD)
  then have s: "snd ` set ((sql, st) # lru_remove xs sql) = snd ` set xs" using r by force
  have "st \<notin> set (map snd (lru_remove xs sql))" using r by auto
  moreover have "distinct (map snd (lru_remove xs sql))" using d(1) by (simp add: lru_remove_def distinct_map_filter)
  ultimately have "distinct (map snd ((sql, st) # lru_remove xs sql))" by simp
  with k k' d s show ?thesis by (auto simp: corm_stmt_cache_get_def owned_def)
qed

lemma owned_miss:
  assumes "owned live ex c x xs" and "map_of xs sql = None"
  shows "\<exists>k'. corm_stmt_cache_get (stmt_cache c) (Some sql) = Some (None, Some k') \<and> cache_rel k' xs \<and> entry_destroy_fn k'"
proof -
  from assms(1) obtain k where k: "stmt_cache c = Some k" "cache_rel k xs" "entry_destroy_fn k" by (auto simp: owned_def)
  from get_refines [OF k(2), of sql] assms(2) k show ?thesis
    by (auto simp: lru_get_def corm_stmt_cache_get_def)
qed

lemma owned_put:
  assumes "statement_life L live" and "cache_rel k xs" and "entry_destroy_fn k" and "distinct (map snd xs)"
    and "snd ` set xs \<subseteq> live x" and "ex \<longrightarrow> live x = insert st (snd ` set xs)" and "map_of xs sql = None"
    and "st \<in> live x" and "st \<notin> snd ` set xs"
    and "corm_stmt_cache_put (Some k) (Some sql) (Some st) m = Some (err, gone, k1, m1)"
  shows "\<exists>xs1. owned live (ex \<and> m = []) (c\<lparr>stmt_cache := k1\<rparr>) (sqlite_finalize_stmt L gone x) xs1 \<and>
    st \<in> live (sqlite_finalize_stmt L gone x) \<and> (m = [] \<longrightarrow> xs1 = (sql, st) # lru_trim (capacity k) xs)"
proof -
  let ?xs = "lru_trim (capacity k) xs" and ?x = "sqlite_finalize_stmt L gone x"
  from put_refines_new [OF assms(2,7), of st m] assms(3,10) obtain k' where
    k': "k1 = Some k'" "gone = (if capacity k \<le> length xs then [snd (last xs)] else [])" "entry_destroy_fn k'"
      "cache_rel k' ((sql, st) # ?xs) \<or> cache_rel k' ?xs" "m = [] \<longrightarrow> cache_rel k' ((sql, st) # ?xs)" by auto
  have cap: "0 < capacity k" using assms(2) by (auto simp: cache_rel_def cache_at_def)
  have x: "snd ` set ?xs \<subseteq> live ?x \<and> st \<in> live ?x \<and> (ex \<longrightarrow> live ?x = insert st (snd ` set ?xs))"
  proof (cases "capacity k \<le> length xs")
    case True
    with cap have ne: "xs \<noteq> []" by auto
    then have l: "snd (last xs) \<in> snd ` set xs" by simp
    then have "live ?x = live x - {snd (last xs)}"
      using life_simps(1) [OF assms(1)] k'(2) True assms(5) by (auto simp: sqlite_finalize_stmt_def)
    moreover have "snd ` set ?xs = snd ` set xs - {snd (last xs)}"
      using True butlast_statements [OF assms(4) ne] by (simp add: lru_trim_def)
    moreover from l assms(9) have "st \<noteq> snd (last xs)" by auto
    ultimately show ?thesis using assms(5,6,8) by auto
  next
    case False
    with k'(2) assms(5,6,8) show ?thesis by (simp add: sqlite_finalize_stmt_def lru_trim_def)
  qed
  have sub: "set (map snd ?xs) \<subseteq> set (map snd xs)" by (auto simp: lru_trim_def dest: in_set_butlastD)
  have dx: "distinct (map snd ?xs)" using assms(4) by (simp add: lru_trim_def map_butlast distinct_butlast)
  show ?thesis
  proof (cases "cache_rel k' ((sql, st) # ?xs)")
    case True
    have "distinct (map snd ((sql, st) # ?xs))" using dx sub assms(9) by auto
    with True x k' show ?thesis by (intro exI [of _ "(sql, st) # ?xs"]) (auto simp: owned_def)
  next
    case False
    with k'(4,5) x dx k'(1,3) show ?thesis by (intro exI [of _ ?xs]) (auto simp: owned_def)
  qed
qed

lemma owned_get_stmt:
  assumes life: "statement_life L live" and own: "owned live ex c x xs"
    and get: "sqlite_get_stmt L c x sql m = Some (sp, c1, x1, m1)"
  shows "\<exists>xs1. owned live (ex \<and> m = []) c1 x1 xs1 \<and> (\<forall>st. sp = Some st \<longrightarrow> st \<in> live x1) \<and> conn c1 = conn c \<and> (m = [] \<longrightarrow> m1 = [])"
proof (cases "map_of xs sql")
  case (Some st)
  from owned_lookup [OF own Some] obtain k' where k': "corm_stmt_cache_get (stmt_cache c) (Some sql) = Some (Some st, k')"
    "owned live ex (c\<lparr>stmt_cache := k'\<rparr>) x ((sql, st) # lru_remove xs sql)" by blast
  from k'(2) have st: "st \<in> live x" by (auto simp: owned_def)
  have l: "live (sqlite3_clear_bindings L st (sqlite3_reset L st x)) = live x"
    using life_simps(2,3) [OF life] st by metis
  from k' get have "sp = Some st" "c1 = c\<lparr>stmt_cache := k'\<rparr>" "x1 = sqlite3_clear_bindings L st (sqlite3_reset L st x)" "m1 = m"
    by (auto simp: sqlite_get_stmt_def)
  with k'(2) l st show ?thesis by (intro exI [of _ "(sql, st) # lru_remove xs sql"]) (auto simp: owned_def)
next
  case None
  from own have d: "distinct (map snd xs)" "snd ` set xs \<subseteq> live x" "ex \<longrightarrow> live x = snd ` set xs" by (auto simp: owned_def)
  from owned_miss [OF own None] obtain k' where k': "corm_stmt_cache_get (stmt_cache c) (Some sql) = Some (None, Some k')"
    "cache_rel k' xs" "entry_destroy_fn k'" by blast
  obtain rc st x0 where p: "sqlite3_prepare_v2 L x sql = ((rc, st), x0)" by (metis prod.collapse)
  show ?thesis
  proof (cases "rc = SQLITE_OK \<and> st \<noteq> None")
    case True
    then obtain s where s: "st = Some s" by auto
    with True life_prepare(1) [OF life p, of s] have l: "s \<notin> live x" "live x0 = insert s (live x)" by auto
    from get k' p True s obtain err gone k1 where put: "corm_stmt_cache_put (Some k') (Some sql) (Some s) m = Some (err, gone, k1, m1)"
      and r: "sp = Some s" "c1 = c\<lparr>stmt_cache := k1\<rparr>" "x1 = sqlite_finalize_stmt L gone x0"
      by (auto simp: sqlite_get_stmt_def split: option.splits)
    have h: "snd ` set xs \<subseteq> live x0" "ex \<longrightarrow> live x0 = insert s (snd ` set xs)" "s \<in> live x0" "s \<notin> snd ` set xs"
      using d l by auto
    from owned_put [OF life k'(2,3) d(1) h(1,2) None h(3,4) put, of c] put_mem put r show ?thesis by auto
  next
    case False
    then have l: "live x0 = live x" using life_prepare(2) [OF life p] by auto
    from False get k' p have "sp = None" "stmt_cache c1 = Some k'" "x1 = x0" "m1 = m" "conn c1 = conn c"
      by (auto simp: sqlite_get_stmt_def corm_set_err_msg_def corm_stmt_cache_put_def sqlite_finalize_stmt_def split: if_splits)
    with k' d l show ?thesis by (intro exI [of _ xs]) (auto simp: owned_def)
  qed
qed

lemma owned_cleanup:
  assumes "statement_life L live" and "owned live ex c x xs" and "sqlite_cleanup_stmt L c x sql = Some (c2, x2)"
  shows "owned live ex c2 x2 (lru_remove xs sql) \<and> conn c2 = conn c"
proof -
  from assms(2) obtain k where k: "stmt_cache c = Some k" "cache_rel k xs" "entry_destroy_fn k"
    and d: "distinct (map snd xs)" "snd ` set xs \<subseteq> live x" "ex \<longrightarrow> live x = snd ` set xs" by (auto simp: owned_def)
  from remove_refines [OF k(2), of sql] obtain k' where k': "corm_stmt_cache_remove (Some k) (Some sql) = Some (map_of xs sql, Some k')"
    "cache_rel k' (lru_remove xs sql)" "entry_destroy_fn k'" using k(3) by auto
  have df: "distinct (map fst xs)" using cache_rel_bounds [OF k(2)] by simp
  have dr: "distinct (map snd (lru_remove xs sql))" using d(1) by (simp add: lru_remove_def distinct_map_filter)
  show ?thesis
  proof (cases "map_of xs sql")
    case None
    then have "lru_remove xs sql = xs" by (auto simp: lru_remove_def filter_id_conv map_of_eq_None_iff)
    with None assms(3) k k' d show ?thesis by (auto simp: sqlite_cleanup_stmt_def owned_def)
  next
    case (Some st)
    then have "st \<in> live x" using d(2) map_of_SomeD by fastforce
    with life_simps(1) [OF assms(1)] Some assms(3) k k' have "live x2 = live x - {st}" "stmt_cache c2 = Some k'" "conn c2 = conn c"
      by (auto simp: sqlite_cleanup_stmt_def)
    with remove_statements [OF df d(1) Some] d k' dr show ?thesis by (auto simp: owned_def)
  qed
qed

lemma owned_step:
  assumes "statement_life L live" and "owned live ex c x xs" and "live x' = live x"
  shows "owned live ex c x' xs" "owned live ex (corm_set_err_msg c s) x' xs" "owned live ex (c\<lparr>conn := y\<rparr>) x' xs"
  using assms by (auto simp: owned_def corm_set_err_msg_def)

lemma owned_exec:
  assumes life: "statement_life L live" and own: "owned live ex c x xs" and cn: "conn c = Some x"
    and run: "sqlite_exec L c sql ps m = Some (err, c', m')"
  shows "\<exists>x' xs'. conn c' = Some x' \<and> owned live (ex \<and> m = []) c' x' xs' \<and> (m = [] \<longrightarrow> m' = [])"
proof -
  from run cn obtain sp c1 x1 m1 where g: "sqlite_get_stmt L c x sql m = Some (sp, c1, x1, m1)"
    by (auto simp: sqlite_exec_def split: option.splits)
  from owned_get_stmt [OF life own g] obtain xs1 where o1: "owned live (ex \<and> m = []) c1 x1 xs1"
    and st: "\<And>st. sp = Some st \<Longrightarrow> st \<in> live x1" and mm: "m = [] \<longrightarrow> m1 = []" by blast
  show ?thesis
  proof (cases sp)
    case None
    with run cn g have "c' = c1\<lparr>conn := Some x1\<rparr>" "m' = m1" by (auto simp: sqlite_exec_def)
    with owned_step(3) [OF life o1 refl] mm show ?thesis by auto
  next
    case (Some s)
    with run cn g obtain x2 where b: "sqlite_bind_params L s ps 0 x1 = Some x2" by (auto simp: sqlite_exec_def split: option.splits)
    obtain rc x3 where step: "sqlite3_step L s x2 = (rc, x3)" by fastforce
    have "live x2 = live x1" by (rule life_bind [OF life st [OF Some] b])
    with life_simps(5) [OF life _ step] st [OF Some] have l: "live x3 = live x1" by simp
    show ?thesis
    proof (cases "rc \<noteq> SQLITE_DONE \<and> rc \<noteq> SQLITE_ROW")
      case True
      with run cn g Some b step obtain c2 x4 where
        cl: "sqlite_cleanup_stmt L (corm_set_err_msg c1 (sqlite3_errmsg L x3)) x3 sql = Some (c2, x4)"
        and r: "c' = c2\<lparr>conn := Some x4\<rparr>" "m' = m1" by (auto simp: sqlite_exec_def split: option.splits)
      from owned_cleanup [OF life owned_step(2) [OF life o1 l] cl] have "owned live (ex \<and> m = []) c2 x4 (lru_remove xs1 sql)" by simp
      from owned_step(3) [OF life this refl] r mm show ?thesis by auto
    next
      case False
      with run cn g Some b step have "c' = c1\<lparr>conn := Some x3\<rparr>" "m' = m1" by (auto simp: sqlite_exec_def)
      with owned_step(3) [OF life o1 l] mm show ?thesis by auto
    qed
  qed
qed

text \<open>How a query that got its statement can end: with the result, or with the statement removed.\<close>

lemma query_shape:
  assumes cn: "conn c = Some x" and g: "sqlite_get_stmt L c x sql m = Some (Some s, c1, x1, m1)"
    and b: "sqlite_bind_params L s ps 0 x1 = Some x2" and run: "sqlite_query L c sql ps m = Some (r, lost, c', m')"
  obtains x3 where "x3 = x2 \<or> (\<exists>q cap ts rs m3 m4. fetch_rows L s x2 (sqlite3_column_count L x2 s) [] cap ts m3 = Some (q, rs, x3, m4))"
    and "c' = c1\<lparr>conn := Some x3\<rparr> \<or> (\<exists>c2 x4 msg. sqlite_cleanup_stmt L c1 x3 sql = Some (c2, x4) \<and>
        (c' = c2\<lparr>conn := Some x4\<rparr> \<or> c' = corm_set_err_msg (c2\<lparr>conn := Some x4\<rparr>) msg))"
    and "m1 = [] \<longrightarrow> m' = []"
proof -
  let ?cols = "sqlite3_column_count L x2 s" and ?ts = "replicate (nat (sqlite3_column_count L x2 s)) CORM_INT"
  obtain ok1 m2 where a1: "alloc m1 = (ok1, m2)" by fastforce
  obtain ok2 m3 where a2: "calloc_n ?cols m2 = (ok2, m3)" by fastforce
  have m3: "m1 = [] \<longrightarrow> m3 = []" using a1 a2 by (auto simp: calloc_n_def split: if_splits)
  note run' = run [unfolded sqlite_query_def cn option.case g prod.case b Let_def a1 a2]
  show ?thesis
  proof (cases "ok1 \<and> ok2")
    case False
    with run' m3 that [of x2] show ?thesis by (auto split: option.splits)
  next
    case True
    with run' obtain q rs x3 m4 where f: "fetch_rows L s x2 ?cols [] 16 ?ts m3 = Some (q, rs, x3, m4)"
      by (auto split: option.splits)
    have m4: "m1 = [] \<longrightarrow> m4 = []" using fetch_mem [of L s x2 ?cols "[]" 16 ?ts q rs x3 m4] f m3 by auto
    have x3: "x3 = x2 \<or> (\<exists>q cap ts rs m3 m4. fetch_rows L s x2 ?cols [] cap ts m3 = Some (q, rs, x3, m4))" using f by blast
    show ?thesis
    proof (cases q)
      case (Inl err)
      with run' True f m4 that [OF x3] show ?thesis by (auto split: option.splits)
    next
      case (Inr p)
      then obtain rc ts where q: "q = Inr (rc, ts)" by (cases p) auto
      show ?thesis
      proof (cases "rc = SQLITE_DONE")
        case False
        with run' True f q m4 that [OF x3] show ?thesis by (auto split: option.splits)
      next
        case fin: True
        obtain res a fr m5 where n: "corm_result_new ?cols 0 m4 = (res, a, fr, m5)" using prod_cases4 by blast
        have m5: "m1 = [] \<longrightarrow> m5 = []" using result_new_mem [of ?cols res a fr m5] n m4 by auto
        show ?thesis
        proof (cases res)
          case None
          with run' True f q fin n m5 that [OF x3] show ?thesis by (auto split: option.splits)
        next
          case (Some r0)
          with run' True f q fin n obtain ns m6 where "copy_names L x3 s 0 (nat ?cols) m5 = Some (ns, m6)"
            "c' = c1\<lparr>conn := Some x3\<rparr>" "m' = m6" by (auto split: option.splits)
          with copy_names_mem [of L x3 s 0 "nat ?cols" ns m6] m5 that [OF x3] show ?thesis by auto
        qed
      qed
    qed
  qed
qed

lemma owned_query:
  assumes life: "statement_life L live" and own: "owned live ex c x xs" and cn: "conn c = Some x"
    and run: "sqlite_query L c sql ps m = Some (r, lost, c', m')"
  shows "\<exists>x' xs'. conn c' = Some x' \<and> owned live (ex \<and> m = []) c' x' xs' \<and> (m = [] \<longrightarrow> m' = [])"
proof -
  from run cn obtain sp c1 x1 m1 where g: "sqlite_get_stmt L c x sql m = Some (sp, c1, x1, m1)"
    by (auto simp: sqlite_query_def split: option.splits)
  from owned_get_stmt [OF life own g] obtain xs1 where o1: "owned live (ex \<and> m = []) c1 x1 xs1"
    and st: "\<And>st. sp = Some st \<Longrightarrow> st \<in> live x1" and mm: "m = [] \<longrightarrow> m1 = []" by blast
  show ?thesis
  proof (cases sp)
    case None
    with run cn g have "c' = c1\<lparr>conn := Some x1\<rparr>" "m' = m1" by (auto simp: sqlite_query_def)
    with owned_step(3) [OF life o1 refl] mm show ?thesis by auto
  next
    case (Some s)
    with run cn g obtain x2 where b: "sqlite_bind_params L s ps 0 x1 = Some x2" by (auto simp: sqlite_query_def split: option.splits)
    have l2: "live x2 = live x1" by (rule life_bind [OF life st [OF Some] b])
    from g Some have g': "sqlite_get_stmt L c x sql m = Some (Some s, c1, x1, m1)" by simp
    obtain x3 where x3: "x3 = x2 \<or> (\<exists>q cap ts rs m3 m4. fetch_rows L s x2 (sqlite3_column_count L x2 s) [] cap ts m3 = Some (q, rs, x3, m4))"
      and c': "c' = c1\<lparr>conn := Some x3\<rparr> \<or> (\<exists>c2 x4 msg. sqlite_cleanup_stmt L c1 x3 sql = Some (c2, x4) \<and>
        (c' = c2\<lparr>conn := Some x4\<rparr> \<or> c' = corm_set_err_msg (c2\<lparr>conn := Some x4\<rparr>) msg))"
      and m': "m1 = [] \<longrightarrow> m' = []" by (rule query_shape [OF cn g' b run])
    have l: "live x3 = live x1" using x3 life_fetch [OF life] l2 st [OF Some] by metis
    note o3 = owned_step [OF life o1 l]
    from c' show ?thesis
    proof (elim disjE exE conjE)
      assume "c' = c1\<lparr>conn := Some x3\<rparr>"
      with o3(3) mm m' show ?thesis by auto
    next
      fix c2 x4 msg
      assume cl: "sqlite_cleanup_stmt L c1 x3 sql = Some (c2, x4)" and "c' = c2\<lparr>conn := Some x4\<rparr>"
      with owned_cleanup [OF life o3(1) cl] mm m' show ?thesis by (auto simp: owned_def)
    next
      fix c2 x4 msg
      assume cl: "sqlite_cleanup_stmt L c1 x3 sql = Some (c2, x4)" and "c' = corm_set_err_msg (c2\<lparr>conn := Some x4\<rparr>) msg"
      with owned_cleanup [OF life o3(1) cl] mm m' show ?thesis by (auto simp: owned_def corm_set_err_msg_def)
    qed
  qed
qed

lemma life_describe:
  assumes life: "statement_life L live" and run: "describe_rows L s x cs cap m = Some (r, x', m')" and s: "s \<in> live x"
  shows "live x' = live x"
proof -
  have "L = L \<longrightarrow> s = s \<longrightarrow> s \<in> live x \<longrightarrow> live (fst (snd (r, x', m'))) = live x"
  proof (rule describe_rows.raw_induct [where xa = "(((((L, s), x), cs), cap), m)" and
      P = "\<lambda>L0 s0 x cs cap m y. L0 = L \<longrightarrow> s0 = s \<longrightarrow> s \<in> live x \<longrightarrow> live (fst (snd y)) = live x",
      unfolded prod.case, OF _ run], intro impI, goal_cases)
    case (1 f L0 s0 x cs cap m y)
    obtain rc x1 where st: "sqlite3_step L s x = (rc, x1)" by fastforce
    have l: "live x1 = live x" by (rule life_simps(5) [OF life 1(5) st])
    obtain cap1 ok m1 where g: "grow_array (length cs) cap m = (cap1, ok, m1)" using prod_cases3 by blast
    obtain ci m2 where d: "describe_column L x1 s m1 = (ci, m2)" by fastforce
    show ?case
    proof (cases "rc = SQLITE_ROW \<and> ok")
      case True
      with 1 st g d have "f L s x1 (cs @ [ci]) cap1 m2 = Some y" by simp
      from 1(1) [OF this] l 1(5) show ?thesis by simp
    next
      case False
      with 1 st g l show ?thesis by (auto split: if_splits)
    qed
  qed
  with s show ?thesis by simp
qed

lemma owned_describe:
  assumes life: "statement_life L live" and own: "owned live ex c x xs" and cn: "conn c = Some x"
    and run: "sqlite_describe_table L c tn m = Some (r, c', m')"
  shows "\<exists>x' xs'. conn c' = Some x' \<and> owned live ex c' x' xs' \<and> (m = [] \<longrightarrow> m' = [])"
proof -
  from run cn obtain q where q: "sqlite3_mprintf_w L tn = Some q" by (auto simp: sqlite_describe_table_def split: option.splits)
  obtain rc st x1 where p: "sqlite3_prepare_v2 L x (snprintf_buf 512 (''PRAGMA table_info('' @ q @ '')'')) = ((rc, st), x1)"
    by (metis prod.collapse)
  note run' = run [unfolded sqlite_describe_table_def cn q prod.case option.case Let_def p]
  have fin: "live (sqlite3_finalize L s y) = live x" if "live y = insert s (live x)" "s \<notin> live x" for s y
    using life_simps(1) [OF life, of s y] that by simp
  show ?thesis
  proof (cases "rc = SQLITE_OK")
    case False
    with life_prepare(2) [OF life p] have "live x1 = live x" by simp
    from False run' owned_step(3) [OF life own this, of "Some x1"] show ?thesis by auto
  next
    case True
    with run' obtain s where s: "st = Some s" by (auto split: option.splits)
    with True life_prepare(1) [OF life p, of s] have l: "s \<notin> live x" "live x1 = insert s (live x)" by auto
    show ?thesis
    proof (cases "fst (alloc m)")
      case False
      then obtain m1 where "alloc m = (False, m1)" by (metis prod.collapse)
      with run' True s have "c' = c\<lparr>conn := Some (sqlite3_finalize L s x1)\<rparr>" "m \<noteq> []" by auto
      with owned_step(3) [OF life own fin [OF l(2,1)]] show ?thesis by auto
    next
      case ok: True
      then obtain m1 where a: "alloc m = (True, m1)" by (metis prod.collapse)
      with run' True s obtain q x2 m2 where d: "describe_rows L s x1 [] 16 m1 = Some (q, x2, m2)"
        and c': "c' = c\<lparr>conn := Some (sqlite3_finalize L s x2)\<rparr>" "m' = m2" by (auto split: option.splits)
      have "live x2 = insert s (live x)" using life_describe [OF life d] l by simp
      from owned_step(3) [OF life own fin [OF this l(1)]] c' describe_mem [of L s x1 "[]" 16 q x2 m2] d a
      show ?thesis by auto
    qed
  qed
qed

text \<open>Sequences of calls on one connection.\<close>

datatype sqlite_op = Exec_Op string "corm_value_t list" | Query_Op string "corm_value_t list" | Describe_Op string | Ping_Op

fun sqlite_do :: "('c, 's) sqlite_api \<Rightarrow> sqlite_op \<Rightarrow> ('c, 's) conn_core \<Rightarrow> mem \<Rightarrow> (('c, 's) conn_core \<times> mem) option" where
  "sqlite_do L (Exec_Op sql ps) c m = map_option (\<lambda>(err, c', m'). (c', m')) (sqlite_exec L c sql ps m)"
| "sqlite_do L (Query_Op sql ps) c m = map_option (\<lambda>(r, lost, c', m'). (c', m')) (sqlite_query L c sql ps m)"
| "sqlite_do L (Describe_Op t) c m = map_option (\<lambda>(r, c', m'). (c', m')) (sqlite_describe_table L c t m)"
| "sqlite_do L Ping_Op c m = (case sqlite_ping L c m of (err, c', m') \<Rightarrow> Some (c', m'))"

fun sqlite_run :: "('c, 's) sqlite_api \<Rightarrow> sqlite_op list \<Rightarrow> ('c, 's) conn_core \<Rightarrow> mem \<Rightarrow> (('c, 's) conn_core \<times> mem) option" where
  "sqlite_run L [] c m = Some (c, m)"
| "sqlite_run L (op # ops) c m = (case sqlite_do L op c m of None \<Rightarrow> None | Some (c', m') \<Rightarrow> sqlite_run L ops c' m')"

lemma owned_weaken: "owned live ex c x xs \<Longrightarrow> owned live (ex \<and> b) c x xs"
  by (simp add: owned_def)

lemma owned_do:
  assumes "statement_life L live" and "owned live ex c x xs" and "conn c = Some x" and "sqlite_do L op c m = Some (c', m')"
  shows "\<exists>x' xs'. conn c' = Some x' \<and> owned live (ex \<and> m = []) c' x' xs' \<and> (m = [] \<longrightarrow> m' = [])"
proof (cases op)
  case (Exec_Op sql ps)
  with assms(4) obtain err where "sqlite_exec L c sql ps m = Some (err, c', m')" by auto
  with owned_exec [OF assms(1-3)] show ?thesis by blast
next
  case (Query_Op sql ps)
  with assms(4) obtain r lost where "sqlite_query L c sql ps m = Some (r, lost, c', m')" by auto
  with owned_query [OF assms(1-3)] show ?thesis by blast
next
  case (Describe_Op t)
  with assms(4) obtain r where "sqlite_describe_table L c t m = Some (r, c', m')" by auto
  from owned_describe [OF assms(1-3) this] obtain x' xs' where "conn c' = Some x'" "owned live ex c' x' xs'" "m = [] \<longrightarrow> m' = []" by blast
  with owned_weaken [of live ex c' x' xs' "m = []"] show ?thesis by blast
next
  case Ping_Op
  obtain rc x1 where e: "sqlite3_exec L x ''SELECT 1'' = (rc, x1)" by fastforce
  have "live (snd (sqlite3_exec L x ''SELECT 1'')) = live x" by (rule life_exec [OF assms(1)])
  with e have l: "live x1 = live x" by simp
  from Ping_Op assms(3,4) e have "c' = c\<lparr>conn := Some x1\<rparr>" "m' = m" by (simp_all add: sqlite_ping_def)
  with owned_weaken [OF owned_step(3) [OF assms(1,2) l, of "Some x1"], of "m = []"] show ?thesis
    by (intro exI [of _ x1] exI [of _ xs]) simp
qed

lemma owned_run:
  "statement_life L live \<Longrightarrow> owned live ex c x xs \<Longrightarrow> conn c = Some x \<Longrightarrow> (ex \<longrightarrow> m = []) \<Longrightarrow>
    sqlite_run L ops c m = Some (c', m') \<Longrightarrow> \<exists>x' xs'. conn c' = Some x' \<and> owned live ex c' x' xs'"
proof (induction ops arbitrary: c m x xs)
  case (Cons op ops)
  from Cons.prems(5) obtain c1 m1 where d: "sqlite_do L op c m = Some (c1, m1)" "sqlite_run L ops c1 m1 = Some (c', m')"
    by (auto split: option.splits)
  from owned_do [OF Cons.prems(1-3) d(1)] obtain x1 xs1 where o: "conn c1 = Some x1" "owned live (ex \<and> m = []) c1 x1 xs1"
    "m = [] \<longrightarrow> m1 = []" by blast
  from o(2) Cons.prems(4) have "owned live ex c1 x1 xs1" by (cases ex) auto
  from Cons.IH [OF Cons.prems(1) this o(1) _ d(2)] o(3) Cons.prems(4) show ?case by blast
qed auto

section \<open>Properties\<close>

lemma toy_life: "statement_life toy_sqlite (set \<circ> fst)"
proof -
  have "Suc (sum_list l) \<notin> set l" for l :: "nat list"
    using member_le_sum_list [of "Suc (sum_list l)" l] by auto
  then show ?thesis by (auto simp: statement_life_def toy_sqlite_def)
qed

text \<open>(C11) Ownership of prepared statements: on a connection opened with a new cache, after any sequence
  of executions, queries, table descriptions and pings, under any behaviour of the allocator, every
  cached statement is live and no two entries share one, so no call uses or finalises a statement that
  is gone; with memory available the cached statements are the only live ones, and closing finalises
  them all.\<close>

theorem sqlite_statements_owned:
  assumes "statement_life L live" and "corm_stmt_cache_create cap m0 = (Inr k, m1)" and "stmt_cache c = Some k"
    and "sqlite_open L c dsn m = (CORM_OK, c0, m)" and "sqlite_run L ops c0 m = Some (c', m')"
  shows "\<exists>x' k' xs. conn c' = Some x' \<and> stmt_cache c' = Some k' \<and> cache_rel k' xs \<and> distinct (map snd xs) \<and>
    snd ` set xs \<subseteq> live x' \<and>
    (m = [] \<longrightarrow> live x' = snd ` set xs \<and>
      (\<exists>gone h. corm_stmt_cache_destroy (Some k') = Some (gone, h) \<and> live (sqlite_finalize_stmt L gone x') = {}))"
proof -
  obtain x where x: "sqlite3_open L dsn = (SQLITE_OK, x)"
    and c0: "conn c0 = Some (snd (sqlite3_exec L (snd (sqlite3_exec L x ''PRAGMA journal_mode=WAL'')) ''PRAGMA foreign_keys=ON''))"
      "stmt_cache c0 = Some (k\<lparr>entry_destroy_fn := True\<rparr>)"
    using assms(3,4) by (auto simp: sqlite_open_def corm_stmt_cache_set_destroy_fn_def split: prod.splits if_splits)
  have "live x = {}" by (rule life_open [OF assms(1) x])
  with life_exec [OF assms(1)] have l: "live (the (conn c0)) = {}" by (simp add: c0)
  have "cache_rel k []" using create_rel [OF assms(2)] by simp
  then have "cache_rel (k\<lparr>entry_destroy_fn := True\<rparr>) []" by (auto simp: cache_rel_def cache_at_def)
  then have own: "owned live (m = []) c0 (the (conn c0)) []" using c0(2) l by (simp add: owned_def)
  have "conn c0 = Some (the (conn c0))" using c0(1) by simp
  from owned_run [OF assms(1) own this _ assms(5)] obtain x' xs where o: "conn c' = Some x'" "owned live (m = []) c' x' xs" by blast
  from o(2) obtain k' where k': "stmt_cache c' = Some k'" "cache_rel k' xs" "entry_destroy_fn k'" "distinct (map snd xs)"
    "snd ` set xs \<subseteq> live x'" "m = [] \<longrightarrow> live x' = snd ` set xs" by (auto simp: owned_def)
  have "m = [] \<longrightarrow> live (sqlite_finalize_stmt L (map snd xs) x') = {}"
    using life_finalize_all [OF assms(1), of "map snd xs" x'] k'(4-6) by simp
  moreover have "corm_stmt_cache_destroy (Some k') = Some (map snd xs, Map.empty)" using destroy_rel [OF k'(2)] k'(3) by simp
  ultimately show ?thesis using o(1) k'(1,2,4-6)
    by (intro exI [of _ x'] exI [of _ k'] exI [of _ xs] conjI impI) simp_all
qed

theorem sqlite_statements_owned_witness:
  "\<exists>c' x' k' s. sqlite_run toy_sqlite [Query_Op ''SELECT 1'' [], Exec_Op ''DELETE FROM t'' [], Describe_Op ''t'', Query_Op ''SELECT 2'' []]
       toy_core [] = Some (c', []) \<and> conn c' = Some x' \<and> set (fst x') = {s} \<and> stmt_cache c' = Some k' \<and>
     (\<exists>sql. cache_rel k' [(sql, s)])"
proof -
  let ?ops = "[Query_Op ''SELECT 1'' [], Exec_Op ''DELETE FROM t'' [], Describe_Op ''t'', Query_Op ''SELECT 2'' []]"
  let ?k = "empty_cache\<lparr>entry_destroy_fn := False\<rparr>"
  have run: "case sqlite_run toy_sqlite ?ops toy_core [] of
     None \<Rightarrow> False | Some (c', m') \<Rightarrow> m' = [] \<and> (case stmt_cache c' of None \<Rightarrow> False | Some k' \<Rightarrow> csize k' = 1)"
    by code_simp
  then obtain c' k' where r: "sqlite_run toy_sqlite ?ops toy_core [] = Some (c', [])" "stmt_cache c' = Some k'" "csize k' = 1"
    by (auto split: option.splits)
  have cr: "corm_stmt_cache_create 1 [] = (Inr ?k, [])" by (simp add: corm_stmt_cache_create_def empty_cache_def)
  have sc: "stmt_cache (toy_core\<lparr>conn := None, stmt_cache := Some ?k\<rparr>) = Some ?k" by simp
  have op: "sqlite_open toy_sqlite (toy_core\<lparr>conn := None, stmt_cache := Some ?k\<rparr>) ''app.db'' [] = (CORM_OK, toy_core, [])"
    by (simp add: sqlite_open_def toy_sqlite_def corm_stmt_cache_set_destroy_fn_def toy_core_def empty_cache_def)
  from sqlite_statements_owned [OF toy_life cr sc op r(1)] r(2) obtain x' xs where
    x: "conn c' = Some x'" "cache_rel k' xs" "set (fst x') = snd ` set xs" by auto
  from cache_rel_bounds [OF x(2)] r(3) have "length xs = 1" by simp
  then obtain sql s where "xs = [(sql, s)]" by (cases xs) auto
  with x have "set (fst x') = {s}" "cache_rel k' [(sql, s)]" by simp_all
  with r(1,2) x(1) show ?thesis by blast
qed

end
