(* ===== verification/Driver_Agreement.thy ===== *)
theory Driver_Agreement
  imports Sqlite_Results Mysql_Results Pg_Results
begin

text \<open>
  The three drivers against one description of an answer. SQLite delivers typed values row by row,
  PostgreSQL a table of texts, and MySQL a list of texts. PostgreSQL and MySQL take the type of a column
  from its declaration; the SQLite driver takes it from the value in the first row, TEXT when that is
  NULL. So the three return the same result object for the same table exactly when its first row has no
  NULL outside the text columns.
\<close>

section \<open>Answers\<close>

text \<open>The columns and their types, and the cells as texts; \<open>None\<close> is NULL.\<close>

record answer =
  a_names :: "string list"
  a_types :: "corm_field_type_t list"
  a_rows :: "string option list list"

definition answer_ok :: "answer \<Rightarrow> bool" where
  "answer_ok A \<longleftrightarrow> a_rows A \<noteq> [] \<and> length (a_types A) = length (a_names A) \<and>
     set (a_types A) \<subseteq> {CORM_INT64, CORM_DOUBLE, CORM_TEXT} \<and>
     (\<forall>row\<in>set (a_rows A). length row = length (a_names A) \<and> (\<forall>s. Some s \<in> set row \<longrightarrow> cstring s))"

text \<open>The value of a text by the type of its column; \<open>num\<close> reads a floating-point number.\<close>

definition read_as :: "(string \<Rightarrow> 64 word) \<Rightarrow> string \<Rightarrow> corm_field_type_t \<Rightarrow> corm_union" where
  "read_as num s t = (case t of CORM_INT64 \<Rightarrow> VI (c_strtoll s) | CORM_DOUBLE \<Rightarrow> VF (num s) | _ \<Rightarrow> VS (Some s))"

definition read_cell_as :: "(string \<Rightarrow> 64 word) \<Rightarrow> string option \<Rightarrow> corm_field_type_t \<Rightarrow> corm_value_t" where
  "read_cell_as num v t =
     \<lparr>vtype = t, is_null = (v = None), uval = (case v of None \<Rightarrow> VZero | Some s \<Rightarrow> read_as num s t)\<rparr>"

definition answer_result :: "(string \<Rightarrow> 64 word) \<Rightarrow> answer \<Rightarrow> corm_result_t" where
  "answer_result num A =
     \<lparr>column_count = int (length (a_names A)), column_names = map Some (a_names A), column_types = a_types A,
      rows = Some (map (\<lambda>row. map2 (read_cell_as num) row (a_types A)) (a_rows A)), row_count = int (length (a_rows A)),
      current_row = -1, refcount = 1\<rparr>"

lemma answer_dims:
  assumes "answer_ok A"
  shows "0 < length (a_rows A)" and "length (a_types A) = length (a_names A)"
    and "\<And>i. i < length (a_rows A) \<Longrightarrow> length (a_rows A ! i) = length (a_names A)"
    and "\<And>j. j < length (a_names A) \<Longrightarrow> a_types A ! j \<in> {CORM_INT64, CORM_DOUBLE, CORM_TEXT}"
  using assms by (auto simp: answer_ok_def subset_iff)

text \<open>A result is the one of the answer if its cells are.\<close>

lemma answer_resultI:
  assumes "answer_ok A" and "column_count r = int (length (a_names A))" and "column_names r = map Some (a_names A)"
    and "column_types r = a_types A" and "row_count r = int (length (a_rows A))" and "current_row r = -1" and "refcount r = 1"
    and "rows r = Some rs" and "length rs = length (a_rows A)"
    and "\<And>i. i < length (a_rows A) \<Longrightarrow> length (rs ! i) = length (a_names A)"
    and "\<And>i j. i < length (a_rows A) \<Longrightarrow> j < length (a_names A) \<Longrightarrow>
      rs ! i ! j = read_cell_as num (a_rows A ! i ! j) (a_types A ! j)"
  shows "r = answer_result num A"
proof -
  have "rs = map (\<lambda>row. map2 (read_cell_as num) row (a_types A)) (a_rows A)"
    using assms(9-11) answer_dims(2,3) [OF assms(1)] by (intro nth_equalityI) (auto intro!: nth_equalityI)
  with assms(2-8) show ?thesis by (simp add: answer_result_def)
qed

section \<open>Drivers of answers\<close>

text \<open>The contract: when the database answers with \<open>A\<close>, the driver returns the result of what it
  makes of it, \<open>seen A\<close>: the same rows and names, with the column types the driver gives. Whoever holds
  it reads each cell of the answer through the accessors of \<^verbatim>\<open>src/result.c\<close>.\<close>

locale answer_driver =
  fixes run :: "'d \<Rightarrow> string \<Rightarrow> corm_value_t list \<Rightarrow> mem \<Rightarrow> ((corm_err_t \<times> corm_result_t option) \<times> 'd \<times> mem) option"
    and answering :: "'d \<Rightarrow> string \<Rightarrow> corm_value_t list \<Rightarrow> answer \<Rightarrow> bool"
    and num :: "string \<Rightarrow> 64 word"
    and seen :: "answer \<Rightarrow> answer"
  assumes seen_ok: "answer_ok A \<Longrightarrow> answer_ok (seen A) \<and> a_rows (seen A) = a_rows A \<and> a_names (seen A) = a_names A"
    and returns: "answer_ok A \<Longrightarrow> answering c sql ps A \<Longrightarrow>
    \<exists>c'. run c sql ps [] = Some ((CORM_OK, Some (answer_result num (seen A))), c', [])"
begin

lemma seen_value:
  assumes "answer_ok A" and "i < length (a_rows A)" and "j < length (a_names A)"
  shows "corm_result_value (answer_result num (seen A)) (int i) (int j) =
    Some (Some (read_cell_as num (a_rows A ! i ! j) (a_types (seen A) ! j)))"
proof -
  note s = seen_ok [OF assms(1)]
  from s assms(2,3) answer_dims(2,3) [of "seen A"] show ?thesis
    by (simp add: corm_result_value_def answer_result_def nth_opt_def)
qed

lemma read_answer:
  assumes "answer_ok A" and "answering c sql ps A"
  shows "\<exists>r c'. run c sql ps [] = Some ((CORM_OK, Some r), c', []) \<and> column_types r = a_types (seen A) \<and>
    (\<forall>i<length (a_rows A). \<forall>j<length (a_names A).
       corm_result_value r (int i) (int j) = Some (Some (read_cell_as num (a_rows A ! i ! j) (a_types (seen A) ! j))))"
proof -
  from returns [OF assms] obtain c' where "run c sql ps [] = Some ((CORM_OK, Some (answer_result num (seen A))), c', [])" by blast
  moreover have "column_types (answer_result num (seen A)) = a_types (seen A)" by (simp add: answer_result_def)
  ultimately show ?thesis using seen_value [OF assms(1)] by blast
qed

end

subsection \<open>SQLite\<close>

text \<open>What the driver makes of an answer: a column whose first value is NULL is a text column.\<close>

definition first_row_types :: "answer \<Rightarrow> corm_field_type_t list" where
  "first_row_types A = map2 (\<lambda>v t. if v = None then CORM_TEXT else t) (a_rows A ! 0) (a_types A)"

definition sqlite_seen :: "answer \<Rightarrow> answer" where
  "sqlite_seen A = A\<lparr>a_types := first_row_types A\<rparr>"

lemma sqlite_seen_ok:
  assumes "answer_ok A"
  shows "answer_ok (sqlite_seen A) \<and> a_rows (sqlite_seen A) = a_rows A \<and> a_names (sqlite_seen A) = a_names A"
proof -
  have "set (first_row_types A) \<subseteq> insert CORM_TEXT (set (a_types A))"
    by (auto simp: first_row_types_def dest!: set_zip_rightD)
  moreover have "length (first_row_types A) = length (a_names A)"
    using answer_dims(1-3) [OF assms] by (simp add: first_row_types_def)
  ultimately show ?thesis using assms by (auto simp: answer_ok_def sqlite_seen_def)
qed

lemma first_row_types_nth:
  "answer_ok A \<Longrightarrow> j < length (a_names A) \<Longrightarrow> first_row_types A ! j = (if a_rows A ! 0 ! j = None then CORM_TEXT else a_types A ! j)"
  using answer_dims(1-3) [of A] by (simp add: first_row_types_def)

lemma first_row_types_same:
  assumes "answer_ok A"
  shows "first_row_types A = a_types A \<longleftrightarrow> (\<forall>j<length (a_names A). a_rows A ! 0 ! j = None \<longrightarrow> a_types A ! j = CORM_TEXT)"
  using sqlite_seen_ok [OF assms] answer_dims(2) [OF assms] answer_dims(2) [of "sqlite_seen A"] first_row_types_nth [OF assms]
  by (auto simp: list_eq_iff_nth_eq sqlite_seen_def)

text \<open>The statement yields one row per row of the answer. A value of the first row that is not NULL has
  the storage class of its column's type, and each value, converted by the library to the type its column
  gets, is the one its text denotes.\<close>

definition sqlite_cell ::
  "('c, 's) sqlite_api \<Rightarrow> (string \<Rightarrow> 64 word) \<Rightarrow> 's \<Rightarrow> 'c \<Rightarrow> nat \<Rightarrow> corm_field_type_t \<Rightarrow> string option \<Rightarrow> bool" where
  "sqlite_cell L num st y j t v \<longleftrightarrow>
     (case v of
        None \<Rightarrow> sqlite3_column_type L y st (int j) = SQLITE_NULL
      | Some s \<Rightarrow> sqlite3_column_type L y st (int j) \<noteq> SQLITE_NULL \<and>
          (case t of
             CORM_INT64 \<Rightarrow> sqlite3_column_int64 L y st (int j) = c_strtoll s
           | CORM_DOUBLE \<Rightarrow> sqlite3_column_double L y st (int j) = num s
           | _ \<Rightarrow> sqlite3_column_text L y st (int j) = Some s))"

definition sqlite_answers ::
  "('c, 's) sqlite_api \<Rightarrow> (string \<Rightarrow> 64 word) \<Rightarrow> ('c, 's) conn_core \<Rightarrow> string \<Rightarrow> corm_value_t list \<Rightarrow> answer \<Rightarrow> bool" where
  "sqlite_answers L num c sql ps A \<longleftrightarrow>
     (\<exists>xs st ys x. answers_with L c sql ps xs st (length (a_names A)) ys x \<and> length ys = length (a_rows A) \<and>
        (\<forall>j<length (a_names A). sqlite3_column_name L x st (int j) = Some (a_names A ! j) \<and>
           (a_rows A ! 0 ! j \<noteq> None \<longrightarrow> first_type (sqlite3_column_type L (ys ! 0) st (int j)) = a_types A ! j)) \<and>
        (\<forall>i<length (a_rows A). \<forall>j<length (a_names A).
           sqlite_cell L num st (ys ! i) j (first_row_types A ! j) (a_rows A ! i ! j)))"

lemma sqlite_cell_read:
  assumes "sqlite_cell L num st y j t v" and "t \<in> {CORM_INT64, CORM_DOUBLE, CORM_TEXT}"
  shows "cell_at L y st (int j) t = read_cell_as num v t"
  using assms by (auto simp: sqlite_cell_def cell_at_def read_cell_as_def read_as_def content_at_def split: option.splits)

lemma sqlite_returns:
  assumes ok: "answer_ok A" and "sqlite_answers L num c sql ps A"
  shows "\<exists>c'. sqlite_rows L c sql ps [] = Some ((CORM_OK, Some (answer_result num (sqlite_seen A))), c', [])"
proof -
  let ?n = "length (a_names A)" and ?B = "sqlite_seen A"
  from assms(2) obtain xs st ys x where w: "answers_with L c sql ps xs st ?n ys x" and l: "length ys = length (a_rows A)"
    and h: "\<forall>j<?n. sqlite3_column_name L x st (int j) = Some (a_names A ! j) \<and>
      (a_rows A ! 0 ! j \<noteq> None \<longrightarrow> first_type (sqlite3_column_type L (ys ! 0) st (int j)) = a_types A ! j)"
    and v: "\<forall>i<length (a_rows A). \<forall>j<?n. sqlite_cell L num st (ys ! i) j (first_row_types A ! j) (a_rows A ! i ! j)"
    unfolding sqlite_answers_def by blast
  have seen: "answer_ok ?B" "a_rows ?B = a_rows A" "a_names ?B = a_names A" "a_types ?B = first_row_types A"
    using sqlite_seen_ok [OF ok] by (simp_all add: sqlite_seen_def)
  note d = answer_dims [OF seen(1), unfolded seen(2-4)]
  from l d(1) have "ys \<noteq> []" by auto
  moreover have "first_type (sqlite3_column_type L (ys ! 0) st (int j)) = first_row_types A ! j" if "j < ?n" for j
    using h v [rule_format, OF d(1) that] first_row_types_nth [OF ok that] that
    by (cases "a_rows A ! 0 ! j") (auto simp: sqlite_cell_def first_type_def)
  ultimately have t: "result_types L st ?n ys = first_row_types A"
    using d(2) by (cases ys) (auto simp: result_types_def intro!: nth_equalityI)
  have "query_result L st ?n ys x = answer_result num ?B"
  proof (rule answer_resultI [OF seen(1)])
    show "rows (query_result L st ?n ys x) = Some (map (row_at L st (first_row_types A)) ys)" by (simp add: query_result_def t)
    show "column_names (query_result L st ?n ys x) = map Some (a_names ?B)"
      using h by (auto simp: query_result_def seen(3) intro!: nth_equalityI)
    show "map (row_at L st (first_row_types A)) ys ! i ! j = read_cell_as num (a_rows ?B ! i ! j) (a_types ?B ! j)"
      if "i < length (a_rows ?B)" "j < length (a_names ?B)" for i j
      using that l d(2) sqlite_cell_read [OF v [rule_format] d(4)] by (simp add: row_at_def seen)
  qed (use l d(2) t in \<open>simp_all add: query_result_def row_at_def seen\<close>)
  with rows_full [OF w] show ?thesis by auto
qed

interpretation sqlite_driver: answer_driver "sqlite_rows L" "sqlite_answers L num" num sqlite_seen for L num
  by unfold_locales (use sqlite_seen_ok sqlite_returns in blast)+

subsection \<open>PostgreSQL\<close>

definition pg_answers ::
  "('c, 'r) pg_api \<Rightarrow> ('c, 's) conn_core \<Rightarrow> string \<Rightarrow> corm_value_t list \<Rightarrow> answer \<Rightarrow> bool" where
  "pg_answers L c sql ps A \<longleftrightarrow>
     (\<exists>x args q x1. conn c = Some x \<and> pg_params query_param ps [] = Some (args, []) \<and>
        (if ps = [] then PQexec L x sql else PQexecParams L x sql args) = (Some q, x1) \<and>
        PQresultStatus L q \<in> {PGRES_COMMAND_OK, PGRES_TUPLES_OK} \<and> pg_readable L q \<and>
        PQnfields L q = int (length (a_names A)) \<and> PQntuples L q = int (length (a_rows A)) \<and>
        (\<forall>j<length (a_names A). PQfname L q (int j) = Some (a_names A ! j) \<and> pg_type (PQftype L q (int j)) = a_types A ! j) \<and>
        (\<forall>i<length (a_rows A). \<forall>j<length (a_names A). case a_rows A ! i ! j of
             None \<Rightarrow> PQgetisnull L q (int i) (int j)
           | Some s \<Rightarrow> \<not> PQgetisnull L q (int i) (int j) \<and> PQgetvalue L q (int i) (int j) = Some s))"

lemma pg_cell_read:
  assumes "case v of None \<Rightarrow> PQgetisnull L q i j | Some s \<Rightarrow> \<not> PQgetisnull L q i j \<and> PQgetvalue L q i j = Some s"
    and "pg_type (PQftype L q j) = t" and "t \<in> {CORM_INT64, CORM_DOUBLE, CORM_TEXT}"
  shows "pg_cell_at L q i j = read_cell_as (strtod L) v t"
  using assms by (auto simp: pg_cell_at_def read_cell_as_def read_as_def pg_content_at_def Let_def split: option.splits)

lemma pg_returns:
  assumes ok: "answer_ok A" and "pg_answers L c sql ps A"
  shows "\<exists>c'. pg_query L c sql ps [] = Some ((CORM_OK, Some (answer_result (strtod L) A)), c', [])"
proof -
  let ?n = "length (a_names A)"
  from assms(2) obtain x args q x1 where
    w: "conn c = Some x" "pg_params query_param ps [] = Some (args, [])"
      "(if ps = [] then PQexec L x sql else PQexecParams L x sql args) = (Some q, x1)"
      "PQresultStatus L q \<in> {PGRES_COMMAND_OK, PGRES_TUPLES_OK}" "pg_readable L q"
    and n: "PQnfields L q = int ?n" "PQntuples L q = int (length (a_rows A))"
    and h: "\<forall>j<?n. PQfname L q (int j) = Some (a_names A ! j) \<and> pg_type (PQftype L q (int j)) = a_types A ! j"
    and v: "\<forall>i<length (a_rows A). \<forall>j<?n. case a_rows A ! i ! j of
             None \<Rightarrow> PQgetisnull L q (int i) (int j)
           | Some s \<Rightarrow> \<not> PQgetisnull L q (int i) (int j) \<and> PQgetvalue L q (int i) (int j) = Some s"
    unfolding pg_answers_def by (elim exE conjE) (rule that, assumption+)
  note d = answer_dims [OF ok]
  let ?rs = "map (\<lambda>r. map (\<lambda>i. pg_cell_at L q (int r) (int i)) [0..<?n]) [0..<length (a_rows A)]"
  have "pg_table L q = answer_result (strtod L) A"
  proof (rule answer_resultI [OF ok])
    show "rows (pg_table L q) = Some ?rs" using d(1) by (simp add: pg_table_def n)
    show "column_names (pg_table L q) = map Some (a_names A)" using h by (auto simp: pg_table_def n intro!: nth_equalityI)
    show "column_types (pg_table L q) = a_types A" using h d(2) by (auto simp: pg_table_def n intro!: nth_equalityI)
    show "?rs ! i ! j = read_cell_as (strtod L) (a_rows A ! i ! j) (a_types A ! j)" if "i < length (a_rows A)" "j < ?n" for i j
      using that h pg_cell_read [OF v [rule_format, OF that] _ d(4) [OF that(2)]] by simp
  qed (use d(1) in \<open>simp_all add: pg_table_def n\<close>)
  with pg_query_full [OF w] show ?thesis by auto
qed

interpretation pg_driver: answer_driver "pg_query L" "pg_answers L" "strtod L" "\<lambda>A. A" for L
  by unfold_locales (simp_all add: pg_returns)

subsection \<open>MySQL\<close>

text \<open>The text protocol, which queries without parameters use.\<close>

definition mysql_answers ::
  "('c, 's, 'r) my_api \<Rightarrow> ('c, 's) conn_core \<Rightarrow> string \<Rightarrow> corm_value_t list \<Rightarrow> answer \<Rightarrow> bool" where
  "mysql_answers L c sql ps A \<longleftrightarrow> ps = [] \<and>
     (\<exists>x x1 r x2. conn c = Some x \<and> mysql_query L x sql = (True, x1) \<and> mysql_store_result L x1 = (Some r, x2) \<and>
        mysql_num_rows L r = int (length (a_rows A)) \<and> my_rows L r = a_rows A \<and>
        map mf_name (mysql_fields L r) = a_names A \<and> my_types (mysql_fields L r) = a_types A)"

lemma my_cell_read:
  assumes "\<forall>s. v = Some s \<longrightarrow> cstring s" and "t \<in> {CORM_INT64, CORM_DOUBLE, CORM_TEXT}"
  shows "my_cell_at L v t = read_cell_as (my_strtod L) v t"
  using assms by (auto simp: my_cell_at_def read_cell_as_def read_as_def my_content_at_def c_part_def cstring_takeWhile_id split: option.splits)

lemma mysql_returns:
  assumes ok: "answer_ok A" and "mysql_answers L c sql ps A"
  shows "\<exists>c'. corm_mysql_query L c sql ps [] = Some ((CORM_OK, Some (answer_result (my_strtod L) A)), c', [])"
proof -
  from assms(2) obtain x x1 r x2 where ps: "ps = []"
    and w: "conn c = Some x" "mysql_query L x sql = (True, x1)" "mysql_store_result L x1 = (Some r, x2)"
    and n: "mysql_num_rows L r = int (length (a_rows A))" "my_rows L r = a_rows A"
    and h: "map mf_name (mysql_fields L r) = a_names A" "my_types (mysql_fields L r) = a_types A"
    unfolding mysql_answers_def by (elim exE conjE) (rule that, assumption+)
  note d = answer_dims [OF ok]
  have len: "length (mysql_fields L r) = length (a_names A)" using h(1) by (metis length_map)
  have rows: "\<forall>v\<in>set (my_rows L r). length v = length (mysql_fields L r)" using ok n(2) len by (simp add: answer_ok_def)
  have str: "cstring s" if "i < length (a_rows A)" "j < length (a_names A)" "a_rows A ! i ! j = Some s" for i j s
    using ok that d(3) [OF that(1)] unfolding answer_ok_def by (metis nth_mem)
  let ?rs = "map (\<lambda>v. map2 (my_cell_at L) v (a_types A)) (a_rows A)"
  have "my_table (mysql_fields L r) ?rs = answer_result (my_strtod L) A"
  proof (rule answer_resultI [OF ok])
    show "rows (my_table (mysql_fields L r) ?rs) = Some ?rs" using d(1) by (simp add: my_table_def)
    show "?rs ! i ! j = read_cell_as (my_strtod L) (a_rows A ! i ! j) (a_types A ! j)"
      if "i < length (a_rows A)" "j < length (a_names A)" for i j
      using that d(2,3) my_cell_read [of "a_rows A ! i ! j" _ L, OF _ d(4) [OF that(2)]] str [OF that] by auto
    show "column_names (my_table (mysql_fields L r) ?rs) = map Some (a_names A)"
      by (simp add: my_table_def flip: h(1))
  qed (use d(2,3) h len in \<open>simp_all add: my_table_def\<close>)
  with mysql_query_full [OF w _ rows] n h(2) ps show ?thesis by simp
qed

interpretation mysql_driver: answer_driver "corm_mysql_query L" "mysql_answers L" "my_strtod L" "\<lambda>A. A" for L
  by unfold_locales (simp_all add: mysql_returns)

section \<open>Agreement\<close>

text \<open>Two results of the same answer with different column types differ, and only those.\<close>

lemma answer_result_types: "answer_result num (A\<lparr>a_types := ts\<rparr>) = answer_result num A \<longleftrightarrow> ts = a_types A"
  by (auto simp: answer_result_def)

text \<open>(C19) How far the three drivers are interchangeable for the callers (memory available). Let a SQLite,
  a PostgreSQL and a MySQL database answer a statement with the same non-empty table of 64-bit integers,
  floating-point numbers and texts, and let the C libraries read floating-point text alike. Then all three
  query functions return CORM_OK; PostgreSQL and MySQL return one and the same result object, in which
  every cell reads as the value of its text by the declared type of its column; and SQLite returns that
  very object if and only if the first row has no NULL outside the text columns. Otherwise its result
  differs: a column that starts with NULL is typed TEXT, and every cell of it reads as a text. (On an
  empty answer, excluded here, they differ too: SQLite gives no column types and an empty array of rows,
  the others the declared types and NULL.)\<close>

theorem drivers_agree:
  assumes "answer_ok A" and "sqlite_answers L num cs sql1 ps1 A" and "pg_answers P cp sql2 ps2 A" and "mysql_answers M cm sql3 ps3 A"
    and "strtod P = num" and "my_strtod M = num"
  shows "\<exists>rs r cs' cp' cm'. sqlite_rows L cs sql1 ps1 [] = Some ((CORM_OK, Some rs), cs', []) \<and>
    pg_query P cp sql2 ps2 [] = Some ((CORM_OK, Some r), cp', []) \<and>
    corm_mysql_query M cm sql3 ps3 [] = Some ((CORM_OK, Some r), cm', []) \<and>
    (rs = r \<longleftrightarrow> (\<forall>j<length (a_names A). a_rows A ! 0 ! j = None \<longrightarrow> a_types A ! j = CORM_TEXT)) \<and>
    (\<forall>i<length (a_rows A). \<forall>j<length (a_names A).
       corm_result_value r (int i) (int j) = Some (Some (read_cell_as num (a_rows A ! i ! j) (a_types A ! j))) \<and>
       corm_result_value rs (int i) (int j) = Some (Some (read_cell_as num (a_rows A ! i ! j)
         (if a_rows A ! 0 ! j = None then CORM_TEXT else a_types A ! j))))"
proof -
  let ?rs = "answer_result num (sqlite_seen A)" and ?r = "answer_result num A"
  from sqlite_driver.returns [OF assms(1,2)] obtain cs' where
    s: "sqlite_rows L cs sql1 ps1 [] = Some ((CORM_OK, Some ?rs), cs', [])" by blast
  from pg_driver.returns [OF assms(1,3)] assms(5) obtain cp' where
    p: "pg_query P cp sql2 ps2 [] = Some ((CORM_OK, Some ?r), cp', [])" by auto
  from mysql_driver.returns [OF assms(1,4)] assms(6) obtain cm' where
    m: "corm_mysql_query M cm sql3 ps3 [] = Some ((CORM_OK, Some ?r), cm', [])" by auto
  have same: "?rs = ?r \<longleftrightarrow> (\<forall>j<length (a_names A). a_rows A ! 0 ! j = None \<longrightarrow> a_types A ! j = CORM_TEXT)"
    using first_row_types_same [OF assms(1)] by (simp add: sqlite_seen_def answer_result_types)
  have cells: "corm_result_value ?r (int i) (int j) = Some (Some (read_cell_as num (a_rows A ! i ! j) (a_types A ! j))) \<and>
      corm_result_value ?rs (int i) (int j) = Some (Some (read_cell_as num (a_rows A ! i ! j)
         (if a_rows A ! 0 ! j = None then CORM_TEXT else a_types A ! j)))"
    if "i < length (a_rows A)" "j < length (a_names A)" for i j
    using pg_driver.seen_value [OF assms(1) that, of P] sqlite_driver.seen_value [OF assms(1) that, of num]
      first_row_types_nth [OF assms(1) that(2)] assms(5) by (simp add: sqlite_seen_def)
  show ?thesis
    by (rule exI [of _ ?rs], rule exI [of _ ?r], rule exI [of _ cs'], rule exI [of _ cp'], rule exI [of _ cm'])
      (use s p m same cells in blast)
qed

text \<open>Two rows of an integer and a text column, and three databases that answer with them.\<close>

definition two_rows :: "string option list \<Rightarrow> string option list \<Rightarrow> answer" where
  "two_rows v w = \<lparr>a_names = [''id'', ''name''], a_types = [CORM_INT64, CORM_TEXT], a_rows = [v, w]\<rparr>"

definition sqlite_of :: "answer \<Rightarrow> (toy, nat) sqlite_api" where
  "sqlite_of A = toy_sqlite
     \<lparr>sqlite3_column_type := \<lambda>x s i. if a_rows A ! (snd x - 1) ! nat i = None then SQLITE_NULL
        else if i = 0 then SQLITE_INTEGER else SQLITE_TEXT,
      sqlite3_column_int64 := \<lambda>x s i. c_strtoll (the (a_rows A ! (snd x - 1) ! nat i)),
      sqlite3_column_text := \<lambda>x s i. a_rows A ! (snd x - 1) ! nat i\<rparr>"

definition pg_of :: "answer \<Rightarrow> (unit, int) pg_api" where
  "pg_of A = toy_pg
     \<lparr>PQgetisnull := \<lambda>r row i. a_rows A ! nat row ! nat i = None,
      PQgetvalue := \<lambda>r row i. Some (case a_rows A ! nat row ! nat i of None \<Rightarrow> [] | Some s \<Rightarrow> s)\<rparr>"

definition mysql_of :: "answer \<Rightarrow> (nat list, nat, unit) my_api" where
  "mysql_of A = toy_mysql\<lparr>my_rows := \<lambda>r. a_rows A, mysql_num_rows := \<lambda>r. 2\<rparr>"

lemma two_rows_answered:
  assumes "length v = 2" and "length w = 2"
  shows "sqlite_answers (sqlite_of (two_rows v w)) (\<lambda>s. 0) toy_core ''SELECT'' [] (two_rows v w)"
    and "pg_answers (pg_of (two_rows v w)) pg_core ''SELECT'' [] (two_rows v w)"
    and "mysql_answers (mysql_of (two_rows v w)) my_core ''SELECT'' [] (two_rows v w)"
proof -
  let ?A = "two_rows v w"
  let ?L = "sqlite_of ?A"
  from assms obtain a b c d where vw: "v = [a, b]" "w = [c, d]" by (auto simp: length_Suc_conv numeral_2_eq_2)
  have s: "answers_with ?L toy_core ''SELECT'' [] [] 1 2 [([1], 1), ([1], 2)] ([1], 2)"
    unfolding answers_with_def
  proof (rule exI [of _ "([], 0)"], rule exI [of _ empty_cache], rule exI [of _ "([1], 0)"], rule exI [of _ "[]"],
      intro conjI empty_cache_rel)
    show "stmt_ready ?L empty_cache [] ([], 0) ''SELECT'' 1 ([1], 0)"
      by (simp add: stmt_ready_def toy_sqlite_def sqlite_of_def sqlite_finalize_stmt_def empty_cache_def)
  qed (simp_all add: toy_core_def columns_readable_def toy_sqlite_def sqlite_of_def)
  show "sqlite_answers ?L (\<lambda>s. 0) toy_core ''SELECT'' [] ?A"
    unfolding sqlite_answers_def
    by (rule exI [of _ "[]"], rule exI [of _ 1], rule exI [of _ "[([1], 1), ([1], 2)]"], rule exI [of _ "([1], 2)"])
      (use s in \<open>auto simp: two_rows_def vw sqlite_cell_def sqlite_of_def toy_sqlite_def first_type_def first_row_types_def
        numeral_2_eq_2 All_less_Suc split: option.split\<close>)
  show "pg_answers (pg_of ?A) pg_core ''SELECT'' [] ?A"
    by (auto simp: pg_answers_def two_rows_def vw pg_of_def pg_core_def toy_pg_def pg_readable_def pg_type_def
        numeral_2_eq_2 All_less_Suc split: option.split)
  show "mysql_answers (mysql_of ?A) my_core ''SELECT'' [] ?A"
    by (auto simp: mysql_answers_def two_rows_def mysql_of_def my_core_def toy_mysql_def mysql_field_to_corm_type_def)
qed

theorem drivers_agree_witness:
  "(\<exists>r cs' cp' cm'. let A = two_rows [Some ''42'', Some ''ann''] [Some ''7'', None] in
      sqlite_rows (sqlite_of A) toy_core ''SELECT'' [] [] = Some ((CORM_OK, Some r), cs', []) \<and>
      pg_query (pg_of A) pg_core ''SELECT'' [] [] = Some ((CORM_OK, Some r), cp', []) \<and>
      corm_mysql_query (mysql_of A) my_core ''SELECT'' [] [] = Some ((CORM_OK, Some r), cm', [])) \<and>
   (\<exists>rs r cs' cp'. let A = two_rows [None, Some ''ann''] [Some ''7'', None] in
      sqlite_rows (sqlite_of A) toy_core ''SELECT'' [] [] = Some ((CORM_OK, Some rs), cs', []) \<and>
      pg_query (pg_of A) pg_core ''SELECT'' [] [] = Some ((CORM_OK, Some r), cp', []) \<and> rs \<noteq> r)"
proof -
  let ?A = "two_rows [Some ''42'', Some ''ann''] [Some ''7'', None]" and ?B = "two_rows [None, Some ''ann''] [Some ''7'', None]"
  have ok: "answer_ok ?A" "answer_ok ?B" by (auto simp: answer_ok_def two_rows_def)
  have z: "strtod (pg_of A) = (\<lambda>s. 0)" "my_strtod (mysql_of A) = (\<lambda>s. 0)" for A
    by (simp_all add: pg_of_def toy_pg_def mysql_of_def toy_mysql_def)
  have first: "\<forall>j<length (a_names ?A). a_rows ?A ! 0 ! j = None \<longrightarrow> a_types ?A ! j = CORM_TEXT"
    "\<not> (\<forall>j<length (a_names ?B). a_rows ?B ! 0 ! j = None \<longrightarrow> a_types ?B ! j = CORM_TEXT)"
    by (auto simp: two_rows_def nth_Cons')
  from drivers_agree [OF ok(1) two_rows_answered z] first(1)
  have "\<exists>r cs' cp' cm'. sqlite_rows (sqlite_of ?A) toy_core ''SELECT'' [] [] = Some ((CORM_OK, Some r), cs', []) \<and>
      pg_query (pg_of ?A) pg_core ''SELECT'' [] [] = Some ((CORM_OK, Some r), cp', []) \<and>
      corm_mysql_query (mysql_of ?A) my_core ''SELECT'' [] [] = Some ((CORM_OK, Some r), cm', [])" by auto
  moreover from drivers_agree [OF ok(2) two_rows_answered z] first(2)
  have "\<exists>rs r cs' cp'. sqlite_rows (sqlite_of ?B) toy_core ''SELECT'' [] [] = Some ((CORM_OK, Some rs), cs', []) \<and>
      pg_query (pg_of ?B) pg_core ''SELECT'' [] [] = Some ((CORM_OK, Some r), cp', []) \<and> rs \<noteq> r" by auto
  ultimately show ?thesis by (simp add: Let_def)
qed

end
