(* ===== verification/Sqlite_Migration.thy ===== *)
theory Sqlite_Migration
  imports Migration Sqlite_Results
begin

text \<open>
  Migration over the SQLite driver: the driver provides what \<^verbatim>\<open>corm_auto_migrate\<close> needs of a
  backend, as long as the library reports the columns of the tables. Running a migration again on a
  database that has all columns changes no table.
\<close>

section \<open>Connections that report the columns\<close>

text \<open>\<open>W\<close> holds of a database handle while the tables of \<open>T\<close> exist, \<open>cols t\<close> are columns of the table
  \<open>t\<close>, and every statement prepared on the handle leaves them in place, as the statements of \<open>S\<close> do (a
  CREATE ... IF NOT EXISTS, or an ALTER that adds a column). SQLite documents that PRAGMA table_info
  then lists every column of the table, each with its name.\<close>

definition lists_table ::
  "('c, 's) sqlite_api \<Rightarrow> 'c \<Rightarrow> string set \<Rightarrow> string \<Rightarrow> string \<Rightarrow> 's \<Rightarrow> 'c \<Rightarrow> 'c list \<Rightarrow> sqlite_rc \<Rightarrow> 'c \<Rightarrow> bool" where
  "lists_table L x cs t q st x1 ys rc x2 \<longleftrightarrow> sqlite3_mprintf_w L t = Some q \<and>
     sqlite3_prepare_v2 L x (snprintf_buf 512 (''PRAGMA table_info('' @ q @ '')'')) = ((SQLITE_OK, Some st), x1) \<and>
     yields L st x1 ys rc x2 \<and> (\<forall>y\<in>set ys. sqlite3_column_text L y st 1 \<noteq> None) \<and>
     Some ` cs \<subseteq> (\<lambda>y. sqlite3_column_text L y st 1) ` set ys"

definition keeps_schema :: "('c, 's) sqlite_api \<Rightarrow> ('c \<Rightarrow> bool) \<Rightarrow> string set \<Rightarrow> string set \<Rightarrow> (string \<Rightarrow> string set) \<Rightarrow> bool" where
  "keeps_schema L W S T cols \<longleftrightarrow>
     (\<forall>x. W x \<longrightarrow>
        (\<forall>sql\<in>S. W (snd (sqlite3_prepare_v2 L x sql))) \<and>
        (\<forall>st. W (sqlite3_finalize L st x) \<and> W (sqlite3_reset L st x) \<and> W (sqlite3_clear_bindings L st x) \<and>
           W (snd (sqlite3_step L st x))) \<and>
        (\<forall>t\<in>T. \<exists>q st x1 ys rc x2. lists_table L x (cols t) t q st x1 ys rc x2 \<and> W x1))"

definition sqlite_serving :: "('c, 's) sqlite_api \<Rightarrow> string set \<Rightarrow> string set \<Rightarrow> (string \<Rightarrow> string set) \<Rightarrow> ('c, 's) conn_core \<Rightarrow> bool" where
  "sqlite_serving L S T cols c \<longleftrightarrow>
     (\<exists>W x k xs. keeps_schema L W S T cols \<and> W x \<and> conn c = Some x \<and> stmt_cache c = Some k \<and> cache_rel k xs)"

text \<open>A description that lists at least the known columns.\<close>

definition lists_columns :: "(string \<Rightarrow> string set) \<Rightarrow> string \<Rightarrow> corm_err_t \<Rightarrow> corm_column_info_t list option \<Rightarrow> bool" where
  "lists_columns cols t e cs \<longleftrightarrow> e = CORM_OK \<and> (\<exists>ys. cs = Some ys \<and> Some ` cols t \<subseteq> cname ` set ys)"

lemma serving_logged [simp]: "sqlite_serving L S T cols (logged c ev c') \<longleftrightarrow> sqlite_serving L S T cols c'"
  by (simp add: sqlite_serving_def logged_def)

lemma schema_simps:
  assumes "keeps_schema L W S T cols" and "W x"
  shows "sql \<in> S \<Longrightarrow> sqlite3_prepare_v2 L x sql = (r, x1) \<Longrightarrow> W x1" and "W (sqlite3_finalize L st x)" and "W (sqlite3_reset L st x)"
    and "W (sqlite3_clear_bindings L st x)" and "sqlite3_step L st x = (rc, x2) \<Longrightarrow> W x2"
  using assms unfolding keeps_schema_def by (metis snd_conv)+

lemma schema_finalize_all: "keeps_schema L W S T cols \<Longrightarrow> W x \<Longrightarrow> W (sqlite_finalize_stmt L gone x)"
  unfolding sqlite_finalize_stmt_def by (induction gone arbitrary: x) (simp_all add: schema_simps(2))

lemma schema_yields: "keeps_schema L W S T cols \<Longrightarrow> W x \<Longrightarrow> yields L st x ys rc x' \<Longrightarrow> W x'"
  by (induction ys arbitrary: x) (auto dest: schema_simps(5))

section \<open>The driver keeps serving\<close>

lemma serving_get_stmt:
  assumes sc: "keeps_schema L W S T cols" and x: "W x" and sql: "sql \<in> S" and k: "stmt_cache c = Some k" "cache_rel k xs"
  shows "\<exists>sp c1 x1 k1 xs1. sqlite_get_stmt L c x sql [] = Some (sp, c1, x1, []) \<and> W x1 \<and>
    stmt_cache c1 = Some k1 \<and> cache_rel k1 xs1"
proof -
  from get_refines [OF k(2), of sql] obtain k1 where g: "corm_stmt_cache_get (stmt_cache c) (Some sql) = Some (map_of xs sql, Some k1)"
    "cache_rel k1 (snd (lru_get xs sql))" using k(1) by (auto simp: corm_stmt_cache_get_def lru_get_def split: option.splits)
  show ?thesis
  proof (cases "map_of xs sql")
    case (Some st)
    with g schema_simps(4) [OF sc schema_simps(3) [OF sc x]] show ?thesis by (auto simp: sqlite_get_stmt_def)
  next
    case None
    obtain rc st x1 where p: "sqlite3_prepare_v2 L x sql = ((rc, st), x1)" by (metis prod.collapse)
    note x1 = schema_simps(1) [OF sc x sql p]
    show ?thesis
    proof (cases "rc = SQLITE_OK \<and> st \<noteq> None")
      case True
      then obtain s where s: "st = Some s" by auto
      from put_refines [OF g(2), of sql s "[]"] obtain err gone k2 m2 xs2 where
        put: "corm_stmt_cache_put (Some k1) (Some sql) (Some s) [] = Some (err, gone, Some k2, m2)" "cache_rel k2 xs2" by blast
      with put_mem [OF put(1)] g(1) None p True s schema_finalize_all [OF sc x1] show ?thesis by (auto simp: sqlite_get_stmt_def)
    next
      case False
      with g None p x1 show ?thesis
        by (auto simp: sqlite_get_stmt_def corm_set_err_msg_def corm_stmt_cache_put_def sqlite_finalize_stmt_def)
    qed
  qed
qed

lemma serving_exec:
  assumes "sqlite_serving L S T cols c" and "sql \<in> S"
  shows "\<exists>err c'. sqlite_exec L c sql [] [] = Some (err, c', []) \<and> sqlite_serving L S T cols c'"
proof -
  from assms(1) obtain W x k xs where sc: "keeps_schema L W S T cols" and x: "W x" "conn c = Some x"
    and k: "stmt_cache c = Some k" "cache_rel k xs" by (auto simp: sqlite_serving_def)
  from serving_get_stmt [OF sc x(1) assms(2) k] obtain sp c1 x1 k1 xs1 where
    g: "sqlite_get_stmt L c x sql [] = Some (sp, c1, x1, [])" "W x1" "stmt_cache c1 = Some k1" "cache_rel k1 xs1" by blast
  show ?thesis
  proof (cases sp)
    case None
    with g x(2) sc show ?thesis by (auto simp: sqlite_exec_def sqlite_serving_def)
  next
    case (Some st)
    obtain rc x3 where s: "sqlite3_step L st x1 = (rc, x3)" by fastforce
    note x3 = schema_simps(5) [OF sc g(2) s]
    from remove_refines [OF g(4), of sql] obtain k2 where
      r: "corm_stmt_cache_remove (Some k1) (Some sql) = Some (map_of xs1 sql, Some k2)" "cache_rel k2 (lru_remove xs1 sql)" by blast
    show ?thesis
    proof (cases "rc = SQLITE_DONE \<or> rc = SQLITE_ROW")
      case True
      have "sqlite_serving L S T cols (c1\<lparr>conn := Some x3\<rparr>)"
        unfolding sqlite_serving_def using sc x3 g(3,4) by (intro exI [of _ W] exI [of _ x3] exI [of _ k1] exI [of _ xs1]) simp
      with True Some g(1) x(2) s show ?thesis by (auto simp: sqlite_exec_def)
    next
      case False
      define x4 where "x4 = (case map_of xs1 sql of None \<Rightarrow> x3 | Some st \<Rightarrow> sqlite3_finalize L st x3)"
      have "W x4" using schema_simps(2) [OF sc x3] x3 by (simp add: x4_def split: option.split)
      then have "sqlite_serving L S T cols ((corm_set_err_msg c1 (sqlite3_errmsg L x3))\<lparr>stmt_cache := Some k2, conn := Some x4\<rparr>)"
        unfolding sqlite_serving_def using sc r(2)
        by (intro exI [of _ W] exI [of _ x4] exI [of _ k2] exI [of _ "lru_remove xs1 sql"]) simp
      with False Some g(1,3) x(2) s r(1) show ?thesis
        by (auto simp: sqlite_exec_def sqlite_cleanup_stmt_def corm_set_err_msg_def x4_def)
    qed
  qed
qed

lemma serving_describe:
  assumes "sqlite_serving L S T cols c" and "t \<in> T"
  shows "\<exists>cs c'. sqlite_describe_table L c t [] = Some ((CORM_OK, Some cs), c', []) \<and> lists_columns cols t CORM_OK (Some cs) \<and>
    named (Some cs) \<and> sqlite_serving L S T cols c'"
proof -
  from assms(1) obtain W x k xs where sc: "keeps_schema L W S T cols" and x: "W x" "conn c = Some x"
    and k: "stmt_cache c = Some k" "cache_rel k xs" by (auto simp: sqlite_serving_def)
  from sc x(1) assms(2) have "\<exists>q st x1 ys rc x2. lists_table L x (cols t) t q st x1 ys rc x2 \<and> W x1" by (simp add: keeps_schema_def)
  then obtain q st x1 ys rc x2 where l: "lists_table L x (cols t) t q st x1 ys rc x2" "W x1" by (elim exE conjE)
  from l(1) have q: "sqlite3_mprintf_w L t = Some q"
    and p: "sqlite3_prepare_v2 L x (snprintf_buf 512 (''PRAGMA table_info('' @ q @ '')'')) = ((SQLITE_OK, Some st), x1)"
    and y: "yields L st x1 ys rc x2" "\<forall>y\<in>set ys. sqlite3_column_text L y st 1 \<noteq> None"
      "Some ` cols t \<subseteq> (\<lambda>y. sqlite3_column_text L y st 1) ` set ys"
    unfolding lists_table_def by auto
  have "W (sqlite3_finalize L st x2)"
    by (rule schema_simps(2) [OF sc schema_yields [OF sc l(2) y(1)]])
  then have serving: "sqlite_serving L S T cols (c\<lparr>conn := Some (sqlite3_finalize L st x2)\<rparr>)"
    unfolding sqlite_serving_def using sc k by (intro exI [of _ W] exI [of _ "sqlite3_finalize L st x2"] exI [of _ k] exI [of _ xs]) simp
  have run: "sqlite_describe_table L c t [] =
      Some ((CORM_OK, Some (map (column_info L st) ys)), c\<lparr>conn := Some (sqlite3_finalize L st x2)\<rparr>, [])"
    using x(2) q p describe_full [OF y(1), of "[]" 16] by (simp add: sqlite_describe_table_def Let_def)
  have "cname ` set (map (column_info L st) ys) = (\<lambda>y. sqlite3_column_text L y st 1) ` set ys"
    by (force simp: column_info_def)
  then have "lists_columns cols t CORM_OK (Some (map (column_info L st) ys))" "named (Some (map (column_info L st) ys))"
    using y(2,3) by (auto simp: lists_columns_def named_def column_info_def)
  with run serving show ?thesis by (intro exI conjI)
qed

text \<open>So the driver, on a connection that serves, is a backend that can be migrated.\<close>

interpretation sqlite_migrated:
  migrated_backend "sqlite3_backend L" "sqlite_serving L S T cols" S T "lists_columns cols" for L S T cols
proof unfold_locales
  fix c c' :: "('a, 'b) conn_core" and sql err m'
  assume c: "sqlite_serving L S T cols c" "sql \<in> S" "call_exec (sqlite3_backend L) c sql [] [] = (err, c', m')"
  with serving_exec [OF c(1,2)] show "sqlite_serving L S T cols c'"
    by (auto simp: call_exec_def sqlite3_backend_def)
next
  have "\<exists>e cs c'. answered (sqlite_describe_table L c t []) [] = ((e, cs), c', []) \<and> lists_columns cols t e cs \<and> named cs \<and>
      sqlite_serving L S T cols (logged c (Ev_Describe t e) c')" if "sqlite_serving L S T cols c" "t \<in> T" for c :: "('a, 'b) conn_core" and t
  proof -
    from serving_describe [OF that] obtain cs c' where
      "sqlite_describe_table L c t [] = Some ((CORM_OK, Some cs), c', [])" "lists_columns cols t CORM_OK (Some cs)" "named (Some cs)"
      "sqlite_serving L S T cols c'" by (elim exE conjE)
    then show ?thesis by (intro exI [of _ CORM_OK] exI [of _ "Some cs"] exI [of _ c']) simp
  qed
  then show "\<exists>d. b_describe_table (sqlite3_backend L) = Some d \<and> (\<forall>c. \<forall>t\<in>T. sqlite_serving L S T cols c \<longrightarrow>
      (\<exists>e cs c'. d c t [] = ((e, cs), c', []) \<and> lists_columns cols t e cs \<and> named cs \<and>
         sqlite_serving L S T cols (logged c (Ev_Describe t e) c')))"
    by (simp add: sqlite3_backend_def)
qed

section \<open>Properties\<close>

text \<open>The statements a run without missing columns sends.\<close>

definition only_creates :: "corm_backend_type_t \<Rightarrow> ('h, 'z) corm_model_t_scheme list \<Rightarrow> backend_call list \<Rightarrow> bool" where
  "only_creates bt mds evs \<longleftrightarrow> (\<forall>s ps e. Ev_Exec s ps e \<in> set evs \<longrightarrow> ps = [] \<and>
     (\<exists>md\<in>set mds. s = table_text bt md \<or> (\<exists>f\<in>set (indexed_fields (model_fields md)). s = index_text bt md f)))"

definition columns_known :: "(string \<Rightarrow> string set) \<Rightarrow> ('h, 'z) corm_model_t_scheme \<Rightarrow> bool" where
  "columns_known cols md \<longleftrightarrow>
     (\<forall>f\<in>set (model_fields md). has_flag f CORM_FLAG_PRIMARY \<or> field_name f \<in> cols (model_table md))"

lemma none_missing:
  assumes "columns_known cols md" and "lists_columns cols (model_table md) e cs"
  shows "missing_fields e cs (model_fields md) = []"
  using assms by (force simp: missing_fields_def columns_known_def lists_columns_def filter_empty_conv)

lemma sent_in: "Ev_Exec s ps e \<in> set (sent g fs es) \<Longrightarrow> ps = [] \<and> (\<exists>f\<in>set fs. s = g f)"
  by (auto simp: sent_def dest: set_zip_leftD)

lemma known_only_creates:
  assumes "migrates_by bt (lists_columns cols) mds err evs" and "\<forall>md\<in>set mds. columns_known cols md"
  shows "only_creates bt mds evs \<and> (err = CORM_OK \<longrightarrow> (\<forall>md\<in>set mds. Ev_Exec (table_text bt md) [] CORM_OK \<in> set evs))"
  using assms
proof (induction mds arbitrary: evs)
  case Nil
  then show ?case by (simp add: only_creates_def)
next
  case (Cons md mds)
  show ?case
  proof (cases "err \<noteq> CORM_OK \<and> evs = [Ev_Exec (table_text bt md) [] err]")
    case True
    then show ?thesis by (simp add: only_creates_def)
  next
    case False
    with Cons.prems(1) have "\<exists>e cs es1 es2 rest. lists_columns cols (model_table md) e cs \<and>
        evs = Ev_Exec (table_text bt md) [] CORM_OK # Ev_Describe (model_table md) e #
          sent (alter_text bt md) (missing_fields e cs (model_fields md)) es1 @
          sent (index_text bt md) (indexed_fields (model_fields md)) es2 @ rest \<and>
        migrates_by bt (lists_columns cols) mds err rest"
      unfolding migrates_by.simps by (elim disjE exE conjE) (blast, intro exI conjI)
    then obtain e cs es1 es2 rest where l: "lists_columns cols (model_table md) e cs"
      and evs: "evs = Ev_Exec (table_text bt md) [] CORM_OK # Ev_Describe (model_table md) e #
          sent (alter_text bt md) (missing_fields e cs (model_fields md)) es1 @
          sent (index_text bt md) (indexed_fields (model_fields md)) es2 @ rest"
      and r: "migrates_by bt (lists_columns cols) mds err rest" by (elim exE conjE)
    from Cons.prems(2) have k: "columns_known cols md" "\<forall>md\<in>set mds. columns_known cols md" by simp_all
    have evs: "set evs = {Ev_Exec (table_text bt md) [] CORM_OK, Ev_Describe (model_table md) e} \<union>
        set (sent (index_text bt md) (indexed_fields (model_fields md)) es2) \<union> set rest"
      unfolding evs none_missing [OF k(1) l] by simp
    from Cons.IH [OF r k(2)] show ?thesis
      unfolding only_creates_def evs by (auto dest!: sent_in)
  qed
qed

text \<open>(C10) Migrating a SQLite database again (memory available): when the connection's handle reports
  the columns of the models' tables and those have all members that are not keys, the run returns and
  executes nothing but CREATE TABLE IF NOT EXISTS and CREATE INDEX statements of the models, without
  parameters -- no ALTER TABLE --, for every model when it succeeds, and leaves the connection as
  serviceable as it was, so it can be repeated.\<close>

theorem sqlite_remigration:
  assumes "backend db = Some (sqlite3_backend L)" and "sqlite_serving L S T cols (core db)"
    and "\<forall>md\<in>set mds. strings_ok md \<and> within S T CORM_BACKEND_SQLITE md \<and> columns_known cols md"
  shows "\<exists>err db' evs. corm_auto_migrate (Some db) (Some mds) (int (length mds)) [] = Some (err, Some db', []) \<and>
    backend db' = Some (sqlite3_backend L) \<and> sqlite_serving L S T cols (core db') \<and>
    calls (core db') = calls (core db) @ evs \<and> only_creates CORM_BACKEND_SQLITE mds evs \<and>
    (err = CORM_OK \<longrightarrow> (\<forall>md\<in>set mds. Ev_Exec (table_text CORM_BACKEND_SQLITE md) [] CORM_OK \<in> set evs))"
proof -
  have bt: "btype (sqlite3_backend L) = CORM_BACKEND_SQLITE" by (simp add: sqlite3_backend_def)
  have "attached (sqlite3_backend L) (sqlite_serving L S T cols) db" using assms(1,2) by (simp add: attached_def)
  moreover have "\<forall>md\<in>set mds. strings_ok md \<and> within S T (btype (sqlite3_backend L)) md" using assms(3) bt by simp
  ultimately obtain err db' evs where
    r: "corm_auto_migrate (Some db) (Some mds) (int (length mds)) [] = Some (err, Some db', [])"
      "attached (sqlite3_backend L) (sqlite_serving L S T cols) db'" "calls (core db') = calls (core db) @ evs"
      "migrates_by CORM_BACKEND_SQLITE (lists_columns cols) mds err evs"
    using sqlite_migrated.auto_migrate_full [where mds = mds and L = L and S = S and T = T and cols = cols and db = db] bt by auto
  from known_only_creates [OF r(4)] assms(3) r show ?thesis by (auto simp: attached_def)
qed

definition age_sqlite :: "(toy, nat) sqlite_api" where
  "age_sqlite = toy_sqlite\<lparr>sqlite3_column_text := (\<lambda>x s i. Some ''age'')\<rparr>"

definition age_db :: "(toy, nat, unit) corm_t" where
  "age_db = \<lparr>backend = Some (sqlite3_backend age_sqlite), core = toy_core, config = CORM_DEFAULT_CONFIG,
     registry = registry sample_db, last_err = CORM_OK, err_sql = [], logger = True, logs = [], created_at_ms = 0\<rparr>"

lemma age_lists: "lists_table age_sqlite x {''age''} t t (Suc (sum_list (fst x))) (Suc (sum_list (fst x)) # fst x, 0)
    [(Suc (sum_list (fst x)) # fst x, 1), (Suc (sum_list (fst x)) # fst x, 2)] SQLITE_DONE (Suc (sum_list (fst x)) # fst x, 2)"
  by (simp add: lists_table_def age_sqlite_def toy_sqlite_def)

lemma age_serving: "sqlite_serving age_sqlite UNIV UNIV (\<lambda>t. {''age''}) toy_core"
proof -
  have "keeps_schema age_sqlite (\<lambda>x. True) UNIV UNIV (\<lambda>t. {''age''})"
    unfolding keeps_schema_def by (intro allI impI ballI conjI TrueI exI, rule age_lists)
  moreover have "conn toy_core = Some ([], 0)" "stmt_cache toy_core = Some empty_cache" by (simp_all add: toy_core_def)
  ultimately show ?thesis unfolding sqlite_serving_def using empty_cache_rel by blast
qed

theorem sqlite_remigration_witness:
  "\<exists>err db' evs. corm_auto_migrate (Some age_db) (Some [sample_model]) (int (length [sample_model])) [] = Some (err, Some db', []) \<and>
     calls (core db') = evs \<and> (\<forall>s ps e. Ev_Exec s ps e \<in> set evs \<longrightarrow> s = table_text CORM_BACKEND_SQLITE sample_model)"
proof -
  have i: "indexed_fields (model_fields sample_model) = []"
    by (simp add: indexed_fields_def sample_model_def model_fields_def has_flag_def CORM_FLAG_INDEX_def)
  have s: "\<forall>md\<in>set [sample_model]. strings_ok md \<and> within UNIV UNIV CORM_BACKEND_SQLITE md \<and> columns_known (\<lambda>t. {''age''}) md"
    by (simp add: strings_ok_def sample_model_def model_table_def model_fields_def field_name_def columns_known_def
        has_flag_def CORM_FLAG_PRIMARY_def)
  have b: "backend age_db = Some (sqlite3_backend age_sqlite)" "core age_db = toy_core" by (simp_all add: age_db_def)
  from sqlite_remigration [OF b(1) _ s] age_serving b(2) obtain err db' evs where
    "corm_auto_migrate (Some age_db) (Some [sample_model]) (int (length [sample_model])) [] = Some (err, Some db', [])"
    "calls (core db') = calls toy_core @ evs" "only_creates CORM_BACKEND_SQLITE [sample_model] evs" by auto
  then show ?thesis using i by (auto simp: only_creates_def toy_core_def)
qed

end
