(* ===== verification/Spec2Isabelle.thy ===== *)
theory Spec2Isabelle
  imports Sqlite_Records Pg_Records Mysql_Records Pool Sqlite_Ownership Driver_Agreement Sqlite_Migration
begin

text \<open>
  CORM is an object-relational mapping library in C. A program describes its structs with field
  descriptors, opens a connection by a data source name, builds queries with a fluent interface, and the
  library writes the SQL, binds the members of the structs, sends the statement through one of three
  database drivers and copies the answers back. This development models the library function by
  function and shows what each layer promises to the one above.

  How the parts interact. \<^verbatim>\<open>src/corm.c\<close> opens connections and runs transactions and raw
  statements; \<^verbatim>\<open>src/query.c\<close> holds a query's clauses in string buffers
  (\<^verbatim>\<open>src/internal/strbuf.h\<close>), has \<^verbatim>\<open>src/builder.c\<close> and \<^verbatim>\<open>src/dialect.c\<close>
  write the statement, reads and writes struct members through \<^verbatim>\<open>src/model.c\<close>, and calls the
  function table of \<^verbatim>\<open>include/corm/backend.h\<close>. The drivers in \<^verbatim>\<open>src/backend\<close> fill
  that table; they keep prepared statements in \<^verbatim>\<open>src/internal/stmt_cache.c\<close> and return the
  result objects of \<^verbatim>\<open>src/result.c\<close>. \<^verbatim>\<open>src/migration.c\<close> creates tables and
  columns, \<^verbatim>\<open>src/internal/pool.c\<close> shares connections between threads.

  The theories, each with its state and operations under the names of the source:

  \<^item> \<open>Corm_Prelude\<close>: the enumerations of \<^verbatim>\<open>include/corm/types.h\<close>, C strings, the
    allocator, \<^verbatim>\<open>snprintf\<close> into fixed arrays, and the lemmas all theories share.
  \<^item> \<open>Strbuf\<close>, \<open>Hash_Table\<close>, \<open>Stmt_Cache\<close>: the containers of
    \<^verbatim>\<open>src/internal\<close>. A buffer is its block, length and capacity; the table is its chains; the
    cache is a doubly linked list on a heap of entries. Append adds its text or changes nothing; the table
    is a map with shadowed entries; the cache implements a bounded least-recently-used map.
  \<^item> \<open>Struct_Access\<close>, \<open>Model_Registry\<close>: values, field descriptors, structs as bytes with a
    heap of strings, and the two registries of \<^verbatim>\<open>src/model.c\<close>. Writing a member and reading it
    back, frames, the decision of \<^verbatim>\<open>corm_validate_model\<close>, registration.
  \<^item> \<open>Dialect\<close>, \<open>Query\<close>, \<open>Sql_Builder\<close>: the query record and every clause function;
    \<^verbatim>\<open>corm_build_sql\<close> append by append against a reference text \<open>sql_of\<close>.
  \<^item> \<open>Result\<close>, \<open>Typed_Result\<close>: result objects, their counts of references, accessors with
    bounds; results all of whose cells have the contents their column type says. The heap blocks of a
    result have names, and releases run on the set of live ones.
  \<^item> \<open>Backend\<close>, \<open>Connection\<close>: the function table as a record of functions, its registry, the
    connection (\<^verbatim>\<open>struct corm\<close>), opening and closing, transactions, savepoints, raw statements.
    The calls a driver receives are recorded in the field \<open>calls\<close>, so theorems speak of exactly the
    statements sent, their parameters, codes and order.
  \<^item> \<open>Query_Exec\<close>, \<open>Batch\<close>: find, first, create, update, delete and count with hooks, and the
    batch operations with their transactions. Reading a row covers NULL cells, which leave a string or blob
    member as it was, and booleans that a database returns as integers.
  \<^item> \<open>Migration\<close>, \<open>Sqlite_Migration\<close>: \<^verbatim>\<open>corm_auto_migrate\<close> on any backend, and run
    again on a SQLite database.
  \<^item> \<open>Pool\<close>: every critical section is one step of a transition system over any number of threads;
    the accounting invariant, and that no wakeup is lost.
  \<^item> \<open>Sqlite_Driver\<close>, \<open>Sqlite_Results\<close>, \<open>Sqlite_Ownership\<close>, \<open>Dsn\<close>,
    \<open>Mysql_Driver\<close>, \<open>Mysql_Results\<close>, \<open>Pg_Driver\<close>, \<open>Pg_Results\<close>: the three
    drivers, what their calls return, who owns the prepared statements, and the data source names.
  \<^item> \<open>Driver_Agreement\<close>: for the same answer PostgreSQL and MySQL return the same object, and SQLite
    does exactly when the first row has no NULL outside the text columns.
  \<^item> \<open>Example_Models\<close>: the models of \<^verbatim>\<open>examples/sqlite_full.c\<close>, on which the
    theorems about records are tried out.
  \<^item> \<open>Record_Roundtrip\<close>, \<open>Sqlite_Records\<close>, \<open>Pg_Records\<close>, \<open>Mysql_Records\<close>:
    \<^verbatim>\<open>corm_first\<close> through every layer, and what becomes of a record that
    \<^verbatim>\<open>corm_create\<close> writes and \<^verbatim>\<open>corm_first\<close> reads back with each of the three drivers.
    This theory adds what a soft-delete member in the struct leads to.

  Interfaces are locales, each interpreted on the definitions above: \<open>text_buffer\<close> (appending
  buffers, by \<open>sbuf\<close>), \<open>shadow_table\<close> (\<open>htab\<close>), \<open>stmt_store\<close> (\<open>sstore\<close>),
  \<open>steady_backend\<close> (a driver that does not run out of memory when the allocator does not; by
  \<open>sqlite\<close>, \<open>mysql\<close>, \<open>postgres\<close>), \<open>migrated_backend\<close>, which extends it by what a
  migration needs (\<open>sqlite_migrated\<close>), \<open>typed_driver\<close> (\<open>sqlite_typed\<close>, \<open>pg_typed\<close>)
  \<open>answer_driver\<close> (\<open>sqlite_driver\<close>, \<open>pg_driver\<close>, \<open>mysql_driver\<close>) and \<open>record_store\<close>, what a
  driver owes a record (\<open>sqlite_store\<close>, \<open>pg_store\<close>, \<open>mysql_store\<close>).

  Conventions and bounds. Memory allocation is a script: \<open>mem\<close> lists the outcomes of the coming
  allocations, and the empty list always succeeds, so \<open>[]\<close> as last argument is the case with memory
  and a variable is every case. A value \<open>None\<close> of an operation means that the C code would access
  memory outside its objects, follow a null pointer, free what is not its own or not return. Loops whose end depends on the client
  library or on wrapping arithmetic are \<open>partial_function (option)\<close>; that they return is part of the
  theorems. Machine integers keep their width (sizes and hash values are words, members of structs are
  bytes, \<^verbatim>\<open>int64_t\<close> values are words or signed numbers in range; the sizes of a string buffer
  are natural numbers, and \<open>grow_sizes_word\<close> shows where the computation on words agrees); numbers of
  rows, columns and parameters are taken to fit \<^verbatim>\<open>int\<close>, sums with the batch size included. A
  model's array of fields has the \<^verbatim>\<open>field_count\<close> elements it announces. Queries and results that a
  function releases before it returns are not followed there: what the release of a result frees is shown
  in \<open>Result\<close>, and what that of a query frees, and when it may not, in \<open>Query\<close>. Data source names of 1023 characters and more overrun the parsing
  buffer and are \<open>None\<close>. A mutex held through a function makes it one step.

  The client libraries (SQLite, libpq, the MySQL connector) are parameters: records of their functions,
  over an abstract handle that every call may change. Theorems name what they need of them, as the
  libraries document it: \<open>columns_readable\<close>, \<open>statement_life\<close>, \<open>keeps_schema\<close>,
  \<open>pg_readable\<close>; and of the databases behind them \<open>sqlite_saved\<close>, \<open>pg_saved\<close>,
  \<open>my_saved\<close>: a row shows what was stored in it. The same holds for \<^verbatim>\<open>strtod\<close> and the printing of floating-point
  numbers. Small concrete libraries show that these hypotheses can be met.

  Not modelled: the clock (the time of opening is an argument), the elapsed time passed to the logger, and the length of the pool's sleep
  between two attempts to connect (no result depends on them); the relation types of
  \<^verbatim>\<open>include/corm/model.h\<close>, which no function reads; the declarations of
  \<^verbatim>\<open>include/corm/corm.h\<close>; the main functions of the examples and the tests, which call the library
  and print. What interleavings inside one connection do is left out: a connection is not shared between
  threads but through the pool.
\<close>

section \<open>Records of soft-delete models\<close>

text \<open>The values of all member types but \<^verbatim>\<open>char *\<close> are bound as something other than NULL.\<close>

lemma bound_not_null:
  assumes "corm_field_get_value rec f = Some v" and "ftype f \<noteq> CORM_TEXT"
  shows "\<not> is_null v \<and> (\<exists>a. bind_arg v = Some a \<and> a \<noteq> Bind_null \<and> a \<noteq> Bind_text None)"
  using assms
  by (cases "ftype f") (auto simp: corm_field_get_value_def mk_value_def bind_arg_def split: option.splits)

text \<open>(C36) With a soft-delete member inside the struct, as in the examples and the guide (a
  \<^verbatim>\<open>char[32]\<close>, not a pointer), the library hides the records it creates (no hooks, memory
  available): the INSERT that \<^verbatim>\<open>corm_create\<close> sends has one parameter per column, and the one of
  the soft-delete column is not NULL, nor bound as NULL by the SQLite driver, whatever the member holds;
  but every find on the model (first and count are finds) appends \<^verbatim>\<open>AND column IS NULL\<close> to its
  conditions (or has it as the only one), unless the query is unscoped. After an OR this restricts only
  the last alternative.\<close>

theorem soft_delete_hides_created:
  fixes b b2 :: "('c, 's) corm_backend_t"
  assumes "query_wf q" and "valid_model (qmodel q)" and "names_ok (qmodel q)" and "params q = []"
    and "before_create (qmodel q) = None" and "after_create (qmodel q) = None"
    and "\<forall>f\<in>set (insert_fields (qmodel q)). corm_field_get_value rec f \<noteq> None"
    and "soft_delete_field (qmodel q) = Some sf" and "\<not> has_flag sf CORM_FLAG_AUTOINC" and "ftype sf \<noteq> CORM_TEXT"
  shows "\<exists>err key c' q' m' ps i a. corm_create b c q rec True [] = Some (err, key, rec, c', q', m') \<and>
      calls c' = calls c @ [Ev_Exec (sql_of (query_bt q) (q\<lparr>qop := CORM_OP_INSERT\<rparr>)) ps err] \<and>
      length ps = length (insert_fields (qmodel q)) \<and> i < length ps \<and> insert_fields (qmodel q) ! i = sf \<and>
      \<not> is_null (ps ! i) \<and> bind_arg (ps ! i) = Some a \<and> a \<noteq> Bind_null \<and> a \<noteq> Bind_text None \<and>
      (\<forall>c2 q2. query_wf q2 \<and> qmodel q2 = qmodel q \<and> \<not> unscoped q2 \<longrightarrow>
         (\<exists>r c3 q3 m3 e. corm_find b2 c2 q2 [] = (r, c3, q3, m3) \<and> qop q3 = CORM_OP_SELECT \<and>
            wtext q3 = wtext q2 @ sep_if '' AND '' (wtext q2) @ field_name sf @ '' IS NULL'' \<and>
            calls c3 = calls c2 @ [Ev_Query (sql_of (query_bt q2) q3) (param_values q2) e]))"
proof -
  let ?fs = "insert_fields (qmodel q)" and ?v = "\<lambda>f. the (corm_field_get_value rec f)"
  have "sf \<in> set ?fs" using soft_delete_in [OF assms(8)] assms(9) by (simp add: insert_fields_def)
  then obtain i where i: "i < length ?fs" "?fs ! i = sf" by (metis in_set_conv_nth)
  from assms(7) \<open>sf \<in> set ?fs\<close> obtain v where v: "corm_field_get_value rec sf = Some v" by blast
  from bound_not_null [OF v assms(10)] obtain a where
    a: "\<not> is_null v" "bind_arg v = Some a" "a \<noteq> Bind_null" "a \<noteq> Bind_text None" by blast
  have "param_values q = []" using assms(4) by (simp add: param_values_def)
  with create_full [OF assms(1,3,5-7), of b c] obtain err c' q' m' where
    run: "corm_create b c q rec True [] = Some (err, if err = CORM_OK then Some (b_last_insert_id b c') else None, rec, c', q', m')"
      "calls c' = calls c @ [Ev_Exec (sql_of (query_bt q) (q\<lparr>qop := CORM_OP_INSERT\<rparr>)) (map ?v ?fs) err]" by auto
  have ps: "length (map ?v ?fs) = length ?fs" "i < length (map ?v ?fs)" "\<not> is_null (map ?v ?fs ! i)"
    "bind_arg (map ?v ?fs ! i) = Some a" using i v a by simp_all
  have find: "\<exists>r c3 q3 m3 e. corm_find b2 c2 q2 [] = (r, c3, q3, m3) \<and> qop q3 = CORM_OP_SELECT \<and>
      wtext q3 = wtext q2 @ sep_if '' AND '' (wtext q2) @ field_name sf @ '' IS NULL'' \<and>
      calls c3 = calls c2 @ [Ev_Query (sql_of (query_bt q2) q3) (param_values q2) e]"
    if "query_wf q2 \<and> qmodel q2 = qmodel q \<and> \<not> unscoped q2" for c2 q2
  proof -
    from find_full [of q2 b2 c2] assms(2,3) that obtain w err res c3 m3 where
      "corm_find b2 c2 q2 [] = ((err, res), c3, q2\<lparr>where_c := w, qop := CORM_OP_SELECT\<rparr>, m3)" "sb_text w = wtext q2 @ filter_text q2"
      "calls c3 = calls c2 @ [Ev_Query (sql_of (query_bt q2) (q2\<lparr>where_c := w, qop := CORM_OP_SELECT\<rparr>)) (param_values q2) err]"
      by auto
    then show ?thesis using assms(8) that by (auto simp: filter_text_def)
  qed
  show ?thesis
    by (rule exI)+ (intro conjI, rule run(1), rule run(2), rule ps(1), rule ps(2), rule i(2), rule ps(3), rule ps(4), rule a(3), rule a(4),
        use find in blast)
qed

text \<open>An article of the example, created and then looked for.\<close>

theorem soft_delete_hides_created_witness:
  "\<exists>q err key c' q' m' ps a. query_for (null_backend CORM_BACKEND_SQLITE) article_model [] = (Some q, []) \<and>
     corm_create (null_backend CORM_BACKEND_SQLITE) fresh_core q (zeroed 164) True [] = Some (err, key, zeroed 164, c', q', m') \<and>
     (\<exists>sql. calls c' = [Ev_Exec sql ps err]) \<and> length ps = 2 \<and> bind_arg (ps ! 1) = Some a \<and> a \<noteq> Bind_null \<and>
     a \<noteq> Bind_text None \<and>
     (\<exists>r c3 q3 m3. corm_find (null_backend CORM_BACKEND_SQLITE) c' q [] = (r, c3, q3, m3) \<and> wtext q3 = ''deleted_at IS NULL'')"
proof -
  let ?b = "null_backend CORM_BACKEND_SQLITE" and ?md = "article_model :: (unit, unit) model" and ?sf = "article_fields ! 2"
  obtain q where q: "query_for ?b ?md [] = (Some q, [])" "query_wf q" "qmodel q = ?md"
    "params q = []" "wtext q = []" "\<not> unscoped q" by (rule query_for_full)
  have r: "\<forall>f\<in>set (insert_fields ?md). corm_field_get_value (zeroed 164) f \<noteq> None"
    using article_readable by (simp add: example_soft_delete article_fields_def)
  have sf: "\<not> has_flag ?sf CORM_FLAG_AUTOINC" "ftype ?sf \<noteq> CORM_TEXT" "field_name ?sf = ''deleted_at''"
    by (simp_all add: article_fields_def CORM_FIELD_def flag_defs field_name_def)
  from soft_delete_hides_created [OF q(2), of "zeroed 164" ?sf ?b fresh_core ?b, unfolded q(3), OF example_valid(2) example_names_ok(2)
      q(4) example_hooks(2,3) r example_soft_delete(2) sf(1,2)]
  obtain err key c' q' m' ps i a where
    c: "corm_create ?b fresh_core q (zeroed 164) True [] = Some (err, key, zeroed 164, c', q', m')"
      "calls c' = calls fresh_core @ [Ev_Exec (sql_of (query_bt q) (q\<lparr>qop := CORM_OP_INSERT\<rparr>)) ps err]" "length ps = length (insert_fields ?md)" "i < length ps"
      "insert_fields ?md ! i = ?sf" "bind_arg (ps ! i) = Some a" "a \<noteq> Bind_null" "a \<noteq> Bind_text None"
    and f: "\<forall>c2 q2. query_wf q2 \<and> qmodel q2 = ?md \<and> \<not> unscoped q2 \<longrightarrow>
         (\<exists>r c3 q3 m3 e. corm_find ?b c2 q2 [] = (r, c3, q3, m3) \<and> qop q3 = CORM_OP_SELECT \<and>
            wtext q3 = wtext q2 @ sep_if '' AND '' (wtext q2) @ field_name ?sf @ '' IS NULL'' \<and>
            calls c3 = calls c2 @ [Ev_Query (sql_of (query_bt q2) q3) (param_values q2) e])"
    by (elim exE conjE) (rule that, assumption+)
  have two: "length (insert_fields ?md) = 2" "insert_fields ?md ! 0 \<noteq> ?sf"
    by (simp_all add: example_soft_delete article_fields_def CORM_FIELD_def)
  with c(3,4,5) have "i = 1" by (cases i) auto
  moreover from f [rule_format, of q c'] q(2,3,5,6) sf(3) have
    "\<exists>r c3 q3 m3. corm_find ?b c' q [] = (r, c3, q3, m3) \<and> wtext q3 = ''deleted_at IS NULL''" by (auto simp: sep_if_def)
  ultimately show ?thesis using q(1) c(1,2,3,6,7,8) two(1) by (auto simp: fresh_core_def)
qed

end
